(* ===== verification/Prelude.thy ===== *)
theory Prelude
  imports Main "HOL-Library.Word" "HOL-Library.Monad_Syntax"
begin

text \<open>
  The shared base of the development: the machine integer types of the C++ sources and their byte
  images, the conversions between \<^verbatim>\<open>std::string\<close>, \<^verbatim>\<open>std::wstring\<close> and byte vectors, the C library
  routines the sources call (\<^verbatim>\<open>std::string::find\<close>, \<^verbatim>\<open>sscanf("%02x")\<close>, the \<^verbatim>\<open>printf\<close> conversions), and
  the interfaces, as locales, that several components implement: a fixed-width codec, and a machine
  whose steps keep an invariant.

  The target of the recorded build (\<^verbatim>\<open>build/CMakeFiles/4.4.2/CMakeCXXCompiler.cmake\<close>) is a 32-bit
  little-endian MinGW, so \<^verbatim>\<open>size_t\<close> has 32 bits and \<^verbatim>\<open>wchar_t\<close> 16.
\<close>

unbundle bit_operations_syntax

named_theorems byte_simps \<open>rewriting of byte images of machine words\<close>
named_theorems model_defs \<open>definitions of the model that proofs by evaluation unfold\<close>

section \<open>Types\<close>

type_synonym u8 = "8 word"
type_synonym u16 = "16 word"
type_synonym u32 = "32 word"
type_synonym u64 = "64 word"
type_synonym size_t = "32 word"
type_synonym bytes = "8 word list"
type_synonym wstring = "16 word list"

section \<open>Byte images of machine words\<close>

text \<open>
  \<open>to_le n w\<close> is the memory image of an \<open>n\<close>-byte integer on a little-endian machine, \<open>from_le\<close>
  the integer such an image holds; \<open>bswap n\<close> is \<^verbatim>\<open>__builtin_bswap16/32/64\<close>.
\<close>

definition to_le :: "nat \<Rightarrow> 'a::len word \<Rightarrow> bytes" where
  "to_le n w = map (\<lambda>i. ucast (drop_bit (8 * i) w)) [0..<n]"

fun from_le :: "bytes \<Rightarrow> 'a::len word" where
  "from_le [] = 0"
| "from_le (b # bs) = ucast b OR push_bit 8 (from_le bs)"

definition bswap :: "nat \<Rightarrow> 'a::len word \<Rightarrow> 'a::len word" where
  "bswap n w = from_le (rev (to_le n w))"

lemma length_to_le [simp]: "length (to_le n w) = n"
  by (simp add: to_le_def)

lemma bit_from_le:
  "bit (from_le bs :: 'a::len word) k \<longleftrightarrow>
     k < LENGTH('a) \<and> k < 8 * length bs \<and> bit (bs ! (k div 8)) (k mod 8)"
proof (induction bs arbitrary: k)
  case Nil
  then show ?case by simp
next
  case (Cons b bs)
  show ?case
  proof (cases "k < 8")
    case True
    then show ?thesis
      by (auto simp: bit_or_iff bit_push_bit_iff bit_ucast_iff dest: bit_imp_le_length)
  next
    case False
    then have "(k - 8) div 8 = k div 8 - 1" "(k - 8) mod 8 = k mod 8" "k div 8 = Suc (k div 8 - 1)"
      by (simp_all add: div_if mod_if)
    moreover from False have "\<not> bit b k"
      using bit_imp_le_length [of b k] by auto
    moreover from False have "k < 8 + 8 * length bs \<longleftrightarrow> k - 8 < 8 * length bs"
      by arith
    ultimately show ?thesis
      using False Cons.IH [of "k - 8"]
      by (auto simp: bit_or_iff bit_push_bit_iff bit_ucast_iff nth_Cons' possible_bit_word)
  qed
qed

lemma bit_nth_to_le:
  "i < n \<Longrightarrow> bit (to_le n w ! i) k \<longleftrightarrow> k < 8 \<and> bit w (8 * i + k)"
  by (auto simp: to_le_def bit_ucast_iff bit_drop_bit_eq ac_simps)

lemma from_le_to_le [byte_simps]:
  fixes w :: "'a::len word"
  assumes "LENGTH('a) = 8 * n"
  shows "from_le (to_le n w) = w"
proof (rule bit_word_eqI)
  fix k
  assume k: "k < LENGTH('a)"
  with assms have "k div 8 < n" by auto
  then show "bit (from_le (to_le n w) :: 'a word) k = bit w k"
    using k assms by (simp add: bit_from_le bit_nth_to_le mult.commute)
qed

lemma to_le_from_le [byte_simps]:
  assumes "length bs = n" and "8 * n \<le> LENGTH('a)"
  shows "to_le n (from_le bs :: 'a::len word) = bs"
proof (rule nth_equalityI)
  show "length (to_le n (from_le bs :: 'a word)) = length bs"
    using assms by simp
next
  fix i
  assume "i < length (to_le n (from_le bs :: 'a word))"
  then have i: "i < n" by simp
  show "to_le n (from_le bs :: 'a word) ! i = bs ! i"
  proof (rule bit_word_eqI)
    fix k
    assume "k < LENGTH(8)"
    then have k: "k < 8" by simp
    have "(8 * i + k) div 8 = i" "(8 * i + k) mod 8 = k" "8 * i + k < 8 * n"
      using k i by auto
    then show "bit (to_le n (from_le bs :: 'a word) ! i) k = bit (bs ! i) k"
      using i k assms by (simp add: bit_nth_to_le bit_from_le)
  qed
qed

lemma to_le_bswap [byte_simps]:
  "LENGTH('a) = 8 * n \<Longrightarrow> to_le n (bswap n w :: 'a::len word) = rev (to_le n w)"
  by (simp add: bswap_def to_le_from_le)

lemma bswap_bswap [byte_simps]:
  "LENGTH('a) = 8 * n \<Longrightarrow> bswap n (bswap n w) = (w :: 'a::len word)"
  by (simp add: bswap_def to_le_from_le from_le_to_le)

lemma bswap_from_le [byte_simps]:
  "LENGTH('a) = 8 * n \<Longrightarrow> length bs = n \<Longrightarrow> bswap n (from_le bs :: 'a::len word) = from_le (rev bs)"
  by (simp add: bswap_def to_le_from_le)

lemma to_le_inject:
  fixes v w :: "'a::len word"
  assumes "LENGTH('a) = 8 * n" "to_le n v = to_le n w"
  shows "v = w"
  using from_le_to_le [OF assms(1)] assms(2) by metis

lemma word_xor_eq_0_iff [simp]: "a XOR b = 0 \<longleftrightarrow> a = (b :: 'a::len word)"
proof
  assume "a XOR b = 0"
  then have "(a XOR b) XOR b = 0 XOR b" by simp
  then show "a = b" by (simp add: xor.assoc)
qed simp

lemma unat_of_nat_less: "n < 2 ^ LENGTH('a) \<Longrightarrow> unat (of_nat n :: 'a::len word) = n"
  by (simp add: unat_of_nat)

section \<open>Strings and bytes\<close>

text \<open>
  \<^verbatim>\<open>std::string(v.begin(), v.end())\<close> and \<^verbatim>\<open>v.assign(s.begin(), s.end())\<close> convert element by element;
  a \<^verbatim>\<open>char\<close> is a byte here. Widening a \<^verbatim>\<open>char\<close> (signed on the target) to \<^verbatim>\<open>wchar_t\<close> sign-extends,
  narrowing truncates.
\<close>

definition byte_of_char :: "char \<Rightarrow> u8" where
  "byte_of_char c = of_nat (of_char c)"

definition char_of_byte :: "u8 \<Rightarrow> char" where
  "char_of_byte b = char_of (unat b)"

definition bytes_of_string :: "string \<Rightarrow> bytes" where
  "bytes_of_string = map byte_of_char"

definition string_of_bytes :: "bytes \<Rightarrow> string" where
  "string_of_bytes = map char_of_byte"

definition widen :: "char \<Rightarrow> u16" where
  "widen c = scast (byte_of_char c)"

definition narrow :: "u16 \<Rightarrow> char" where
  "narrow w = char_of_byte (ucast w)"

definition wide :: "string \<Rightarrow> wstring" where
  "wide = map widen"

text \<open>
  What a call receives that is given \<^verbatim>\<open>s.c_str()\<close>: the text up to the first NUL of the string.
\<close>

definition c_str :: "wstring \<Rightarrow> wstring" where
  "c_str s = takeWhile (\<lambda>c. c \<noteq> 0) s"

lemma unat_byte_less [simp]: "unat (b :: u8) < 256"
  using unsigned_less [of b, where 'a = nat] by simp

lemma of_char_less: "(of_char c :: nat) < 256"
  using of_char_mod_256 [of c, where 'a = nat] by (metis mod_less_divisor zero_less_numeral)

lemma char_of_byte_of_char [simp]: "char_of_byte (byte_of_char c) = c"
  by (simp add: byte_of_char_def char_of_byte_def unat_of_nat of_char_less)

lemma byte_of_char_of_byte [simp]: "byte_of_char (char_of_byte b) = b"
  by (simp add: byte_of_char_def char_of_byte_def)

lemma string_of_bytes_of_string [simp]: "string_of_bytes (bytes_of_string s) = s"
  by (simp add: string_of_bytes_def bytes_of_string_def comp_def)

lemma bytes_of_string_of_bytes [simp]: "bytes_of_string (string_of_bytes b) = b"
  by (simp add: string_of_bytes_def bytes_of_string_def comp_def)

lemma length_bytes_of_string [simp]: "length (bytes_of_string s) = length s"
  by (simp add: bytes_of_string_def)

lemma length_string_of_bytes [simp]: "length (string_of_bytes b) = length b"
  by (simp add: string_of_bytes_def)

lemma bytes_of_string_append [simp]:
  "bytes_of_string (s @ t) = bytes_of_string s @ bytes_of_string t"
  by (simp add: bytes_of_string_def)

lemma byte_of_char_inject [simp]: "byte_of_char c = byte_of_char d \<longleftrightarrow> c = d"
  by (metis char_of_byte_of_char)

lemma narrow_widen [simp]: "narrow (widen c) = c"
proof -
  have "(ucast (scast b :: u16) :: u8) = b" for b :: u8
    by (rule bit_word_eqI) (simp add: bit_ucast_iff bit_signed_iff)
  then show ?thesis
    by (simp add: narrow_def widen_def)
qed

lemma widen_inject [simp]: "widen c = widen d \<longleftrightarrow> c = d"
  by (metis narrow_widen)

lemma widen_eq_0_iff [simp]: "widen c = 0 \<longleftrightarrow> c = CHR 0x00"
proof -
  have "widen (CHR 0x00) = 0" by code_simp
  then show ?thesis by (metis widen_inject)
qed

lemma map_narrow_wide [simp]: "map narrow (wide s) = s"
  by (simp add: wide_def comp_def)

lemma length_wide [simp]: "length (wide s) = length s"
  by (simp add: wide_def)

lemma wide_append [simp]: "wide (s @ t) = wide s @ wide t"
  by (simp add: wide_def)

lemma wide_inject [simp]: "wide s = wide t \<longleftrightarrow> s = t"
  by (metis map_narrow_wide)

lemma c_str_id [simp]: "0 \<notin> set s \<Longrightarrow> c_str s = s"
  by (induction s) (auto simp: c_str_def)

lemma c_str_append: "0 \<notin> set s \<Longrightarrow> c_str (s @ t) = s @ c_str t"
  by (induction s) (auto simp: c_str_def)

lemma c_str_append_NUL [simp]: "c_str (s @ 0 # r) = c_str s"
  by (induction s) (auto simp: c_str_def)

section \<open>C library routines\<close>

text \<open>\<^verbatim>\<open>std::string::find(pat, i)\<close> on the suffix \<open>s\<close> that starts at \<open>i\<close>: \<open>None\<close> is \<^verbatim>\<open>npos\<close>.\<close>

fun find_at :: "'a list \<Rightarrow> 'a list \<Rightarrow> nat \<Rightarrow> nat option" where
  "find_at pat [] i = (if pat = [] then Some i else None)"
| "find_at pat (c # s) i =
     (if take (length pat) (c # s) = pat then Some i else find_at pat s (Suc i))"

definition str_find :: "'a list \<Rightarrow> 'a list \<Rightarrow> nat option" where
  "str_find pat s = find_at pat s 0"

text \<open>
  \<open>sscanf2x s\<close> is \<^verbatim>\<open>sscanf(s, "%02x", &v) == 1\<close> with the value stored: white space is skipped and
  not counted in the field width of 2; a sign counts in it; \<^verbatim>\<open>0x\<close> alone is a prefix of a hexadecimal
  number and no number, so the conversion fails; one digit before a non-digit is a number.
\<close>

definition is_space :: "char \<Rightarrow> bool" where
  "is_space c \<longleftrightarrow> (let n = (of_char c :: nat) in n = 32 \<or> (9 \<le> n \<and> n \<le> 13))"

definition hexval :: "char \<Rightarrow> nat option" where
  "hexval c = (let n = of_char c in
     if 48 \<le> n \<and> n \<le> 57 then Some (n - 48)
     else if 97 \<le> n \<and> n \<le> 102 then Some (n - 87)
     else if 65 \<le> n \<and> n \<le> 70 then Some (n - 55)
     else None)"

fun scan_2x :: "string \<Rightarrow> u32 option" where
  "scan_2x [] = None"
| "scan_2x (c # t) =
     (if c = CHR ''+'' \<or> c = CHR ''-'' then
        (case t of [] \<Rightarrow> None
         | d # _ \<Rightarrow> map_option (\<lambda>v. if c = CHR ''-'' then - of_nat v else of_nat v) (hexval d))
      else (case hexval c of None \<Rightarrow> None
         | Some v \<Rightarrow>
             (case t of [] \<Rightarrow> Some (of_nat v)
              | d # _ \<Rightarrow>
                  if c = CHR ''0'' \<and> (d = CHR ''x'' \<or> d = CHR ''X'') then None
                  else (case hexval d of None \<Rightarrow> Some (of_nat v)
                        | Some v' \<Rightarrow> Some (of_nat (16 * v + v'))))))"

definition sscanf2x :: "string \<Rightarrow> u32 option" where
  "sscanf2x s = scan_2x (dropWhile is_space s)"

text \<open>The \<^verbatim>\<open>printf\<close> conversions \<^verbatim>\<open>%02x\<close> of a byte, \<^verbatim>\<open>%u\<close> and \<^verbatim>\<open>%06u\<close>.\<close>

definition hex_digit :: "nat \<Rightarrow> char" where
  "hex_digit n = (if n < 10 then char_of (48 + n) else char_of (87 + n))"

definition print_02x :: "u8 \<Rightarrow> string" where
  "print_02x b = [hex_digit (unat b div 16), hex_digit (unat b mod 16)]"

fun print_u :: "nat \<Rightarrow> string" where
  "print_u n = (if n < 10 then [char_of (48 + n)] else print_u (n div 10) @ [char_of (48 + n mod 10)])"

declare print_u.simps [simp del]

definition print_06u :: "nat \<Rightarrow> string" where
  "print_06u n = (let s = print_u n in replicate (6 - length s) (CHR ''0'') @ s)"

lemma hexval_hex_digit [simp]: "n < 16 \<Longrightarrow> hexval (hex_digit n) = Some n"
  by (auto simp: hexval_def hex_digit_def Let_def)

lemma of_char_hex_digit:
  "n < 16 \<Longrightarrow> (of_char (hex_digit n) :: nat) = (if n < 10 then 48 + n else 87 + n)"
  by (auto simp: hex_digit_def)

lemma hex_digit_neq:
  assumes "n < 16"
  shows "\<not> is_space (hex_digit n)" "hex_digit n \<noteq> CHR ''+''" "hex_digit n \<noteq> CHR ''-''"
    "hex_digit n \<noteq> CHR ''x''" "hex_digit n \<noteq> CHR ''X''" "hex_digit n \<noteq> CHR 0x22"
proof -
  have "(of_char c :: nat) = of_char (hex_digit n) \<Longrightarrow>
      c \<noteq> CHR ''+'' \<and> c \<noteq> CHR ''-'' \<and> c \<noteq> CHR ''x'' \<and> c \<noteq> CHR ''X'' \<and> c \<noteq> CHR 0x22" for c
    using assms by (auto simp: of_char_hex_digit split: if_splits)
  from this [of "hex_digit n"] show "hex_digit n \<noteq> CHR ''+''" "hex_digit n \<noteq> CHR ''-''"
    "hex_digit n \<noteq> CHR ''x''" "hex_digit n \<noteq> CHR ''X''" "hex_digit n \<noteq> CHR 0x22"
    by blast+
  show "\<not> is_space (hex_digit n)"
    using assms by (auto simp: is_space_def of_char_hex_digit Let_def)
qed

lemma length_print_02x [simp]: "length (print_02x b) = 2"
  by (simp add: print_02x_def)

lemma sscanf2x_print_02x [simp]: "sscanf2x (print_02x b @ s) = Some (ucast b)"
proof -
  have d: "unat b div 16 < 16" "unat b mod 16 < 16"
    by (simp_all add: less_mult_imp_div_less)
  have "(of_nat (16 * (unat b div 16) + unat b mod 16) :: u32) = ucast b"
    by (simp add: unsigned_of_nat [symmetric])
  then show ?thesis
    using d by (simp add: sscanf2x_def print_02x_def hex_digit_neq)
qed

section \<open>Interfaces shared by several components\<close>

text \<open>
  A fixed-width codec: \<open>enc\<close> writes \<open>width\<close> bytes for the values that satisfy \<open>ok\<close>, \<open>dec\<close> reads
  them back, and whatever \<open>dec\<close> accepts is the encoding of an \<open>ok\<close> value.
\<close>

locale codec =
  fixes enc :: "'a \<Rightarrow> bytes"
    and dec :: "bytes \<Rightarrow> 'a option"
    and ok :: "'a \<Rightarrow> bool"
    and width :: nat
  assumes enc_width: "ok a \<Longrightarrow> length (enc a) = width"
    and dec_enc: "ok a \<Longrightarrow> dec (enc a) = Some a"
    and dec_sound: "dec bs = Some a \<Longrightarrow> ok a \<and> take width bs = enc a"
begin

lemma enc_inj: "ok a \<Longrightarrow> ok b \<Longrightarrow> enc a = enc b \<Longrightarrow> a = b"
  by (metis dec_enc option.inject)

lemma dec_width: "dec bs = Some a \<Longrightarrow> width \<le> length bs"
  by (metis dec_sound enc_width length_take min.absorb_iff2 min.commute)

lemma dec_determined: "dec bs = Some a \<Longrightarrow> dec cs = Some b \<Longrightarrow> take width bs = take width cs \<Longrightarrow> a = b"
  by (metis dec_sound enc_inj)

lemma dec_None_short: "length bs < width \<Longrightarrow> dec bs = None"
  using dec_width by (metis leD not_Some_eq)

end

text \<open>A codec for a stream reads its \<open>width\<close> bytes off the front of a longer buffer.\<close>

locale stream_codec = codec +
  assumes dec_prefix: "width \<le> length bs \<Longrightarrow> dec bs = dec (take width bs)"
begin

lemma dec_append: "ok a \<Longrightarrow> dec (enc a @ r) = Some a"
  using dec_prefix [of "enc a @ r"] by (simp add: enc_width dec_enc)

lemma dec_Some_iff: "dec bs = Some a \<longleftrightarrow> ok a \<and> (\<exists>r. bs = enc a @ r)"
  by (metis append_take_drop_id dec_append dec_sound)

end

text \<open>
  A machine that keeps an invariant: \<open>step s e s'\<close> is one handler call \<open>e\<close> (its input and
  output). \<open>run\<close> is a sequence of calls.
\<close>

inductive run :: "('s \<Rightarrow> 'e \<Rightarrow> 's \<Rightarrow> bool) \<Rightarrow> 's \<Rightarrow> 'e list \<Rightarrow> 's \<Rightarrow> bool"
  for step :: "'s \<Rightarrow> 'e \<Rightarrow> 's \<Rightarrow> bool" where
  run_Nil: "run step s [] s"
| run_Cons: "step s e s' \<Longrightarrow> run step s' es s'' \<Longrightarrow> run step s (e # es) s''"

inductive_simps run_Nil_iff [simp]: "run step s [] s'"
inductive_simps run_Cons_iff [simp]: "run step s (e # es) s'"

lemma run_append: "run step s (es @ fs) t \<longleftrightarrow> (\<exists>u. run step s es u \<and> run step u fs t)"
  by (induction es arbitrary: s) auto

lemma run_conj: "run step s es t \<Longrightarrow> \<forall>e\<in>set es. P e \<Longrightarrow> run (\<lambda>s e t. P e \<and> step s e t) s es t"
  by (induction rule: run.induct) (auto intro: run.intros)

locale invariant_machine =
  fixes step :: "'s \<Rightarrow> 'e \<Rightarrow> 's \<Rightarrow> bool"
    and inv :: "'s \<Rightarrow> bool"
  assumes step_inv: "inv s \<Longrightarrow> step s e s' \<Longrightarrow> inv s'"
begin

lemma run_inv: "run step s es t \<Longrightarrow> inv s \<Longrightarrow> inv t"
  by (induction rule: run.induct) (auto intro: step_inv)

end

text \<open>
  A refinement: every step of the machine \<open>cstep\<close>, seen through \<open>view\<close> and \<open>abs\<close>, is one of the
  machine \<open>astep\<close>, and so are its histories.
\<close>

locale refinement =
  fixes cstep :: "'s \<Rightarrow> 'e \<Rightarrow> 's \<Rightarrow> bool"
    and astep :: "'a \<Rightarrow> 'l \<Rightarrow> 'a \<Rightarrow> bool"
    and abs :: "'s \<Rightarrow> 'a"
    and view :: "'e \<Rightarrow> 'l \<Rightarrow> bool"
  assumes refines: "cstep s e t \<Longrightarrow> \<exists>l. view e l \<and> astep (abs s) l (abs t)"
begin

lemma run_refines: "run cstep s es t \<Longrightarrow> \<exists>ls. list_all2 view es ls \<and> run astep (abs s) ls (abs t)"
proof (induction rule: run.induct)
  case (run_Cons s e s' es s'')
  then obtain ls where "list_all2 view es ls" "run astep (abs s') ls (abs s'')" by blast
  moreover obtain l where "view e l" "astep (abs s) l (abs s')" using refines run_Cons.hyps(1) by blast
  ultimately show ?case by (intro exI [of _ "l # ls"]) auto
qed simp

end

text \<open>Refinements compose.\<close>

locale refinement_chain =
  first: refinement cstep mstep abs1 view1 + second: refinement mstep astep abs2 view2
  for cstep :: "'s \<Rightarrow> 'e \<Rightarrow> 's \<Rightarrow> bool" and mstep :: "'m \<Rightarrow> 'k \<Rightarrow> 'm \<Rightarrow> bool" and astep :: "'a \<Rightarrow> 'l \<Rightarrow> 'a \<Rightarrow> bool"
    and abs1 view1 abs2 view2

sublocale refinement_chain \<subseteq> chain: refinement cstep astep "\<lambda>s. abs2 (abs1 s)" "view1 OO view2"
  by unfold_locales (use first.refines second.refines in blast)

end
