(* ===== verification/Protocol.thy ===== *)
theory Protocol
  imports Prelude
begin

text \<open>
  The wire protocol of \<^verbatim>\<open>shared/protocol/ProtocolTypes.h\<close> and \<^verbatim>\<open>shared/protocol/SignedMessage.h\<close>: the
  opcode, state and error enumerations, the 24-byte frame header and the 88-byte canonical signed
  message, each with its serializer and its validating deserializer. The packed structs are written
  to memory field by field in little-endian order after the byte swaps, as the code's \<^verbatim>\<open>memcpy\<close> does;
  \<^verbatim>\<open>ParseResult<T>\<close> is an \<open>option\<close>, and a buffer argument is \<open>None\<close> for the null pointer.
\<close>

section \<open>Constants and enumerations\<close>

definition PROTOCOL_MAGIC :: u16 where "PROTOCOL_MAGIC = 0x4D55"
definition PROTOCOL_MAJOR_VERSION :: u8 where "PROTOCOL_MAJOR_VERSION = 1"
definition PROTOCOL_MINOR_VERSION :: u8 where "PROTOCOL_MINOR_VERSION = 0"
definition MAX_PAYLOAD_SIZE :: u32 where "MAX_PAYLOAD_SIZE = 4096"
definition FRAME_HEADER_SIZE :: nat where "FRAME_HEADER_SIZE = 24"
definition CANONICAL_SIGNED_MESSAGE_SIZE :: nat where "CANONICAL_SIGNED_MESSAGE_SIZE = 88"

lemmas protocol_consts [model_defs] =
  PROTOCOL_MAGIC_def PROTOCOL_MAJOR_VERSION_def PROTOCOL_MINOR_VERSION_def MAX_PAYLOAD_SIZE_def
  FRAME_HEADER_SIZE_def CANONICAL_SIGNED_MESSAGE_SIZE_def

datatype MessageType =
    MT_UNKNOWN | MT_DISCOVER | MT_DISCOVERY_RESPONSE
  | MT_PAIR_REQUEST | MT_PAIR_RESPONSE | MT_PAIR_CONFIRM | MT_PAIR_COMPLETE
  | MT_AUTH_REQUEST | MT_AUTH_CHALLENGE | MT_AUTH_RESPONSE | MT_AUTH_SUCCESS | MT_AUTH_FAILURE
  | MT_LOCK_REQUEST | MT_LOCK_RESPONSE | MT_STATUS_REQUEST | MT_STATUS_RESPONSE
  | MT_UNPAIR_REQUEST | MT_UNPAIR_RESPONSE | MT_PING | MT_PONG | MT_PROTO_ERROR

text \<open>\<^verbatim>\<open>static_cast<uint16_t>\<close> of an opcode.\<close>

fun opcode :: "MessageType \<Rightarrow> u16" where
  "opcode MT_UNKNOWN = 0x0000"
| "opcode MT_DISCOVER = 0x0001"
| "opcode MT_DISCOVERY_RESPONSE = 0x0002"
| "opcode MT_PAIR_REQUEST = 0x0010"
| "opcode MT_PAIR_RESPONSE = 0x0011"
| "opcode MT_PAIR_CONFIRM = 0x0012"
| "opcode MT_PAIR_COMPLETE = 0x0013"
| "opcode MT_AUTH_REQUEST = 0x0020"
| "opcode MT_AUTH_CHALLENGE = 0x0021"
| "opcode MT_AUTH_RESPONSE = 0x0022"
| "opcode MT_AUTH_SUCCESS = 0x0023"
| "opcode MT_AUTH_FAILURE = 0x0024"
| "opcode MT_LOCK_REQUEST = 0x0030"
| "opcode MT_LOCK_RESPONSE = 0x0031"
| "opcode MT_STATUS_REQUEST = 0x0040"
| "opcode MT_STATUS_RESPONSE = 0x0041"
| "opcode MT_UNPAIR_REQUEST = 0x0050"
| "opcode MT_UNPAIR_RESPONSE = 0x0051"
| "opcode MT_PING = 0x00E0"
| "opcode MT_PONG = 0x00E1"
| "opcode MT_PROTO_ERROR = 0x00FF"

datatype PcState =
    PC_UNKNOWN | PC_OFFLINE | PC_ONLINE | PC_LOCKED | PC_UNLOCKED | PC_SUSPENDED | PC_SLEEPING
  | PC_PAIRING | PC_AUTHENTICATING | PC_PROTO_ERROR

fun pc_state_code :: "PcState \<Rightarrow> u32" where
  "pc_state_code PC_UNKNOWN = 0"
| "pc_state_code PC_OFFLINE = 1"
| "pc_state_code PC_ONLINE = 2"
| "pc_state_code PC_LOCKED = 3"
| "pc_state_code PC_UNLOCKED = 4"
| "pc_state_code PC_SUSPENDED = 5"
| "pc_state_code PC_SLEEPING = 6"
| "pc_state_code PC_PAIRING = 7"
| "pc_state_code PC_AUTHENTICATING = 8"
| "pc_state_code PC_PROTO_ERROR = 9"

datatype ErrorCode =
    EC_SUCCESS | EC_INVALID_MAGIC | EC_INVALID_VERSION | EC_INVALID_OPCODE | EC_PAYLOAD_TOO_LARGE
  | EC_MALFORMED_HEADER | EC_UNAUTHORIZED | EC_DEVICE_REVOKED | EC_NONCE_EXPIRED | EC_REPLAY_DETECTED
  | EC_RATE_LIMITED | EC_SERVICE_UNAVAILABLE | EC_IPC_COMMUNICATION_ERROR | EC_INTERNAL_ERROR

fun error_code :: "ErrorCode \<Rightarrow> u32" where
  "error_code EC_SUCCESS = 0"
| "error_code EC_INVALID_MAGIC = 1"
| "error_code EC_INVALID_VERSION = 2"
| "error_code EC_INVALID_OPCODE = 3"
| "error_code EC_PAYLOAD_TOO_LARGE = 4"
| "error_code EC_MALFORMED_HEADER = 5"
| "error_code EC_UNAUTHORIZED = 6"
| "error_code EC_DEVICE_REVOKED = 7"
| "error_code EC_NONCE_EXPIRED = 8"
| "error_code EC_REPLAY_DETECTED = 9"
| "error_code EC_RATE_LIMITED = 10"
| "error_code EC_SERVICE_UNAVAILABLE = 11"
| "error_code EC_IPC_COMMUNICATION_ERROR = 12"
| "error_code EC_INTERNAL_ERROR = 99"

section \<open>The frame header\<close>

record FrameHeader =
  fh_Magic :: u16
  fh_MajorVersion :: u8
  fh_MinorVersion :: u8
  fh_MessageType :: u16
  fh_Reserved :: u16
  fh_MessageID :: u32
  fh_PayloadLength :: u32
  fh_SequenceNumber :: u64

definition FrameHeader_init :: FrameHeader where
  "FrameHeader_init = \<lparr>
     fh_Magic = PROTOCOL_MAGIC,
     fh_MajorVersion = PROTOCOL_MAJOR_VERSION,
     fh_MinorVersion = PROTOCOL_MINOR_VERSION,
     fh_MessageType = 0,
     fh_Reserved = 0,
     fh_MessageID = 0,
     fh_PayloadLength = 0,
     fh_SequenceNumber = 0\<rparr>"

definition HostToNetwork16 :: "u16 \<Rightarrow> u16" where "HostToNetwork16 = bswap 2"
definition HostToNetwork32 :: "u32 \<Rightarrow> u32" where "HostToNetwork32 = bswap 4"
definition HostToNetwork64 :: "u64 \<Rightarrow> u64" where "HostToNetwork64 = bswap 8"
definition NetworkToHost16 :: "u16 \<Rightarrow> u16" where "NetworkToHost16 = HostToNetwork16"
definition NetworkToHost32 :: "u32 \<Rightarrow> u32" where "NetworkToHost32 = HostToNetwork32"
definition NetworkToHost64 :: "u64 \<Rightarrow> u64" where "NetworkToHost64 = HostToNetwork64"

lemmas byte_order_defs =
  HostToNetwork16_def HostToNetwork32_def HostToNetwork64_def
  NetworkToHost16_def NetworkToHost32_def NetworkToHost64_def

text \<open>The memory image of the packed struct, and the struct such an image holds.\<close>

definition frame_header_image :: "FrameHeader \<Rightarrow> bytes" where
  "frame_header_image h =
     to_le 2 (fh_Magic h) @ to_le 1 (fh_MajorVersion h) @ to_le 1 (fh_MinorVersion h) @
     to_le 2 (fh_MessageType h) @ to_le 2 (fh_Reserved h) @ to_le 4 (fh_MessageID h) @
     to_le 4 (fh_PayloadLength h) @ to_le 8 (fh_SequenceNumber h)"

definition frame_header_of_image :: "bytes \<Rightarrow> FrameHeader" where
  "frame_header_of_image bs = \<lparr>
     fh_Magic = from_le (take 2 bs),
     fh_MajorVersion = from_le (take 1 (drop 2 bs)),
     fh_MinorVersion = from_le (take 1 (drop 3 bs)),
     fh_MessageType = from_le (take 2 (drop 4 bs)),
     fh_Reserved = from_le (take 2 (drop 6 bs)),
     fh_MessageID = from_le (take 4 (drop 8 bs)),
     fh_PayloadLength = from_le (take 4 (drop 12 bs)),
     fh_SequenceNumber = from_le (take 8 (drop 16 bs))\<rparr>"

definition SerializeFrameHeader :: "FrameHeader \<Rightarrow> bytes" where
  "SerializeFrameHeader header =
     (let netHeader = \<lparr>
        fh_Magic = HostToNetwork16 (fh_Magic header),
        fh_MajorVersion = fh_MajorVersion header,
        fh_MinorVersion = fh_MinorVersion header,
        fh_MessageType = HostToNetwork16 (fh_MessageType header),
        fh_Reserved = HostToNetwork16 (fh_Reserved header),
        fh_MessageID = HostToNetwork32 (fh_MessageID header),
        fh_PayloadLength = HostToNetwork32 (fh_PayloadLength header),
        fh_SequenceNumber = HostToNetwork64 (fh_SequenceNumber header)\<rparr>
      in frame_header_image netHeader)"

definition IsValidMessageType :: "u16 \<Rightarrow> bool" where
  "IsValidMessageType op \<longleftrightarrow> op \<in> set (map opcode
     [MT_DISCOVER, MT_DISCOVERY_RESPONSE, MT_PAIR_REQUEST, MT_PAIR_RESPONSE, MT_PAIR_CONFIRM,
      MT_PAIR_COMPLETE, MT_AUTH_REQUEST, MT_AUTH_CHALLENGE, MT_AUTH_RESPONSE, MT_AUTH_SUCCESS,
      MT_AUTH_FAILURE, MT_LOCK_REQUEST, MT_LOCK_RESPONSE, MT_STATUS_REQUEST, MT_STATUS_RESPONSE,
      MT_UNPAIR_REQUEST, MT_UNPAIR_RESPONSE, MT_PING, MT_PONG, MT_PROTO_ERROR])"

definition DeserializeFrameHeader :: "bytes option \<Rightarrow> FrameHeader option" where
  "DeserializeFrameHeader buf = (case buf of None \<Rightarrow> None | Some bs \<Rightarrow>
     if length bs < FRAME_HEADER_SIZE then None
     else
       let netHeader = frame_header_of_image bs;
           h = \<lparr>
             fh_Magic = NetworkToHost16 (fh_Magic netHeader),
             fh_MajorVersion = fh_MajorVersion netHeader,
             fh_MinorVersion = fh_MinorVersion netHeader,
             fh_MessageType = NetworkToHost16 (fh_MessageType netHeader),
             fh_Reserved = NetworkToHost16 (fh_Reserved netHeader),
             fh_MessageID = NetworkToHost32 (fh_MessageID netHeader),
             fh_PayloadLength = NetworkToHost32 (fh_PayloadLength netHeader),
             fh_SequenceNumber = NetworkToHost64 (fh_SequenceNumber netHeader)\<rparr>
       in if fh_Magic h \<noteq> PROTOCOL_MAGIC \<or> fh_MajorVersion h \<noteq> PROTOCOL_MAJOR_VERSION \<or>
             fh_PayloadLength h > MAX_PAYLOAD_SIZE \<or> \<not> IsValidMessageType (fh_MessageType h)
          then None
          else Some h)"

section \<open>The canonical signed message\<close>

record SignedMessage =
  sm_ProtocolVersion :: u16
  sm_ServerIdentity :: bytes
  sm_DeviceIdentity :: bytes
  sm_Operation :: u16
  sm_RequestID :: u32
  sm_SessionID :: u64
  sm_Nonce :: bytes
  sm_Timestamp :: u64

text \<open>The C arrays \<^verbatim>\<open>uint8_t[16]\<close> and \<^verbatim>\<open>uint8_t[32]\<close> have their sizes by type; a list gets its by this invariant.\<close>

definition signed_message_wf :: "SignedMessage \<Rightarrow> bool" where
  "signed_message_wf m \<longleftrightarrow> length (sm_ServerIdentity m) = 16 \<and> length (sm_DeviceIdentity m) = 16 \<and>
     length (sm_Nonce m) = 32"

definition SignedMessage_init :: SignedMessage where
  "SignedMessage_init = \<lparr>
     sm_ProtocolVersion = 0x0100,
     sm_ServerIdentity = replicate 16 0,
     sm_DeviceIdentity = replicate 16 0,
     sm_Operation = 0,
     sm_RequestID = 0,
     sm_SessionID = 0,
     sm_Nonce = replicate 32 0,
     sm_Timestamp = 0\<rparr>"

definition signed_message_image :: "SignedMessage \<Rightarrow> bytes" where
  "signed_message_image m =
     to_le 2 (sm_ProtocolVersion m) @ sm_ServerIdentity m @ sm_DeviceIdentity m @
     to_le 2 (sm_Operation m) @ to_le 4 (sm_RequestID m) @ to_le 8 (sm_SessionID m) @
     sm_Nonce m @ to_le 8 (sm_Timestamp m)"

definition signed_message_of_image :: "bytes \<Rightarrow> SignedMessage" where
  "signed_message_of_image bs = \<lparr>
     sm_ProtocolVersion = from_le (take 2 bs),
     sm_ServerIdentity = take 16 (drop 2 bs),
     sm_DeviceIdentity = take 16 (drop 18 bs),
     sm_Operation = from_le (take 2 (drop 34 bs)),
     sm_RequestID = from_le (take 4 (drop 36 bs)),
     sm_SessionID = from_le (take 8 (drop 40 bs)),
     sm_Nonce = take 32 (drop 48 bs),
     sm_Timestamp = from_le (take 8 (drop 80 bs))\<rparr>"

definition SerializeSignedMessage :: "SignedMessage \<Rightarrow> bytes" where
  "SerializeSignedMessage msg =
     (let netMsg = \<lparr>
        sm_ProtocolVersion = HostToNetwork16 (sm_ProtocolVersion msg),
        sm_ServerIdentity = sm_ServerIdentity msg,
        sm_DeviceIdentity = sm_DeviceIdentity msg,
        sm_Operation = HostToNetwork16 (sm_Operation msg),
        sm_RequestID = HostToNetwork32 (sm_RequestID msg),
        sm_SessionID = HostToNetwork64 (sm_SessionID msg),
        sm_Nonce = sm_Nonce msg,
        sm_Timestamp = HostToNetwork64 (sm_Timestamp msg)\<rparr>
      in signed_message_image netMsg)"

definition DeserializeSignedMessage :: "bytes option \<Rightarrow> SignedMessage option" where
  "DeserializeSignedMessage buf = (case buf of None \<Rightarrow> None | Some bs \<Rightarrow>
     if length bs \<noteq> CANONICAL_SIGNED_MESSAGE_SIZE then None
     else
       let netMsg = signed_message_of_image bs;
           msg = \<lparr>
             sm_ProtocolVersion = NetworkToHost16 (sm_ProtocolVersion netMsg),
             sm_ServerIdentity = sm_ServerIdentity netMsg,
             sm_DeviceIdentity = sm_DeviceIdentity netMsg,
             sm_Operation = NetworkToHost16 (sm_Operation netMsg),
             sm_RequestID = NetworkToHost32 (sm_RequestID netMsg),
             sm_SessionID = NetworkToHost64 (sm_SessionID netMsg),
             sm_Nonce = sm_Nonce netMsg,
             sm_Timestamp = NetworkToHost64 (sm_Timestamp netMsg)\<rparr>
       in if sm_ProtocolVersion msg \<noteq> 0x0100 \<or> \<not> IsValidMessageType (sm_Operation msg)
          then None
          else Some msg)"

section \<open>The opcodes\<close>

lemma opcode_inj [simp]: "opcode a = opcode b \<longleftrightarrow> a = b"
  by (cases a; cases b) simp_all

lemma opcode_valid [simp]: "IsValidMessageType (opcode t) \<longleftrightarrow> t \<noteq> MT_UNKNOWN"
  by (cases t) (simp_all add: IsValidMessageType_def)

text \<open>The switch of \<^verbatim>\<open>IsValidMessageType\<close> accepts exactly the opcodes of the enumeration other than
  \<^verbatim>\<open>UNKNOWN\<close>, and no two enumerators share an opcode.\<close>

theorem valid_opcodes:
  "(IsValidMessageType w \<longleftrightarrow> (\<exists>t. t \<noteq> MT_UNKNOWN \<and> opcode t = w)) \<and> inj opcode"
proof
  show "IsValidMessageType w \<longleftrightarrow> (\<exists>t. t \<noteq> MT_UNKNOWN \<and> opcode t = w)"
  proof
    assume "IsValidMessageType w"
    then obtain t where "opcode t = w"
      unfolding IsValidMessageType_def set_map by blast
    with \<open>IsValidMessageType w\<close> show "\<exists>t. t \<noteq> MT_UNKNOWN \<and> opcode t = w"
      using opcode_valid by metis
  qed (use opcode_valid in metis)
  show "inj opcode"
    by (rule injI) simp
qed

section \<open>Frame header: the wire image determines and is determined by the struct\<close>

definition frame_header_ok :: "FrameHeader \<Rightarrow> bool" where
  "frame_header_ok h \<longleftrightarrow> fh_Magic h = PROTOCOL_MAGIC \<and> fh_MajorVersion h = PROTOCOL_MAJOR_VERSION \<and>
     fh_PayloadLength h \<le> MAX_PAYLOAD_SIZE \<and> IsValidMessageType (fh_MessageType h)"

lemma HostToNetwork_involutive [simp]:
  "HostToNetwork16 (HostToNetwork16 a) = a" "HostToNetwork32 (HostToNetwork32 b) = b"
  "HostToNetwork64 (HostToNetwork64 c) = c"
  by (simp_all add: byte_order_defs bswap_bswap)

lemmas NetworkToHost_defs = NetworkToHost16_def NetworkToHost32_def NetworkToHost64_def

text \<open>The struct with the byte order of every integer field reversed.\<close>

definition frame_header_swap :: "FrameHeader \<Rightarrow> FrameHeader" where
  "frame_header_swap h = \<lparr>
     fh_Magic = HostToNetwork16 (fh_Magic h), fh_MajorVersion = fh_MajorVersion h,
     fh_MinorVersion = fh_MinorVersion h, fh_MessageType = HostToNetwork16 (fh_MessageType h),
     fh_Reserved = HostToNetwork16 (fh_Reserved h), fh_MessageID = HostToNetwork32 (fh_MessageID h),
     fh_PayloadLength = HostToNetwork32 (fh_PayloadLength h),
     fh_SequenceNumber = HostToNetwork64 (fh_SequenceNumber h)\<rparr>"

lemma frame_header_swap_swap [simp]: "frame_header_swap (frame_header_swap h) = h"
  by (simp add: frame_header_swap_def)

lemma SerializeFrameHeader_alt: "SerializeFrameHeader h = frame_header_image (frame_header_swap h)"
  by (simp add: SerializeFrameHeader_def frame_header_swap_def)

lemma DeserializeFrameHeader_alt:
  "DeserializeFrameHeader (Some bs) =
     (let h = frame_header_swap (frame_header_of_image bs) in
      if FRAME_HEADER_SIZE \<le> length bs \<and> frame_header_ok h then Some h else None)"
  by (auto simp: DeserializeFrameHeader_def frame_header_swap_def frame_header_ok_def NetworkToHost_defs
      Let_def not_less)

lemma take_drop_plus: "take m (drop k bs) @ take n (drop (k + m) bs) = take (m + n) (drop k bs)"
  by (simp add: take_add add.commute)

lemma SerializeFrameHeader_big_endian:
  "SerializeFrameHeader h =
     rev (to_le 2 (fh_Magic h)) @ [fh_MajorVersion h, fh_MinorVersion h] @
     rev (to_le 2 (fh_MessageType h)) @ rev (to_le 2 (fh_Reserved h)) @ rev (to_le 4 (fh_MessageID h)) @
     rev (to_le 4 (fh_PayloadLength h)) @ rev (to_le 8 (fh_SequenceNumber h))"
proof -
  have one: "to_le 1 (b :: u8) = [b]" for b
    by (simp add: to_le_def)
  show ?thesis
    unfolding SerializeFrameHeader_def Let_def frame_header_image_def byte_order_defs
    by (simp add: to_le_bswap one del: One_nat_def)
qed

lemma length_SerializeFrameHeader [simp]: "length (SerializeFrameHeader h) = FRAME_HEADER_SIZE"
  by (simp add: SerializeFrameHeader_big_endian FRAME_HEADER_SIZE_def)

lemma frame_header_of_image_append: "frame_header_of_image (frame_header_image n @ r) = n"
  unfolding frame_header_image_def frame_header_of_image_def
  by (simp add: from_le_to_le)

lemma frame_header_image_of_image:
  assumes "FRAME_HEADER_SIZE \<le> length bs"
  shows "frame_header_image (frame_header_of_image bs) = take FRAME_HEADER_SIZE bs"
proof -
  have len: "24 \<le> length bs" using assms by (simp add: FRAME_HEADER_SIZE_def)
  have "frame_header_image (frame_header_of_image bs) =
      take 2 bs @ take 1 (drop 2 bs) @ take 1 (drop 3 bs) @ take 2 (drop 4 bs) @
      take 2 (drop 6 bs) @ take 4 (drop 8 bs) @ take 4 (drop 12 bs) @ take 8 (drop 16 bs)"
    using len unfolding frame_header_image_def frame_header_of_image_def
    by (simp add: to_le_from_le)
  also have "\<dots> = take 2 bs @ take 22 (drop 2 bs)"
    using take_drop_plus [of 4 12 bs 8] take_drop_plus [of 4 8 bs 12] take_drop_plus [of 2 6 bs 16]
      take_drop_plus [of 2 4 bs 18] take_drop_plus [of 1 3 bs 20] take_drop_plus [of 1 2 bs 21]
    by simp
  also have "\<dots> = take 24 bs"
    using take_add [of 2 22 bs] by simp
  finally show ?thesis by (simp add: FRAME_HEADER_SIZE_def)
qed

lemma Deserialize_Serialize_FrameHeader:
  "DeserializeFrameHeader (Some (SerializeFrameHeader h @ r)) = (if frame_header_ok h then Some h else None)"
  using length_SerializeFrameHeader [of h]
  by (simp add: DeserializeFrameHeader_alt SerializeFrameHeader_alt frame_header_of_image_append)

lemma DeserializeFrameHeader_SomeD:
  assumes "DeserializeFrameHeader (Some bs) = Some h"
  shows "frame_header_ok h \<and> take FRAME_HEADER_SIZE bs = SerializeFrameHeader h"
  using assms
  by (auto simp: DeserializeFrameHeader_alt SerializeFrameHeader_alt frame_header_image_of_image Let_def
      split: if_splits)

interpretation frame_codec: stream_codec
  SerializeFrameHeader "\<lambda>bs. DeserializeFrameHeader (Some bs)" frame_header_ok FRAME_HEADER_SIZE
proof
  show "length (SerializeFrameHeader a) = FRAME_HEADER_SIZE" for a
    by simp
  show "frame_header_ok a \<Longrightarrow> DeserializeFrameHeader (Some (SerializeFrameHeader a)) = Some a" for a
    using Deserialize_Serialize_FrameHeader [of a "[]"] by simp
  show "DeserializeFrameHeader (Some bs) = Some a \<Longrightarrow>
      frame_header_ok a \<and> take FRAME_HEADER_SIZE bs = SerializeFrameHeader a" for bs a
    by (rule DeserializeFrameHeader_SomeD)
  show "FRAME_HEADER_SIZE \<le> length bs \<Longrightarrow>
      DeserializeFrameHeader (Some bs) = DeserializeFrameHeader (Some (take FRAME_HEADER_SIZE bs))" for bs
    by (simp add: DeserializeFrameHeader_def frame_header_of_image_def FRAME_HEADER_SIZE_def drop_take
        Let_def min_def)
qed

text \<open>C15: the frame header parser accepts a buffer, with header \<open>h\<close>, exactly when \<open>h\<close> passes the
  magic, version, length and opcode checks and the buffer starts with the serialized \<open>h\<close>. So parsing
  inverts serializing, nothing else is accepted, and the 24 bytes on the wire determine the header.\<close>

theorem frame_header_roundtrip:
  "DeserializeFrameHeader (Some bs) = Some h \<longleftrightarrow>
     frame_header_ok h \<and> (\<exists>rest. bs = SerializeFrameHeader h @ rest)"
  by (rule frame_codec.dec_Some_iff)

section \<open>Signed message\<close>

definition signed_message_ok :: "SignedMessage \<Rightarrow> bool" where
  "signed_message_ok m \<longleftrightarrow> signed_message_wf m \<and> sm_ProtocolVersion m = 0x0100 \<and>
     IsValidMessageType (sm_Operation m)"

lemma SerializeSignedMessage_big_endian:
  "SerializeSignedMessage m =
     rev (to_le 2 (sm_ProtocolVersion m)) @ sm_ServerIdentity m @ sm_DeviceIdentity m @
     rev (to_le 2 (sm_Operation m)) @ rev (to_le 4 (sm_RequestID m)) @ rev (to_le 8 (sm_SessionID m)) @
     sm_Nonce m @ rev (to_le 8 (sm_Timestamp m))"
  by (simp add: SerializeSignedMessage_def signed_message_image_def byte_order_defs to_le_bswap)

lemma length_SerializeSignedMessage:
  "signed_message_wf m \<Longrightarrow> length (SerializeSignedMessage m) = CANONICAL_SIGNED_MESSAGE_SIZE"
  by (simp add: SerializeSignedMessage_big_endian signed_message_wf_def CANONICAL_SIGNED_MESSAGE_SIZE_def)

definition signed_message_swap :: "SignedMessage \<Rightarrow> SignedMessage" where
  "signed_message_swap m = \<lparr>
     sm_ProtocolVersion = HostToNetwork16 (sm_ProtocolVersion m),
     sm_ServerIdentity = sm_ServerIdentity m, sm_DeviceIdentity = sm_DeviceIdentity m,
     sm_Operation = HostToNetwork16 (sm_Operation m), sm_RequestID = HostToNetwork32 (sm_RequestID m),
     sm_SessionID = HostToNetwork64 (sm_SessionID m), sm_Nonce = sm_Nonce m,
     sm_Timestamp = HostToNetwork64 (sm_Timestamp m)\<rparr>"

lemma signed_message_swap_swap [simp]: "signed_message_swap (signed_message_swap m) = m"
  by (simp add: signed_message_swap_def)

lemma signed_message_wf_swap [simp]: "signed_message_wf (signed_message_swap m) = signed_message_wf m"
  by (simp add: signed_message_swap_def signed_message_wf_def)

lemma SerializeSignedMessage_alt: "SerializeSignedMessage m = signed_message_image (signed_message_swap m)"
  by (simp add: SerializeSignedMessage_def signed_message_swap_def)

lemma signed_message_of_image_image:
  "signed_message_wf n \<Longrightarrow> signed_message_of_image (signed_message_image n) = n"
  unfolding signed_message_image_def signed_message_of_image_def signed_message_wf_def
  by (simp add: from_le_to_le)

lemma signed_message_image_of_image:
  assumes "length bs = 88"
  shows "signed_message_image (signed_message_of_image bs) = bs"
proof -
  have "signed_message_image (signed_message_of_image bs) =
      take 2 bs @ take 16 (drop 2 bs) @ take 16 (drop 18 bs) @ take 2 (drop 34 bs) @
      take 4 (drop 36 bs) @ take 8 (drop 40 bs) @ take 32 (drop 48 bs) @ take 8 (drop 80 bs)"
    using assms unfolding signed_message_image_def signed_message_of_image_def
    by (simp add: to_le_from_le)
  also have "\<dots> = take 2 bs @ take 86 (drop 2 bs)"
    using take_drop_plus [of 32 48 bs 8] take_drop_plus [of 8 40 bs 40] take_drop_plus [of 4 36 bs 48]
      take_drop_plus [of 2 34 bs 52] take_drop_plus [of 16 18 bs 54] take_drop_plus [of 16 2 bs 70]
    by simp
  also have "\<dots> = take 88 bs"
    using take_add [of 2 86 bs] by simp
  finally show ?thesis using assms by simp
qed

lemma signed_message_wf_of_image: "length bs = 88 \<Longrightarrow> signed_message_wf (signed_message_of_image bs)"
  by (simp add: signed_message_wf_def signed_message_of_image_def)

lemma DeserializeSignedMessage_alt:
  "DeserializeSignedMessage (Some bs) =
     (let m = signed_message_swap (signed_message_of_image bs) in
      if length bs = CANONICAL_SIGNED_MESSAGE_SIZE \<and> signed_message_ok m then Some m else None)"
  using signed_message_wf_of_image [of bs] signed_message_wf_swap [of "signed_message_of_image bs"]
  by (auto simp: DeserializeSignedMessage_def signed_message_ok_def NetworkToHost_defs Let_def
      CANONICAL_SIGNED_MESSAGE_SIZE_def signed_message_swap_def)

interpretation signed_codec: codec
  SerializeSignedMessage "\<lambda>bs. DeserializeSignedMessage (Some bs)" signed_message_ok
  CANONICAL_SIGNED_MESSAGE_SIZE
proof
  show "signed_message_ok a \<Longrightarrow> length (SerializeSignedMessage a) = CANONICAL_SIGNED_MESSAGE_SIZE" for a
    by (simp add: signed_message_ok_def length_SerializeSignedMessage)
  show "signed_message_ok a \<Longrightarrow> DeserializeSignedMessage (Some (SerializeSignedMessage a)) = Some a" for a
    using length_SerializeSignedMessage [of a] signed_message_wf_swap [of a]
    by (simp add: DeserializeSignedMessage_alt SerializeSignedMessage_alt signed_message_ok_def
        signed_message_of_image_image)
  show "DeserializeSignedMessage (Some bs) = Some a \<Longrightarrow>
      signed_message_ok a \<and> take CANONICAL_SIGNED_MESSAGE_SIZE bs = SerializeSignedMessage a" for bs a
    by (auto simp: DeserializeSignedMessage_alt SerializeSignedMessage_alt signed_message_image_of_image
        CANONICAL_SIGNED_MESSAGE_SIZE_def Let_def split: if_splits)
qed

lemma DeserializeSignedMessage_iff:
  "DeserializeSignedMessage (Some bs) = Some m \<longleftrightarrow> signed_message_ok m \<and> bs = SerializeSignedMessage m"
proof
  assume dec: "DeserializeSignedMessage (Some bs) = Some m"
  then have "length bs = CANONICAL_SIGNED_MESSAGE_SIZE"
    by (auto simp: DeserializeSignedMessage_def split: if_splits)
  with signed_codec.dec_sound [OF dec] show "signed_message_ok m \<and> bs = SerializeSignedMessage m"
    by simp
next
  assume "signed_message_ok m \<and> bs = SerializeSignedMessage m"
  then show "DeserializeSignedMessage (Some bs) = Some m"
    by (simp add: signed_codec.dec_enc)
qed

text \<open>C16: the canonical signed message has one wire form: the parser accepts 88 bytes, with message
  \<open>m\<close>, exactly when \<open>m\<close> is well-formed, has version 0x0100 and a known operation, and the bytes are
  the serialization of \<open>m\<close>. The signature is therefore over bytes that determine every field.\<close>

theorem signed_message_roundtrip:
  "DeserializeSignedMessage (Some bs) = Some m \<longleftrightarrow> signed_message_ok m \<and> bs = SerializeSignedMessage m"
  by (rule DeserializeSignedMessage_iff)

text \<open>The integers of both wire forms are in network byte order, the byte arrays verbatim, and the
  forms have their documented sizes: 24 bytes for every frame header and 88 for a signed message.\<close>

theorem wire_layout_big_endian:
  "SerializeFrameHeader h =
     rev (to_le 2 (fh_Magic h)) @ [fh_MajorVersion h, fh_MinorVersion h] @
     rev (to_le 2 (fh_MessageType h)) @ rev (to_le 2 (fh_Reserved h)) @ rev (to_le 4 (fh_MessageID h)) @
     rev (to_le 4 (fh_PayloadLength h)) @ rev (to_le 8 (fh_SequenceNumber h)) \<and>
   length (SerializeFrameHeader h) = FRAME_HEADER_SIZE \<and>
   SerializeSignedMessage m =
     rev (to_le 2 (sm_ProtocolVersion m)) @ sm_ServerIdentity m @ sm_DeviceIdentity m @
     rev (to_le 2 (sm_Operation m)) @ rev (to_le 4 (sm_RequestID m)) @ rev (to_le 8 (sm_SessionID m)) @
     sm_Nonce m @ rev (to_le 8 (sm_Timestamp m))"
  by (intro conjI SerializeFrameHeader_big_endian length_SerializeFrameHeader
      SerializeSignedMessage_big_endian)

end
