(* ===== verification/DeviceIdentity.thy ===== *)
theory DeviceIdentity
  imports Prelude
begin

text \<open>
  \<^verbatim>\<open>windows/pairing/DeviceIdentity.h/.cpp\<close>: the 16-byte device identifier, its 36-character hyphenated
  form, its parser with the partial writes the parser leaves in its output argument on failure, and
  the generator. The bytes of \<^verbatim>\<open>RtlGenRandom\<close> are an argument.
\<close>

type_synonym DeviceId = bytes

section \<open>Operations\<close>

definition DeviceIdToString :: "DeviceId \<Rightarrow> string" where
  "DeviceIdToString did =
     print_02x (did ! 0) @ print_02x (did ! 1) @ print_02x (did ! 2) @ print_02x (did ! 3) @ ''-'' @
     print_02x (did ! 4) @ print_02x (did ! 5) @ ''-'' @
     print_02x (did ! 6) @ print_02x (did ! 7) @ ''-'' @
     print_02x (did ! 8) @ print_02x (did ! 9) @ ''-'' @
     print_02x (did ! 10) @ print_02x (did ! 11) @ print_02x (did ! 12) @ print_02x (did ! 13) @
     print_02x (did ! 14) @ print_02x (did ! 15)"

text \<open>The \<^verbatim>\<open>sscanf\<close> loop: the bytes parsed before a failure stay in the output argument.\<close>

function parse_hex_bytes :: "nat \<Rightarrow> string \<Rightarrow> DeviceId \<Rightarrow> bool \<times> DeviceId" where
  "parse_hex_bytes i hex outId =
     (if i < 16 then
        (case sscanf2x (drop (2 * i) hex) of
           None \<Rightarrow> (False, outId)
         | Some byte \<Rightarrow> parse_hex_bytes (Suc i) hex (outId[i := ucast byte]))
      else (True, outId))"
  by pat_completeness auto
termination by (relation "measure (\<lambda>(i, _, _). 16 - i)") auto

declare parse_hex_bytes.simps [simp del]

definition DeviceIdFromString :: "string \<Rightarrow> DeviceId \<Rightarrow> bool \<times> DeviceId" where
  "DeviceIdFromString str outId =
     (if length str \<noteq> 36 then (False, outId)
      else if str ! 8 \<noteq> CHR ''-'' \<or> str ! 13 \<noteq> CHR ''-'' \<or> str ! 18 \<noteq> CHR ''-'' \<or> str ! 23 \<noteq> CHR ''-''
      then (False, outId)
      else
        let hex = filter (\<lambda>c. c \<noteq> CHR ''-'') str in
        if length hex \<noteq> 32 then (False, outId)
        else parse_hex_bytes 0 hex outId)"

text \<open>\<open>rng\<close> is the buffer after \<^verbatim>\<open>RtlGenRandom\<close>, \<open>None\<close> when the library or the function is missing.\<close>

definition GenerateDeviceId :: "bytes option \<Rightarrow> DeviceId" where
  "GenerateDeviceId rng =
     (let did = (case rng of None \<Rightarrow> replicate 16 0 | Some bs \<Rightarrow> bs);
          did = did[6 := (did ! 6 AND 0x0F) OR 0x40];
          did = did[8 := (did ! 8 AND 0x3F) OR 0x80]
      in did)"

definition DeviceIdEqual :: "DeviceId \<Rightarrow> DeviceId \<Rightarrow> bool" where
  "DeviceIdEqual a b \<longleftrightarrow> a = b"

definition DeviceIdIsEmpty :: "DeviceId \<Rightarrow> bool" where
  "DeviceIdIsEmpty did \<longleftrightarrow> list_all (\<lambda>b. b = 0) did"

section \<open>The parser\<close>

lemma parse_hex_bytes_pairs:
  assumes "length bs = 16"
    and digits: "\<And>i. i < 16 \<Longrightarrow> sscanf2x (drop (2 * i) hex) = Some (ucast (bs ! i))"
  shows "length out = 16 \<Longrightarrow> i \<le> 16 \<Longrightarrow> take i out = take i bs \<Longrightarrow> parse_hex_bytes i hex out = (True, bs)"
proof (induction "16 - i" arbitrary: i out)
  case 0
  with assms(1) show ?case
    by (simp add: parse_hex_bytes.simps)
next
  case (Suc n)
  then have i: "i < 16" by simp
  have "ucast (ucast (bs ! i) :: u32) = bs ! i"
    by (rule bit_word_eqI) (simp add: bit_ucast_iff)
  moreover have "take (Suc i) (out[i := bs ! i]) = take (Suc i) bs"
    using Suc.prems i assms(1) by (simp add: take_Suc_conv_app_nth)
  ultimately have "parse_hex_bytes (Suc i) hex (out[i := ucast (ucast (bs ! i) :: u32)]) = (True, bs)"
    using Suc i by simp
  with i digits [OF i] show ?case
    by (simp add: parse_hex_bytes.simps [of i])
qed

text \<open>What a well-formed identifier is: hexadecimal digits, and dashes at positions 8, 13, 18 and 23.\<close>

definition uuid_text :: "string \<Rightarrow> bool" where
  "uuid_text s \<longleftrightarrow> length s = 36 \<and>
     (\<forall>i<36. if i \<in> {8, 13, 18, 23} then s ! i = CHR ''-'' else hexval (s ! i) \<noteq> None)"

definition lower :: "char \<Rightarrow> char" where
  "lower c = (let n = (of_char c :: nat) in if 65 \<le> n \<and> n \<le> 90 then char_of (n + 32) else c)"

lemma hexval_facts:
  assumes "hexval c = Some v"
  shows "v < 16" "c \<noteq> CHR ''-''" "c \<noteq> CHR ''+''" "c \<noteq> CHR ''x''" "c \<noteq> CHR ''X''" "\<not> is_space c"
    "hex_digit v = lower c"
proof -
  show "v < 16" "\<not> is_space c"
    using assms by (auto simp: hexval_def is_space_def Let_def split: if_splits)
  show "c \<noteq> CHR ''-''" "c \<noteq> CHR ''+''" "c \<noteq> CHR ''x''" "c \<noteq> CHR ''X''"
    using assms by (auto simp: hexval_def Let_def)
  show "hex_digit v = lower c"
    using assms by (auto simp: hexval_def hex_digit_def lower_def Let_def split: if_splits)
qed

lemma sscanf2x_hex_pair:
  assumes "hexval c = Some v" "hexval d = Some w"
  shows "sscanf2x (c # d # s) = Some (ucast (of_nat (16 * v + w) :: u8))"
    and "print_02x (of_nat (16 * v + w)) = [lower c, lower d]"
proof -
  note c = hexval_facts [OF assms(1)] and d = hexval_facts [OF assms(2)]
  have b: "16 * v + w < 256" using c(1) d(1) by simp
  then have u: "unat (of_nat (16 * v + w) :: u8) = 16 * v + w"
    by (simp add: unat_of_nat del: of_nat_add of_nat_mult)
  then have "(ucast (of_nat (16 * v + w) :: u8) :: u32) = of_nat (16 * v + w)"
    by (metis of_nat_unat)
  with c d assms show "sscanf2x (c # d # s) = Some (ucast (of_nat (16 * v + w) :: u8))"
    by (simp add: sscanf2x_def)
  show "print_02x (of_nat (16 * v + w)) = [lower c, lower d]"
    unfolding print_02x_def u using c d by simp
qed

lemma upt_16: "[0..<16] = [0, 1, 2, 3, 4, 5, 6, 7, 8, 9, 10, 11, 12, 13, 14, 15]"
  by code_simp

lemma upt_36: "[0..<36] = [0, 1, 2, 3, 4, 5, 6, 7, 8, 9, 10, 11, 12, 13, 14, 15, 16, 17, 18, 19, 20, 21, 22, 23, 24, 25, 26, 27, 28, 29, 30, 31, 32, 33, 34, 35]"
  by code_simp

lemma less_16_cases:
  assumes "i < (16::nat)"
    and "P 0" "P 1" "P 2" "P 3" "P 4" "P 5" "P 6" "P 7" "P 8" "P 9" "P 10" "P 11" "P 12" "P 13" "P 14" "P 15"
  shows "P i"
proof -
  have "i \<in> set [0..<16]" using assms(1) by simp
  then have "i \<in> {0, 1, 2, 3, 4, 5, 6, 7, 8, 9, 10, 11, 12, 13, 14, 15}"
    by (simp only: upt_16 list.set)
  with assms(2-) show ?thesis by blast
qed

text \<open>The positions of the two digits of byte \<open>i\<close>: past one, two, three or four dashes.\<close>

definition digit_pos :: "nat \<Rightarrow> nat" where
  "digit_pos i = 2 * i + (if i < 4 then 0 else if i < 6 then 1 else if i < 8 then 2 else if i < 10 then 3 else 4)"

lemma list_36: "length s = 36 \<Longrightarrow> s = map (\<lambda>i. s ! i) [0..<36]"
  using map_nth [of s] by simp

lemma filter_uuid_text:
  assumes "uuid_text s"
  shows "filter (\<lambda>c. c \<noteq> CHR ''-'') s = concat (map (\<lambda>i. [s ! digit_pos i, s ! Suc (digit_pos i)]) [0..<16])"
proof -
  have len: "length s = 36" using assms by (simp add: uuid_text_def)
  have d: "\<not> (s ! i \<noteq> CHR ''-'') \<longleftrightarrow> i \<in> {8, 13, 18, 23}" if "i < 36" for i
    using assms that hexval_facts(2) by (auto simp: uuid_text_def split: if_splits)
  have "filter (\<lambda>c. c \<noteq> CHR ''-'') s = map (\<lambda>i. s ! i) (filter (\<lambda>i. s ! i \<noteq> CHR ''-'') [0..<36])"
    by (subst list_36 [OF len]) (simp add: filter_map comp_def)
  also have "filter (\<lambda>i. s ! i \<noteq> CHR ''-'') [0..<36] = filter (\<lambda>i. i \<notin> {8, 13, 18, 23}) [0..<36]"
    by (rule filter_cong) (use d in auto)
  finally show ?thesis
    by (simp add: upt_16 upt_36 digit_pos_def)
qed

lemma DeviceIdFromString_uuid_text:
  assumes s: "uuid_text s" and "length out = 16"
  shows "\<exists>did. length did = 16 \<and> DeviceIdFromString s out = (True, did) \<and> DeviceIdToString did = map lower s"
proof -
  define v where "v i = the (hexval (s ! i))" for i
  define did where "did = map (\<lambda>i. of_nat (16 * v (digit_pos i) + v (Suc (digit_pos i))) :: u8) [0..<16]"
  define hex where "hex = filter (\<lambda>c. c \<noteq> CHR ''-'') s"
  have len: "length s = 36" and dash: "s ! 8 = CHR ''-''" "s ! 13 = CHR ''-''" "s ! 18 = CHR ''-''" "s ! 23 = CHR ''-''"
    using s by (auto simp: uuid_text_def)
  have v: "hexval (s ! digit_pos i) = Some (v (digit_pos i))"
    "hexval (s ! Suc (digit_pos i)) = Some (v (Suc (digit_pos i)))" if "i < 16" for i
    using s that by (auto simp: v_def uuid_text_def digit_pos_def split: if_splits)
  have hex: "hex = concat (map (\<lambda>i. [s ! digit_pos i, s ! Suc (digit_pos i)]) [0..<16])"
    unfolding hex_def by (rule filter_uuid_text [OF s])
  have drop_hex: "\<exists>r. drop (2 * i) hex = s ! digit_pos i # s ! Suc (digit_pos i) # r" if "i < 16" for i
    using that unfolding hex by (rule less_16_cases) (simp_all add: upt_16)
  have "sscanf2x (drop (2 * i) hex) = Some (ucast (did ! i))" if "i < 16" for i
    using drop_hex [OF that] sscanf2x_hex_pair(1) [OF v [OF that]] that by (auto simp: did_def)
  then have "parse_hex_bytes 0 hex out = (True, did)"
    by (intro parse_hex_bytes_pairs) (simp_all add: assms did_def)
  moreover have "length hex = 32"
    unfolding hex by (simp add: upt_16)
  ultimately have "DeviceIdFromString s out = (True, did)"
    unfolding DeviceIdFromString_def hex_def [symmetric] by (simp add: len dash)
  moreover have pr: "print_02x (did ! i) = [lower (s ! digit_pos i), lower (s ! Suc (digit_pos i))]" if "i < 16" for i
    using sscanf2x_hex_pair(2) [OF v [OF that]] that by (simp add: did_def)
  have "lower CHR ''-'' = CHR ''-''" by (simp add: lower_def)
  then have "DeviceIdToString did = map (\<lambda>i. lower (s ! i)) [0..<36]"
    by (simp add: DeviceIdToString_def pr digit_pos_def upt_36 dash)
  then have "DeviceIdToString did = map lower s"
    by (subst list_36 [OF len]) (simp add: comp_def)
  ultimately show ?thesis
    by (intro exI [of _ did]) (simp add: did_def)
qed

lemma byte_digits: "unat (b :: u8) div 16 < 16" "unat b mod 16 < 16"
  by (simp_all add: less_mult_imp_div_less)

lemma lower_hex_digit: "n < 16 \<Longrightarrow> lower (hex_digit n) = hex_digit n"
  using hexval_facts(7) [OF hexval_hex_digit] by simp

lemma length_DeviceIdToString [simp]: "length (DeviceIdToString did) = 36"
  by (simp add: DeviceIdToString_def)

lemma uuid_text_DeviceIdToString: "uuid_text (DeviceIdToString did)"
proof -
  have "list_all (\<lambda>i. if i \<in> {8, 13, 18, 23} then DeviceIdToString did ! i = CHR ''-''
      else hexval (DeviceIdToString did ! i) \<noteq> None) [0..<36]"
    by (simp add: upt_36 DeviceIdToString_def print_02x_def byte_digits)
  then show ?thesis
    by (simp add: uuid_text_def list_all_iff)
qed

lemma lower_DeviceIdToString: "map lower (DeviceIdToString did) = DeviceIdToString did"
proof -
  have "lower CHR ''-'' = CHR ''-''" by (simp add: lower_def)
  then show ?thesis
    by (simp add: DeviceIdToString_def print_02x_def byte_digits lower_hex_digit)
qed

lemma print_02x_inject: "print_02x a = print_02x b \<longleftrightarrow> a = b"
proof
  assume "print_02x a = print_02x b"
  then have "sscanf2x (print_02x a) = sscanf2x (print_02x b)" by simp
  then have "(ucast a :: u32) = ucast b"
    using sscanf2x_print_02x [of a "[]"] sscanf2x_print_02x [of b "[]"] by simp
  then have "(ucast (ucast a :: u32) :: u8) = ucast (ucast b :: u32)" by simp
  moreover have "(ucast (ucast x :: u32) :: u8) = x" for x :: u8
    by (rule bit_word_eqI) (simp add: bit_ucast_iff)
  ultimately show "a = b" by metis
qed simp

lemma DeviceIdToString_inject:
  assumes "length a = 16" "length b = 16" "DeviceIdToString a = DeviceIdToString b"
  shows "a = b"
proof (rule nth_equalityI)
  fix i
  assume "i < length a"
  then have "i < 16" using assms by simp
  moreover from assms(3) have "a ! 0 = b ! 0" "a ! 1 = b ! 1" "a ! 2 = b ! 2" "a ! 3 = b ! 3" "a ! 4 = b ! 4"
      "a ! 5 = b ! 5" "a ! 6 = b ! 6" "a ! 7 = b ! 7" "a ! 8 = b ! 8" "a ! 9 = b ! 9" "a ! 10 = b ! 10"
      "a ! 11 = b ! 11" "a ! 12 = b ! 12" "a ! 13 = b ! 13" "a ! 14 = b ! 14" "a ! 15 = b ! 15"
    by (simp_all add: DeviceIdToString_def append_eq_append_conv print_02x_inject)
  ultimately show "a ! i = b ! i"
    by (rule less_16_cases)
qed (use assms in simp)

lemma DeviceIdFromString_ToString [simp]:
  assumes "length did = 16" "length out = 16"
  shows "DeviceIdFromString (DeviceIdToString did) out = (True, did)"
  using DeviceIdFromString_uuid_text [OF uuid_text_DeviceIdToString [of did] assms(2)]
  by (auto simp: lower_DeviceIdToString intro: DeviceIdToString_inject [OF _ assms(1)])

lemma length_parse_hex_bytes: "length (snd (parse_hex_bytes i hex out)) = length out"
  by (induction i hex out rule: parse_hex_bytes.induct)
    (subst parse_hex_bytes.simps, simp split: option.splits)

lemma length_DeviceIdFromString [simp]: "length (snd (DeviceIdFromString s out)) = length out"
  by (simp add: DeviceIdFromString_def length_parse_hex_bytes Let_def)

text \<open>Parsing inverts printing, and printing is a canonical form: every well-formed identifier text
  (in either letter case) is accepted, and printing what was parsed gives its lower-case form.\<close>

theorem device_id_roundtrip:
  assumes "length out = 16" "length did = 16" "uuid_text s"
  shows "DeviceIdFromString (DeviceIdToString did) out = (True, did) \<and>
    (\<exists>did'. length did' = 16 \<and> DeviceIdFromString s out = (True, did') \<and>
       DeviceIdToString did' = map lower s)"
  using DeviceIdFromString_uuid_text [OF assms(3,1)] assms(1,2) by simp

theorem device_id_roundtrip_witness:
  "DeviceIdFromString (DeviceIdToString [1, 2, 3, 4, 5, 6, 7, 8, 9, 10, 11, 12, 13, 14, 15, 255]) (replicate 16 0) =
     (True, [1, 2, 3, 4, 5, 6, 7, 8, 9, 10, 11, 12, 13, 14, 15, 255]) \<and>
   (\<exists>did'. length did' = 16 \<and>
      DeviceIdFromString ''0123ABCD-0000-ffff-9999-00aaBBccDDee'' (replicate 16 0) = (True, did') \<and>
      DeviceIdToString did' = ''0123abcd-0000-ffff-9999-00aabbccddee'')"
proof -
  have "uuid_text ''0123ABCD-0000-ffff-9999-00aaBBccDDee''"
    by code_simp
  moreover have "map lower ''0123ABCD-0000-ffff-9999-00aaBBccDDee'' = ''0123abcd-0000-ffff-9999-00aabbccddee''"
    by code_simp
  ultimately show ?thesis
    using device_id_roundtrip [of "replicate 16 0" "[1, 2, 3, 4, 5, 6, 7, 8, 9, 10, 11, 12, 13, 14, 15, 255]"
        "''0123ABCD-0000-ffff-9999-00aaBBccDDee''"]
    by simp
qed

text \<open>On malformed text the parser can still answer true, because \<^verbatim>\<open>sscanf\<close> takes a sign or a single
  digit as a number, and it writes the bytes it read before it fails into the output argument.\<close>

theorem device_id_malformed:
  "\<not> uuid_text ''1g2g3g4g-5g6g-7g8g-9gag-bgcgdgegfg0g'' \<and>
   DeviceIdFromString ''1g2g3g4g-5g6g-7g8g-9gag-bgcgdgegfg0g'' (replicate 16 0) =
     (True, [1, 2, 3, 4, 5, 6, 7, 8, 9, 10, 11, 12, 13, 14, 15, 0]) \<and>
   DeviceIdFromString ''01020304-zz00-0000-0000-000000000000'' (replicate 16 0) =
     (False, [1, 2, 3, 4, 0, 0, 0, 0, 0, 0, 0, 0, 0, 0, 0, 0])"
  by code_simp

section \<open>The generator\<close>

text \<open>Whatever the random source delivers, and also when it is missing, a generated identifier has
  version 4 and variant 1; so it is never the all-zero identifier, which the header declares as the
  result on failure.\<close>

theorem generated_id_version_4:
  assumes "\<forall>bs. rng = Some bs \<longrightarrow> length bs = 16"
  shows "length (GenerateDeviceId rng) = 16 \<and>
    drop_bit 4 (GenerateDeviceId rng ! 6) = 4 \<and> drop_bit 6 (GenerateDeviceId rng ! 8) = 2 \<and>
    \<not> DeviceIdIsEmpty (GenerateDeviceId rng)"
proof -
  obtain b where b: "length b = 16"
      "GenerateDeviceId rng = b[6 := (b ! 6 AND 0x0F) OR 0x40, 8 := (b ! 8 AND 0x3F) OR 0x80]"
    using assms by (cases rng) (auto simp: GenerateDeviceId_def Let_def intro: that [of "replicate 16 0"])
  then have "length (GenerateDeviceId rng) = 16" and six: "drop_bit 4 (GenerateDeviceId rng ! 6) = 4"
    and "drop_bit 6 (GenerateDeviceId rng ! 8) = 2"
    by (simp_all add: drop_bit_and drop_bit_or)
  moreover have "\<not> DeviceIdIsEmpty (GenerateDeviceId rng)"
  proof
    assume "DeviceIdIsEmpty (GenerateDeviceId rng)"
    then have "GenerateDeviceId rng ! 6 = 0"
      using calculation(1) by (simp add: DeviceIdIsEmpty_def list_all_length)
    with six show False by simp
  qed
  ultimately show ?thesis by blast
qed

theorem generated_id_version_4_witness:
  "length (GenerateDeviceId None) = 16 \<and> drop_bit 4 (GenerateDeviceId None ! 6) = 4 \<and>
     drop_bit 6 (GenerateDeviceId None ! 8) = 2 \<and> \<not> DeviceIdIsEmpty (GenerateDeviceId None)"
  using generated_id_version_4 [of None] by simp

end
