(* ===== verification/SasPin.thy ===== *)
theory SasPin
  imports DeviceIdentity
begin

text \<open>
  \<^verbatim>\<open>windows/pairing/SasPin.h/.cpp\<close>: the six-digit pairing PIN, its generation by rejection sampling, the
  expiry and the constant-time comparison, and the conversion of a \<^verbatim>\<open>FILETIME\<close> to Unix milliseconds.
  The draws of \<^verbatim>\<open>RtlGenRandom\<close> and the readings of the system clock are arguments.
\<close>

section \<open>Data and operations\<close>

definition SAS_PIN_LENGTH :: nat where "SAS_PIN_LENGTH = 6"
definition SAS_MAX_ATTEMPTS :: int where "SAS_MAX_ATTEMPTS = 3"
definition SAS_EXPIRY_SECONDS :: nat where "SAS_EXPIRY_SECONDS = 60"

lemmas sas_consts [model_defs] = SAS_PIN_LENGTH_def SAS_MAX_ATTEMPTS_def SAS_EXPIRY_SECONDS_def

record FILETIME =
  dwLowDateTime :: u32
  dwHighDateTime :: u32

text \<open>The conversions the sources write out wherever they handle a \<^verbatim>\<open>FILETIME\<close>.\<close>

definition toU64 :: "FILETIME \<Rightarrow> u64" where
  "toU64 ft = push_bit 32 (ucast (dwHighDateTime ft)) OR ucast (dwLowDateTime ft)"

definition ofU64 :: "u64 \<Rightarrow> FILETIME" where
  "ofU64 u = \<lparr>dwLowDateTime = ucast (u AND 0xFFFFFFFF), dwHighDateTime = ucast (drop_bit 32 u)\<rparr>"

text \<open>
  \<open>draw i\<close> is what the \<open>i\<close>-th attempt to call \<^verbatim>\<open>RtlGenRandom\<close> leaves in the 4-byte buffer, \<open>None\<close> when
  the library or the function is missing.
\<close>

definition sas_range :: u32 where "sas_range = 1000000"
definition sas_limit :: u32 where "sas_limit = (0xFFFFFFFF div sas_range) * sas_range"

function sas_reject :: "(nat \<Rightarrow> u32 option) \<Rightarrow> u32 \<Rightarrow> nat \<Rightarrow> u32" where
  "sas_reject draw randomVal iterations =
     (if randomVal \<ge> sas_limit \<and> iterations < 32
      then sas_reject draw (case draw (Suc iterations) of None \<Rightarrow> randomVal | Some v \<Rightarrow> v) (Suc iterations)
      else randomVal)"
  by pat_completeness auto
termination by (relation "measure (\<lambda>(_, _, i). 32 - i)") auto

declare sas_reject.simps [simp del]

definition GenerateSasPin :: "(nat \<Rightarrow> u32 option) \<Rightarrow> string" where
  "GenerateSasPin draw =
     (case draw 0 of None \<Rightarrow> []
      | Some randomVal \<Rightarrow> print_06u (unat (sas_reject draw randomVal 0 mod sas_range)))"

definition IsValidPinFormat :: "string \<Rightarrow> bool" where
  "IsValidPinFormat pin \<longleftrightarrow> length pin = SAS_PIN_LENGTH \<and>
     list_all (\<lambda>c. 48 \<le> (of_char c :: nat) \<and> (of_char c :: nat) \<le> 57) pin"

definition SasPinExpired :: "FILETIME \<Rightarrow> FILETIME \<Rightarrow> bool" where
  "SasPinExpired now generatedAt \<longleftrightarrow>
     (let genU64 = toU64 generatedAt; nowU64 = toU64 now in
      if nowU64 < genU64 then True
      else nowU64 - genU64 > of_nat SAS_EXPIRY_SECONDS * 10000000)"

definition pin_diff :: "string \<Rightarrow> string \<Rightarrow> u8" where
  "pin_diff candidatePin storedPin =
     fold (\<lambda>i diff. diff OR (byte_of_char (candidatePin ! i) XOR byte_of_char (storedPin ! i)))
       [0..<SAS_PIN_LENGTH] 0"

definition ValidateSasPin :: "FILETIME \<Rightarrow> string \<Rightarrow> string \<Rightarrow> FILETIME \<Rightarrow> int \<Rightarrow> bool" where
  "ValidateSasPin now candidatePin storedPin generatedAt attemptsSoFar \<longleftrightarrow>
     (if attemptsSoFar \<ge> SAS_MAX_ATTEMPTS then False
      else if SasPinExpired now generatedAt then False
      else if \<not> IsValidPinFormat candidatePin then False
      else if length storedPin \<noteq> SAS_PIN_LENGTH then False
      else pin_diff candidatePin storedPin = 0)"

definition FileTimeToUnixMs :: "FILETIME \<Rightarrow> int" where
  "FileTimeToUnixMs ft =
     (let u = toU64 ft; epochOffset = 116444736000000000 in
      if u < epochOffset then 0 else sint ((u - epochOffset) div 10000))"

section \<open>FILETIME\<close>

lemma mask_32: "(0xFFFFFFFF :: u64) = mask 32"
  by (simp add: mask_eq_exp_minus_1)

lemma toU64_ofU64 [simp]: "toU64 (ofU64 u) = u"
proof (rule bit_word_eqI)
  fix n
  assume "n < LENGTH(64)"
  then show "bit (toU64 (ofU64 u)) n = bit u n"
    by (cases "n < 32") (auto simp: toU64_def ofU64_def mask_32 bit_or_iff bit_push_bit_iff bit_ucast_iff
        bit_and_iff bit_mask_iff bit_drop_bit_eq)
qed

lemma ofU64_toU64 [simp]: "ofU64 (toU64 ft) = ft"
proof -
  have "ucast (toU64 ft AND 0xFFFFFFFF) = dwLowDateTime ft"
    by (rule bit_word_eqI) (simp add: toU64_def mask_32 bit_or_iff bit_push_bit_iff bit_ucast_iff bit_and_iff
        bit_mask_iff)
  moreover have "ucast (drop_bit 32 (toU64 ft)) = dwHighDateTime ft"
    by (rule bit_word_eqI) (auto simp: toU64_def bit_or_iff bit_push_bit_iff bit_ucast_iff bit_drop_bit_eq
        dest: bit_imp_le_length)
  ultimately show ?thesis
    by (simp add: ofU64_def)
qed

text \<open>C37: the Unix time of a \<^verbatim>\<open>FILETIME\<close> is the number of whole milliseconds since 1970, 0 before it; the
  conversion to \<^verbatim>\<open>int64_t\<close> never overflows.\<close>

theorem unix_ms_exact:
  "FileTimeToUnixMs ft = max 0 ((uint (toU64 ft) - 116444736000000000) div 10000)"
proof (cases "toU64 ft < 116444736000000000")
  case True
  then have "uint (toU64 ft) < 116444736000000000"
    by (simp add: word_less_def)
  then show ?thesis
    using True by (simp add: FileTimeToUnixMs_def)
next
  case False
  define d where "d = toU64 ft - 116444736000000000"
  from False have ge: "116444736000000000 \<le> uint (toU64 ft)"
    by (simp add: word_less_def)
  have d: "uint d = uint (toU64 ft) - 116444736000000000"
    unfolding d_def using False by (simp add: uint_sub_if' ge)
  have q: "uint (d div 10000) = uint d div 10000"
    by (simp add: uint_div)
  moreover have "uint d < 2 ^ 64"
    using uint_lt2p [of d] by simp
  then have "uint d div 10000 < 2 ^ 63" by simp
  moreover have "- (2 ^ 63) \<le> uint d div 10000"
    by (rule order_trans [of _ 0]) (simp_all add: pos_imp_zdiv_nonneg_iff)
  ultimately have "sint (d div 10000) = uint d div 10000"
    by (simp add: sint_uint signed_take_bit_int_eq_self)
  with False d ge show ?thesis
    by (simp add: FileTimeToUnixMs_def d_def)
qed

section \<open>PIN generation\<close>

lemma print_u_length: "n < 10 ^ Suc k \<Longrightarrow> length (print_u n) \<le> Suc k"
proof (induction k arbitrary: n)
  case 0
  then show ?case by (simp add: print_u.simps)
next
  case (Suc k)
  then have "n div 10 < 10 ^ Suc k"
    by (simp add: less_mult_imp_div_less mult.commute)
  with Suc.IH [of "n div 10"] show ?case
    by (subst print_u.simps) simp
qed

definition is_digit :: "char \<Rightarrow> bool" where
  "is_digit c \<longleftrightarrow> 48 \<le> (of_char c :: nat) \<and> (of_char c :: nat) \<le> 57"

lemma print_u_digits: "list_all is_digit (print_u n)"
proof (induction n rule: print_u.induct)
  case (1 n)
  have "is_digit (char_of (48 + m))" if "m < 10" for m :: nat
    using that by (simp add: is_digit_def)
  then have "is_digit (char_of (48 + n mod 10))" "n < 10 \<Longrightarrow> is_digit (char_of (48 + n))"
    by simp_all
  with 1 show ?case
    by (subst print_u.simps) simp
qed

lemma print_06u_format: "n < 1000000 \<Longrightarrow> IsValidPinFormat (print_06u n)"
  using print_u_length [of n 5] print_u_digits [of n]
  by (auto simp: IsValidPinFormat_def print_06u_def Let_def SAS_PIN_LENGTH_def is_digit_def [abs_def]
      list_all_iff)

lemma sas_pin_less: "unat (v mod sas_range) < 1000000"
  by (simp add: unat_mod_distrib sas_range_def)

text \<open>The generator returns the empty string exactly when no random source is available, and otherwise
  a PIN of six decimal digits.\<close>

theorem generated_pin_format:
  "(GenerateSasPin draw = [] \<longleftrightarrow> draw 0 = None) \<and>
   (IsValidPinFormat (GenerateSasPin draw) \<longleftrightarrow> draw 0 \<noteq> None)"
proof (cases "draw 0")
  case None
  then show ?thesis
    by (simp add: GenerateSasPin_def IsValidPinFormat_def SAS_PIN_LENGTH_def)
next
  case (Some v)
  then have "IsValidPinFormat (GenerateSasPin draw)"
    by (simp add: GenerateSasPin_def print_06u_format sas_pin_less)
  with Some show ?thesis
    by (auto simp: IsValidPinFormat_def SAS_PIN_LENGTH_def)
qed

definition digits_value :: "string \<Rightarrow> nat" where
  "digits_value s = foldl (\<lambda>a c. 10 * a + (of_char c - 48)) 0 s"

lemma digits_value_print_u: "digits_value (print_u n) = n"
proof (induction n rule: print_u.induct)
  case (1 n)
  have "of_char (char_of (48 + n mod 10) :: char) - (48::nat) = n mod 10"
    "n < 10 \<Longrightarrow> of_char (char_of (48 + n) :: char) - (48::nat) = n"
    by simp_all
  with 1 show ?case
    by (subst print_u.simps) (simp add: digits_value_def)
qed

lemma digits_value_print_06u: "digits_value (print_06u n) = n"
proof -
  have z: "digits_value (replicate k CHR ''0'' @ s) = digits_value s" for k s
    by (induction k) (simp_all add: digits_value_def)
  show ?thesis
    by (simp add: print_06u_def Let_def z digits_value_print_u)
qed

lemma sas_reject_accept: "v < sas_limit \<Longrightarrow> sas_reject draw v i = v"
  by (subst sas_reject.simps) (auto dest: leD)

lemma sas_reject_first:
  assumes "v < sas_limit" "draw k = Some v" "k \<le> 32"
    and rej: "\<forall>j<k. \<exists>u. draw j = Some u \<and> sas_limit \<le> u"
  shows "i \<le> k \<Longrightarrow> draw i = Some r \<Longrightarrow> sas_reject draw r i = v"
proof (induction "k - i" arbitrary: i r)
  case 0
  with assms(1,2) show ?case by (simp add: sas_reject_accept)
next
  case (Suc d)
  then have i: "i < k" by simp
  have "\<exists>r'. draw (Suc i) = Some r'"
    using i rej assms(2) Suc_lessI [OF i] by blast
  then obtain r' where r': "draw (Suc i) = Some r'" by blast
  have "sas_limit \<le> r"
    using rej i Suc.prems(2) by auto
  moreover have "sas_reject draw r' (Suc i) = v"
    by (rule Suc.hyps(1)) (use Suc.hyps(2) i r' in auto)
  ultimately show ?case
    using i assms(3) r' by (subst sas_reject.simps) simp
qed

lemma sas_limit_unat: "unat sas_limit = 4294 * 1000000"
  by (simp add: sas_limit_def sas_range_def unat_div_distrib unat_word_ariths)

lemma card_sas_preimage:
  assumes "p < 1000000"
  shows "card {v. v < sas_limit \<and> unat (v mod sas_range) = p} = 4294"
proof -
  have "{v. v < sas_limit \<and> unat (v mod sas_range) = p} = (\<lambda>k. of_nat (p + k * 1000000)) ` {..<4294}"
  proof (intro equalityI subsetI)
    fix v
    assume "v \<in> {v. v < sas_limit \<and> unat (v mod sas_range) = p}"
    then have v: "unat v < 4294 * 1000000" "unat v mod 1000000 = p"
      by (simp_all add: word_less_nat_alt sas_limit_unat unat_mod_distrib sas_range_def)
    then have "unat v = p + (unat v div 1000000) * 1000000" "unat v div 1000000 < 4294"
      using mod_div_mult_eq [of "unat v" 1000000] by simp_all
    moreover have "v = of_nat (unat v)" by simp
    ultimately show "v \<in> (\<lambda>k. of_nat (p + k * 1000000)) ` {..<4294}"
      by (intro image_eqI [of _ _ "unat v div 1000000"]) (simp_all only: lessThan_iff)
  next
    fix v
    assume "v \<in> (\<lambda>k. of_nat (p + k * 1000000) :: u32) ` {..<4294}"
    then obtain k where k: "k < 4294" "v = of_nat (p + k * 1000000)" by auto
    then have "unat v = p + k * 1000000"
      using assms by (simp add: unat_of_nat_less del: of_nat_add of_nat_mult)
    with k assms show "v \<in> {v. v < sas_limit \<and> unat (v mod sas_range) = p}"
      by (simp add: word_less_nat_alt sas_limit_unat unat_mod_distrib sas_range_def)
  qed
  moreover have "inj_on (\<lambda>k. of_nat (p + k * 1000000) :: u32) {..<4294}"
  proof (rule inj_onI)
    fix k l
    assume "k \<in> {..<4294}" "l \<in> {..<4294}" "(of_nat (p + k * 1000000) :: u32) = of_nat (p + l * 1000000)"
    moreover from this assms have "p + k * 1000000 < 2 ^ LENGTH(32)" "p + l * 1000000 < 2 ^ LENGTH(32)"
      by simp_all
    ultimately have "p + k * 1000000 = p + l * 1000000"
      by (metis unat_of_nat_less)
    then show "k = l" by simp
  qed
  ultimately show ?thesis
    by (simp add: card_image)
qed

text \<open>C31: the PIN is the first draw below the rejection limit, taken modulo a million (if there is one
  among the 33 draws), and each of the million PINs comes from exactly 4294 accepted draws: uniform
  draws give uniform PINs.\<close>

theorem pin_unbiased:
  assumes "k \<le> 32" "draw k = Some v" "v < sas_limit"
    and "\<forall>j<k. \<exists>u. draw j = Some u \<and> sas_limit \<le> u"
    and "p < 1000000"
  shows "GenerateSasPin draw = print_06u (unat v mod 1000000) \<and>
    card {w. w < sas_limit \<and> GenerateSasPin (\<lambda>_. Some w) = print_06u p} = 4294"
proof
  obtain r where r: "draw 0 = Some r"
    using assms(2,4) by (cases k) auto
  have "sas_reject draw r 0 = v"
    using sas_reject_first [where k = k and i = 0] assms r by simp
  then show "GenerateSasPin draw = print_06u (unat v mod 1000000)"
    by (simp add: GenerateSasPin_def r unat_mod_distrib sas_range_def)
  have "GenerateSasPin (\<lambda>_. Some w) = print_06u p \<longleftrightarrow> unat (w mod sas_range) = p" if "w < sas_limit" for w
  proof -
    have "sas_reject (\<lambda>_. Some w) w 0 = w"
      using that by (rule sas_reject_accept)
    then show ?thesis
      by (simp add: GenerateSasPin_def) (metis digits_value_print_06u)
  qed
  then have "{w. w < sas_limit \<and> GenerateSasPin (\<lambda>_. Some w) = print_06u p} =
      {w. w < sas_limit \<and> unat (w mod sas_range) = p}"
    by blast
  then show "card {w. w < sas_limit \<and> GenerateSasPin (\<lambda>_. Some w) = print_06u p} = 4294"
    using card_sas_preimage [OF assms(5)] by simp
qed

theorem pin_unbiased_witness:
  "GenerateSasPin (\<lambda>i. if i = 0 then Some 0xFFFFFFFF else Some 7000042) = print_06u (7000042 mod 1000000) \<and>
   card {w. w < sas_limit \<and> GenerateSasPin (\<lambda>_. Some w) = print_06u 42} = 4294"
  using pin_unbiased [of 1 "\<lambda>i. if i = 0 then Some 0xFFFFFFFF else Some 7000042" 7000042 42]
  by (simp add: sas_limit_def sas_range_def)

section \<open>PIN validation\<close>

lemma pin_diff_eq: "length a = SAS_PIN_LENGTH \<Longrightarrow> length b = SAS_PIN_LENGTH \<Longrightarrow> pin_diff a b = 0 \<longleftrightarrow> a = b"
proof -
  assume len: "length a = SAS_PIN_LENGTH" "length b = SAS_PIN_LENGTH"
  have "fold (\<lambda>i diff. diff OR (f i XOR g i)) is acc = 0 \<longleftrightarrow> acc = 0 \<and> (\<forall>i\<in>set is. f i = g i)"
    for f g :: "nat \<Rightarrow> u8" and "is" acc
    by (induction "is" arbitrary: acc) (auto simp: or_eq_0_iff)
  then show ?thesis
    using len by (auto simp: pin_diff_def intro: nth_equalityI)
qed

lemma ValidateSasPin_iff:
  "ValidateSasPin now cand stored gen attempts \<longleftrightarrow>
     attempts < SAS_MAX_ATTEMPTS \<and> IsValidPinFormat cand \<and> cand = stored \<and>
     unat (toU64 gen) \<le> unat (toU64 now) \<and> unat (toU64 now) - unat (toU64 gen) \<le> SAS_EXPIRY_SECONDS * 10 ^ 7"
proof -
  have "\<not> SasPinExpired now gen \<longleftrightarrow>
      unat (toU64 gen) \<le> unat (toU64 now) \<and> unat (toU64 now) - unat (toU64 gen) \<le> SAS_EXPIRY_SECONDS * 10 ^ 7"
    by (auto simp: SasPinExpired_def Let_def SAS_EXPIRY_SECONDS_def word_less_nat_alt not_less unat_sub
        word_le_nat_alt)
  then show ?thesis
    using pin_diff_eq [of cand stored]
    by (auto simp: ValidateSasPin_def IsValidPinFormat_def)
qed

text \<open>C30: the constant-time comparison accepts exactly the stored PIN, given in the PIN format, while
  fewer than three attempts were made and the PIN is unexpired. Unexpired means that the clock has not
  gone back before the generation time and at most 60 seconds have passed.\<close>

theorem validate_pin_exact:
  "ValidateSasPin now cand stored gen attempts \<longleftrightarrow>
     attempts < SAS_MAX_ATTEMPTS \<and> IsValidPinFormat cand \<and> cand = stored \<and>
     unat (toU64 gen) \<le> unat (toU64 now) \<and> unat (toU64 now) - unat (toU64 gen) \<le> SAS_EXPIRY_SECONDS * 10 ^ 7"
  by (rule ValidateSasPin_iff)

end
