(* ===== verification/Registry.thy ===== *)
theory Registry
  imports Prelude
begin

text \<open>
  The part of the Win32 registry interface that the program calls. The registry itself is not part of
  the sources: it is an argument \<open>api\<close> over an abstract state \<open>'w\<close> of the system, whose documented
  behaviour is stated in \<open>reg_laws\<close> and \<open>reg_available\<close> for the theorems that depend on it. An opened key
  is represented by the predefined root and the path it was opened with; \<^verbatim>\<open>RegCloseKey\<close> has no effect on
  that state. \<open>sim_api\<close> is a small executable registry that satisfies the laws, for the witnesses.
\<close>

section \<open>The interface\<close>

datatype HKEY = HKEY_LOCAL_MACHINE | HKEY_CURRENT_USER | HKEY_other nat

type_synonym key = "HKEY \<times> wstring"

definition ERROR_SUCCESS :: u32 where "ERROR_SUCCESS = 0"
definition ERROR_FILE_NOT_FOUND :: u32 where "ERROR_FILE_NOT_FOUND = 2"
definition ERROR_ACCESS_DENIED :: u32 where "ERROR_ACCESS_DENIED = 5"
definition ERROR_MORE_DATA :: u32 where "ERROR_MORE_DATA = 234"
definition ERROR_NO_MORE_ITEMS :: u32 where "ERROR_NO_MORE_ITEMS = 259"

definition REG_SZ :: u32 where "REG_SZ = 1"
definition REG_BINARY :: u32 where "REG_BINARY = 3"
definition REG_DWORD :: u32 where "REG_DWORD = 4"
definition REG_QWORD :: u32 where "REG_QWORD = 11"

definition KEY_QUERY_VALUE :: u32 where "KEY_QUERY_VALUE = 0x0001"
definition KEY_SET_VALUE :: u32 where "KEY_SET_VALUE = 0x0002"
definition KEY_ENUMERATE_SUB_KEYS :: u32 where "KEY_ENUMERATE_SUB_KEYS = 0x0008"
definition KEY_READ :: u32 where "KEY_READ = 0x20019"
definition KEY_WRITE :: u32 where "KEY_WRITE = 0x20006"
definition KEY_ALL_ACCESS :: u32 where "KEY_ALL_ACCESS = 0xF003F"

lemmas win32_consts [model_defs] =
  ERROR_SUCCESS_def ERROR_FILE_NOT_FOUND_def ERROR_ACCESS_DENIED_def ERROR_MORE_DATA_def
  ERROR_NO_MORE_ITEMS_def REG_SZ_def REG_BINARY_def REG_DWORD_def REG_QWORD_def

text \<open>The outcome of resolving and calling the security-descriptor conversion of \<^verbatim>\<open>advapi32\<close>.\<close>

datatype sddl_result = SddlNoLibrary | SddlNoFunction | SddlFailed u32 | SddlDescriptor bytes

text \<open>
  A query gets the size of the caller's buffer and answers a status and the bytes it wrote to the
  start of the buffer; an enumeration gets an index and the size of the name buffer in characters and
  answers a status and the name (without its terminator).
\<close>

record 'w reg_api =
  RegCreateKeyExW :: "'w \<Rightarrow> HKEY \<Rightarrow> wstring \<Rightarrow> u32 \<Rightarrow> u32 \<times> 'w"
  RegOpenKeyExW :: "'w \<Rightarrow> HKEY \<Rightarrow> wstring \<Rightarrow> u32 \<Rightarrow> u32"
  RegSetValueExW :: "'w \<Rightarrow> key \<Rightarrow> wstring \<Rightarrow> u32 \<Rightarrow> bytes \<Rightarrow> u32 \<times> 'w"
  RegQueryValueExW :: "'w \<Rightarrow> key \<Rightarrow> wstring \<Rightarrow> nat \<Rightarrow> u32 \<times> bytes"
  RegDeleteKeyW :: "'w \<Rightarrow> HKEY \<Rightarrow> wstring \<Rightarrow> u32 \<times> 'w"
  RegEnumKeyExW :: "'w \<Rightarrow> key \<Rightarrow> u32 \<Rightarrow> nat \<Rightarrow> u32 \<times> wstring"
  RegSetKeySecurity :: "'w \<Rightarrow> key \<Rightarrow> bytes \<Rightarrow> u32 \<times> 'w"
  ConvertSddl :: "'w \<Rightarrow> wstring \<Rightarrow> sddl_result"

section \<open>Wide characters in memory\<close>

definition bytes_of_wchars :: "wstring \<Rightarrow> bytes" where
  "bytes_of_wchars ws = concat (map (to_le 2) ws)"

fun wchars_of_bytes :: "bytes \<Rightarrow> wstring" where
  "wchars_of_bytes (a # b # r) = from_le [a, b] # wchars_of_bytes r"
| "wchars_of_bytes _ = []"

text \<open>
  Reading a NUL-terminated string out of a buffer of wide characters; \<open>None\<close> is the out-of-bounds read
  of a buffer without a terminator. The text that is stored for a string includes its terminator.
\<close>

definition wcs :: "wstring \<Rightarrow> wstring option" where
  "wcs buf = (if 0 \<in> set buf then Some (takeWhile (\<lambda>c. c \<noteq> 0) buf) else None)"

definition sz_bytes :: "wstring \<Rightarrow> bytes" where
  "sz_bytes w = bytes_of_wchars (w @ [0])"

lemma length_bytes_of_wchars [simp]: "length (bytes_of_wchars ws) = 2 * length ws"
  by (induction ws) (simp_all add: bytes_of_wchars_def)

lemma wchars_of_bytes_append [simp]:
  "wchars_of_bytes (bytes_of_wchars ws @ r) = ws @ wchars_of_bytes r"
proof (induction ws)
  case (Cons w ws)
  have "[0..<2] = [0, 1::nat]" by code_simp
  then obtain a b where ab: "to_le 2 w = [a, b]"
    by (simp add: to_le_def)
  then have "from_le [a, b] = w"
    using from_le_to_le [of 2 w] by simp
  with Cons ab show ?case
    by (simp add: bytes_of_wchars_def)
qed (simp add: bytes_of_wchars_def)

lemma wcs_append:
  assumes "0 \<notin> set s"
  shows "wcs (s @ 0 # r) = Some s"
  using assms by (induction s) (auto simp: wcs_def)

lemma wcs_sz_bytes:
  assumes "0 \<notin> set s"
  shows "wcs (wchars_of_bytes (sz_bytes s @ r)) = Some s"
  using wcs_append [OF assms] by (simp add: sz_bytes_def)

section \<open>Documented behaviour\<close>

text \<open>
  \<open>view w k\<close> is the content of key \<open>k\<close>: its values, by name; keys and value names are compared after
  case folding by \<open>kf\<close>, which on ASCII text is the folding of the letters.
\<close>

type_synonym reg_values = "wstring \<Rightarrow> (u32 \<times> bytes) option"
type_synonym 'w reg_view = "'w \<Rightarrow> key \<Rightarrow> reg_values option"

definition wlower :: "u16 \<Rightarrow> u16" where
  "wlower c = (if 65 \<le> c \<and> c \<le> 90 then c + 32 else c)"

definition ascii :: "wstring \<Rightarrow> bool" where
  "ascii s \<longleftrightarrow> (\<forall>c\<in>set s. c < 128)"

definition folds_ascii :: "(wstring \<Rightarrow> wstring) \<Rightarrow> bool" where
  "folds_ascii kf \<longleftrightarrow> (\<forall>x y. ascii x \<longrightarrow> ascii y \<longrightarrow> (kf x = kf y \<longleftrightarrow> map wlower x = map wlower y))"

text \<open>Creating a key creates the missing keys of its path, each without values, and changes nothing else.\<close>

definition grown :: "(wstring \<Rightarrow> wstring) \<Rightarrow> wstring \<Rightarrow> 'w reg_view \<Rightarrow> 'w \<Rightarrow> 'w \<Rightarrow> bool" where
  "grown kf p view w w' \<longleftrightarrow> (\<forall>k. view w' k = view w k \<or>
     (\<exists>n. snd k = kf (take n p)) \<and> view w k = None \<and> view w' k = Some Map.empty)"

definition law_create :: "'w reg_api \<Rightarrow> (wstring \<Rightarrow> wstring) \<Rightarrow> 'w reg_view \<Rightarrow> bool" where
  "law_create api kf view \<longleftrightarrow>
     (\<forall>w r p acc err w'. RegCreateKeyExW api w r p acc = (err, w') \<longrightarrow>
        grown kf p view w w' \<and> (err = ERROR_SUCCESS \<longrightarrow> view w' (r, kf p) \<noteq> None))"

definition law_open :: "'w reg_api \<Rightarrow> (wstring \<Rightarrow> wstring) \<Rightarrow> 'w reg_view \<Rightarrow> bool" where
  "law_open api kf view \<longleftrightarrow>
     (\<forall>w r p acc. RegOpenKeyExW api w r p acc = ERROR_SUCCESS \<longrightarrow> view w (r, kf p) \<noteq> None)"

definition law_set :: "'w reg_api \<Rightarrow> (wstring \<Rightarrow> wstring) \<Rightarrow> 'w reg_view \<Rightarrow> bool" where
  "law_set api kf view \<longleftrightarrow>
     (\<forall>w r p n t d w' m. view w (r, kf p) = Some m \<longrightarrow> RegSetValueExW api w (r, p) n t d = (ERROR_SUCCESS, w') \<longrightarrow>
        view w' = (view w)((r, kf p) := Some (m(kf n := Some (t, d)))))"

definition law_query :: "'w reg_api \<Rightarrow> (wstring \<Rightarrow> wstring) \<Rightarrow> 'w reg_view \<Rightarrow> bool" where
  "law_query api kf view \<longleftrightarrow>
     (\<forall>w r p n bufsize m. view w (r, kf p) = Some m \<longrightarrow>
        (case m (kf n) of
           None \<Rightarrow> fst (RegQueryValueExW api w (r, p) n bufsize) = ERROR_FILE_NOT_FOUND
         | Some (t, d) \<Rightarrow>
             if length d \<le> bufsize then RegQueryValueExW api w (r, p) n bufsize = (ERROR_SUCCESS, d)
             else fst (RegQueryValueExW api w (r, p) n bufsize) = ERROR_MORE_DATA))"

definition law_delete :: "'w reg_api \<Rightarrow> (wstring \<Rightarrow> wstring) \<Rightarrow> 'w reg_view \<Rightarrow> bool" where
  "law_delete api kf view \<longleftrightarrow>
     (\<forall>w r p w'. RegDeleteKeyW api w r p = (ERROR_SUCCESS, w') \<longrightarrow> view w' = (view w)((r, kf p) := None))"

definition law_security :: "'w reg_api \<Rightarrow> 'w reg_view \<Rightarrow> bool" where
  "law_security api view \<longleftrightarrow>
     (\<forall>w k sd err w'. RegSetKeySecurity api w k sd = (err, w') \<longrightarrow> view w' = view w)"

definition law_enum :: "'w reg_api \<Rightarrow> bool" where
  "law_enum api \<longleftrightarrow>
     (\<forall>w k bufsize. \<exists>n < 2 ^ 32. fst (RegEnumKeyExW api w k (of_nat n) bufsize) = ERROR_NO_MORE_ITEMS)"

definition reg_laws :: "'w reg_api \<Rightarrow> (wstring \<Rightarrow> wstring) \<Rightarrow> 'w reg_view \<Rightarrow> bool" where
  "reg_laws api kf view \<longleftrightarrow> folds_ascii kf \<and> law_create api kf view \<and> law_open api kf view \<and>
     law_set api kf view \<and> law_query api kf view \<and> law_delete api kf view \<and> law_security api view \<and>
     law_enum api"

lemmas reg_law_defs =
  law_create_def law_open_def law_set_def law_query_def law_delete_def law_security_def law_enum_def

text \<open>Enough rights and resources: keys that exist can be opened, written and deleted.\<close>

definition reg_available :: "'w reg_api \<Rightarrow> (wstring \<Rightarrow> wstring) \<Rightarrow> 'w reg_view \<Rightarrow> bool" where
  "reg_available api kf view \<longleftrightarrow>
     (\<forall>w r p acc. view w (r, kf p) \<noteq> None \<longrightarrow> RegOpenKeyExW api w r p acc = ERROR_SUCCESS) \<and>
     (\<forall>w r p n t d. view w (r, kf p) \<noteq> None \<longrightarrow> fst (RegSetValueExW api w (r, p) n t d) = ERROR_SUCCESS)"

lemma grown_trans: "grown kf p view w w' \<Longrightarrow> grown kf p view w' w'' \<Longrightarrow> grown kf p view w w''"
  unfolding grown_def by metis

lemma grown_take: "grown kf (take n p) view w w' \<Longrightarrow> grown kf p view w w'"
  unfolding grown_def by (metis take_take)

lemma grown_created:
  "grown kf p view w w' \<Longrightarrow> view w' k \<noteq> None \<Longrightarrow>
   view w' k = Some (case view w k of None \<Rightarrow> Map.empty | Some m \<Rightarrow> m)"
  unfolding grown_def by (metis option.case_eq_if option.collapse option.sel option.simps(4))

section \<open>An executable registry\<close>

type_synonym sim_world = "(key \<times> reg_values) list"

definition sim_fold :: "wstring \<Rightarrow> wstring" where
  "sim_fold = map wlower"

definition sim_view :: "sim_world reg_view" where
  "sim_view w k = map_of w k"

definition sim_children :: "sim_world \<Rightarrow> key \<Rightarrow> wstring list" where
  "sim_children w k = map (\<lambda>(_, p). drop (Suc (length (snd k))) p)
     (filter (\<lambda>(r, p). r = fst k \<and> take (Suc (length (snd k))) p = sim_fold (snd k) @ [92])
        (remdups (map fst w)))"

definition sim_api :: "sim_world reg_api" where
  "sim_api = \<lparr>
     RegCreateKeyExW = (\<lambda>w r p acc. (ERROR_SUCCESS,
        case map_of w (r, sim_fold p) of None \<Rightarrow> ((r, sim_fold p), Map.empty) # w | Some m \<Rightarrow> w)),
     RegOpenKeyExW = (\<lambda>w r p acc.
        if map_of w (r, sim_fold p) = None then ERROR_FILE_NOT_FOUND else ERROR_SUCCESS),
     RegSetValueExW = (\<lambda>w (r, p) n t d.
        (case map_of w (r, sim_fold p) of None \<Rightarrow> (ERROR_FILE_NOT_FOUND, w)
         | Some m \<Rightarrow> (ERROR_SUCCESS, ((r, sim_fold p), m(sim_fold n := Some (t, d))) # w))),
     RegQueryValueExW = (\<lambda>w (r, p) n size.
        (case map_of w (r, sim_fold p) of None \<Rightarrow> (ERROR_FILE_NOT_FOUND, [])
         | Some m \<Rightarrow> (case m (sim_fold n) of None \<Rightarrow> (ERROR_FILE_NOT_FOUND, [])
             | Some (t, d) \<Rightarrow> if length d \<le> size then (ERROR_SUCCESS, d) else (ERROR_MORE_DATA, [])))),
     RegDeleteKeyW = (\<lambda>w r p.
        if map_of w (r, sim_fold p) = None then (ERROR_FILE_NOT_FOUND, w)
        else (ERROR_SUCCESS, filter (\<lambda>e. fst e \<noteq> (r, sim_fold p)) w)),
     RegEnumKeyExW = (\<lambda>w k i size.
        let names = sim_children w k in
        if i = 0xFFFFFFFF \<or> \<not> unat i < length names then (ERROR_NO_MORE_ITEMS, [])
        else if length (names ! unat i) < size then (ERROR_SUCCESS, names ! unat i) else (ERROR_MORE_DATA, [])),
     RegSetKeySecurity = (\<lambda>w k sd. (ERROR_SUCCESS, w)),
     ConvertSddl = (\<lambda>w s. SddlDescriptor [])\<rparr>"

lemma map_of_filter_neq: "map_of (filter (\<lambda>e. fst e \<noteq> k) w) = (map_of w)(k := None)"
  by (induction w) (auto simp: fun_eq_iff)

lemma sim_laws: "reg_laws sim_api sim_fold sim_view"
proof -
  have "\<exists>n < 2 ^ 32. fst (RegEnumKeyExW sim_api w k (of_nat n) bufsize) = ERROR_NO_MORE_ITEMS" for w k bufsize
    by (rule exI [of _ "2 ^ 32 - 1"]) (simp add: sim_api_def)
  moreover have "\<exists>n. map wlower p = map wlower (take n p)" for p
    by (rule exI [of _ "length p"]) simp
  ultimately show ?thesis
    unfolding reg_laws_def reg_law_defs
    by (auto simp: folds_ascii_def sim_fold_def sim_api_def sim_view_def fun_eq_iff map_of_filter_neq win32_consts
        grown_def
        split: option.splits if_splits)
qed

lemma sim_available: "reg_available sim_api sim_fold sim_view"
  by (auto simp: reg_available_def sim_api_def sim_view_def split: option.splits)

end
