(* ===== verification/DeviceRegistry.thy ===== *)
theory DeviceRegistry
  imports Registry SasPin
begin

text \<open>
  \<^verbatim>\<open>windows/pairing/DeviceRegistry.h/.cpp\<close>: the trusted-device records under
  \<^verbatim>\<open>SOFTWARE\MobileFingerprintUnlock\Devices\<close>. The state is the static \<^verbatim>\<open>s_registryRoot\<close>, which
  \<^verbatim>\<open>WriteDeviceRecord\<close> can switch to the current user's hive, and the system's registry.
  A read answers \<open>None\<close> when it would read a stored string past its buffer, and the enumeration when its
  loop does not end.
\<close>

section \<open>Data\<close>

record 'w reg_state =
  s_registryRoot :: HKEY
  reg_world :: 'w

definition kDeviceRegistryRoot :: wstring where
  "kDeviceRegistryRoot =
     wide (''SOFTWARE'' @ [CHR 0x5C] @ ''MobileFingerprintUnlock'' @ [CHR 0x5C] @ ''Devices'')"

definition kRegValPairStatus :: wstring where "kRegValPairStatus = wide ''PairStatus''"
definition kRegValDeviceName :: wstring where "kRegValDeviceName = wide ''DeviceName''"
definition kRegValAccountSid :: wstring where "kRegValAccountSid = wide ''AccountSID''"
definition kRegValPublicKey :: wstring where "kRegValPublicKey = wide ''PublicKey''"
definition kRegValPairedTime :: wstring where "kRegValPairedTime = wide ''PairedTime''"
definition kRegValLastSeen :: wstring where "kRegValLastSeen = wide ''LastSeen''"

definition kStatusActive :: u32 where "kStatusActive = 1"
definition kStatusRevoked :: u32 where "kStatusRevoked = 0"
definition kMaxDevicesPerAccount :: int where "kMaxDevicesPerAccount = 5"

lemmas reg_val_names =
  kRegValPairStatus_def kRegValDeviceName_def kRegValAccountSid_def kRegValPublicKey_def
  kRegValPairedTime_def kRegValLastSeen_def

record DeviceRecord =
  dr_deviceId :: DeviceId
  dr_deviceName :: string
  dr_accountSid :: string
  dr_publicKey :: bytes
  dr_pairStatus :: u32
  dr_pairedTime :: FILETIME
  dr_lastSeen :: FILETIME

definition FILETIME_zero :: FILETIME where
  "FILETIME_zero = \<lparr>dwLowDateTime = 0, dwHighDateTime = 0\<rparr>"

text \<open>The value-initialized \<^verbatim>\<open>DeviceRecord{}\<close>.\<close>

definition DeviceRecord_init :: DeviceRecord where
  "DeviceRecord_init = \<lparr>dr_deviceId = replicate 16 0, dr_deviceName = [], dr_accountSid = [],
     dr_publicKey = [], dr_pairStatus = 0, dr_pairedTime = FILETIME_zero, dr_lastSeen = FILETIME_zero\<rparr>"

section \<open>Operations\<close>

definition SetRegistryRootForTesting :: "HKEY \<Rightarrow> 'w reg_state \<Rightarrow> 'w reg_state" where
  "SetRegistryRootForTesting root st = st\<lparr>s_registryRoot := root\<rparr>"

definition GetRegistryRoot :: "'w reg_state \<Rightarrow> HKEY" where
  "GetRegistryRoot st = s_registryRoot st"

definition BuildDeviceKeyPath :: "string \<Rightarrow> wstring" where
  "BuildDeviceKeyPath deviceIdStr = kDeviceRegistryRoot @ [92] @ map widen deviceIdStr"

text \<open>The key that the registry calls name: they are passed \<^verbatim>\<open>keyPath.c_str()\<close>.\<close>

definition device_key :: "string \<Rightarrow> wstring" where
  "device_key deviceIdStr = c_str (BuildDeviceKeyPath deviceIdStr)"

definition ToWide :: "string \<Rightarrow> wstring" where
  "ToWide s = map widen s"

definition ToNarrow :: "wstring \<Rightarrow> string" where
  "ToNarrow w = map narrow w"

definition registry_sddl :: wstring where
  "registry_sddl = wide ''D:(A;;KA;;;SY)(A;;KRKW;;;BA)(A;;KR;;;NS)(A;;KRKW;;;IU)''"

definition ApplyRegistryAcl :: "'w reg_api \<Rightarrow> key \<Rightarrow> 'w reg_state \<Rightarrow> u32 \<times> 'w reg_state" where
  "ApplyRegistryAcl api hKey st =
     (if s_registryRoot st \<noteq> HKEY_LOCAL_MACHINE then (ERROR_SUCCESS, st)
      else (case ConvertSddl api (reg_world st) registry_sddl of
          SddlNoLibrary \<Rightarrow> (ERROR_SUCCESS, st)
        | SddlNoFunction \<Rightarrow> (ERROR_SUCCESS, st)
        | SddlFailed err \<Rightarrow> (err, st)
        | SddlDescriptor sd \<Rightarrow>
            (let (result, w) = RegSetKeySecurity api (reg_world st) hKey sd
             in (result, st\<lparr>reg_world := w\<rparr>))))"

text \<open>One \<^verbatim>\<open>RegSetValueExW\<close> call whose result is ignored.\<close>

definition set_value :: "'w reg_api \<Rightarrow> key \<Rightarrow> wstring \<Rightarrow> u32 \<Rightarrow> bytes \<Rightarrow> 'w reg_state \<Rightarrow> 'w reg_state" where
  "set_value api hKey name ty data st =
     st\<lparr>reg_world := snd (RegSetValueExW api (reg_world st) hKey name ty data)\<rparr>"

definition write_values :: "'w reg_api \<Rightarrow> key \<Rightarrow> DeviceRecord \<Rightarrow> 'w reg_state \<Rightarrow> 'w reg_state" where
  "write_values api hKey rec st =
     (let st = set_value api hKey kRegValPairStatus REG_DWORD (to_le 4 (dr_pairStatus rec)) st;
          st = set_value api hKey kRegValDeviceName REG_SZ (sz_bytes (ToWide (dr_deviceName rec))) st;
          st = set_value api hKey kRegValAccountSid REG_SZ (sz_bytes (ToWide (dr_accountSid rec))) st;
          st = (if dr_publicKey rec \<noteq> []
                then set_value api hKey kRegValPublicKey REG_BINARY (dr_publicKey rec) st else st);
          st = set_value api hKey kRegValPairedTime REG_QWORD (to_le 8 (toU64 (dr_pairedTime rec))) st
      in set_value api hKey kRegValLastSeen REG_QWORD (to_le 8 (toU64 (dr_lastSeen rec))) st)"

definition WriteDeviceRecord :: "'w reg_api \<Rightarrow> DeviceRecord \<Rightarrow> 'w reg_state \<Rightarrow> u32 \<times> 'w reg_state" where
  "WriteDeviceRecord api rec st =
     (let (err, w) = RegCreateKeyExW api (reg_world st) (s_registryRoot st) kDeviceRegistryRoot KEY_ALL_ACCESS;
          st = st\<lparr>reg_world := w\<rparr>;
          (err, st) =
            (if err = ERROR_ACCESS_DENIED \<and> s_registryRoot st = HKEY_LOCAL_MACHINE then
               let st = st\<lparr>s_registryRoot := HKEY_CURRENT_USER\<rparr>;
                   (err, w) = RegCreateKeyExW api (reg_world st) (s_registryRoot st) kDeviceRegistryRoot KEY_ALL_ACCESS
               in (err, st\<lparr>reg_world := w\<rparr>)
             else (err, st))
      in if err \<noteq> ERROR_SUCCESS then (err, st)
         else
           let keyPath = device_key (DeviceIdToString (dr_deviceId rec));
               (err, w) = RegCreateKeyExW api (reg_world st) (s_registryRoot st) keyPath KEY_ALL_ACCESS;
               st = st\<lparr>reg_world := w\<rparr>
           in if err \<noteq> ERROR_SUCCESS then (err, st)
              else
                let hKey = (s_registryRoot st, keyPath);
                    st = snd (ApplyRegistryAcl api hKey st)
                in (ERROR_SUCCESS, write_values api hKey rec st))"

text \<open>
  A \<^verbatim>\<open>RegQueryValueExW\<close> call into a zero-initialized buffer of \<open>size\<close> bytes: \<open>Some (buffer, dataSize)\<close> on
  success.
\<close>

definition query_value :: "'w reg_api \<Rightarrow> 'w \<Rightarrow> key \<Rightarrow> wstring \<Rightarrow> nat \<Rightarrow> (bytes \<times> nat) option" where
  "query_value api w hKey name bufsize =
     (let (err, data) = RegQueryValueExW api w hKey name bufsize
      in if err = ERROR_SUCCESS then Some (data @ replicate (bufsize - length data) 0, length data) else None)"

definition read_string :: "'w reg_api \<Rightarrow> 'w \<Rightarrow> key \<Rightarrow> wstring \<Rightarrow> string \<Rightarrow> string option" where
  "read_string api w hKey name old =
     (case query_value api w hKey name 512 of
        None \<Rightarrow> Some old
      | Some (buf, _) \<Rightarrow> map_option ToNarrow (wcs (wchars_of_bytes buf)))"

definition read_time :: "'w reg_api \<Rightarrow> 'w \<Rightarrow> key \<Rightarrow> wstring \<Rightarrow> FILETIME \<Rightarrow> FILETIME" where
  "read_time api w hKey name old =
     (case query_value api w hKey name 8 of
        None \<Rightarrow> old
      | Some (buf, _) \<Rightarrow> ofU64 (from_le (take 8 buf)))"

definition ReadDeviceRecord ::
  "'w reg_api \<Rightarrow> 'w reg_state \<Rightarrow> string \<Rightarrow> DeviceRecord \<Rightarrow> (u32 \<times> DeviceRecord) option" where
  "ReadDeviceRecord api st deviceIdStr outRecord =
     (let keyPath = device_key deviceIdStr;
          hKey = (s_registryRoot st, keyPath);
          w = reg_world st;
          err = RegOpenKeyExW api w (s_registryRoot st) keyPath KEY_READ
      in if err \<noteq> ERROR_SUCCESS then Some (err, outRecord)
         else do {
           let outRecord = outRecord\<lparr>dr_pairStatus :=
             (case query_value api w hKey kRegValPairStatus 4 of
                None \<Rightarrow> kStatusRevoked | Some (buf, _) \<Rightarrow> from_le (take 4 buf))\<rparr>;
           name \<leftarrow> read_string api w hKey kRegValDeviceName (dr_deviceName outRecord);
           let outRecord = outRecord\<lparr>dr_deviceName := name\<rparr>;
           sid \<leftarrow> read_string api w hKey kRegValAccountSid (dr_accountSid outRecord);
           let outRecord = outRecord\<lparr>dr_accountSid := sid\<rparr>;
           let outRecord =
             (case query_value api w hKey kRegValPublicKey 256 of
                None \<Rightarrow> outRecord
              | Some (buf, n) \<Rightarrow> if n > 0 then outRecord\<lparr>dr_publicKey := take n buf\<rparr> else outRecord);
           let outRecord = outRecord\<lparr>dr_pairedTime := read_time api w hKey kRegValPairedTime (dr_pairedTime outRecord)\<rparr>;
           let outRecord = outRecord\<lparr>dr_lastSeen := read_time api w hKey kRegValLastSeen (dr_lastSeen outRecord)\<rparr>;
           Some (ERROR_SUCCESS,
             outRecord\<lparr>dr_deviceId := snd (DeviceIdFromString deviceIdStr (dr_deviceId outRecord))\<rparr>)
         })"

definition SetDeviceStatus :: "'w reg_api \<Rightarrow> string \<Rightarrow> u32 \<Rightarrow> 'w reg_state \<Rightarrow> u32 \<times> 'w reg_state" where
  "SetDeviceStatus api deviceIdStr status st =
     (let keyPath = device_key deviceIdStr;
          err = RegOpenKeyExW api (reg_world st) (s_registryRoot st) keyPath KEY_SET_VALUE
      in if err \<noteq> ERROR_SUCCESS then (err, st)
         else
           let (err, w) = RegSetValueExW api (reg_world st) (s_registryRoot st, keyPath) kRegValPairStatus
                 REG_DWORD (to_le 4 status)
           in (err, st\<lparr>reg_world := w\<rparr>))"

definition UpdateLastSeen :: "'w reg_api \<Rightarrow> FILETIME \<Rightarrow> string \<Rightarrow> 'w reg_state \<Rightarrow> u32 \<times> 'w reg_state" where
  "UpdateLastSeen api now deviceIdStr st =
     (let keyPath = device_key deviceIdStr;
          err = RegOpenKeyExW api (reg_world st) (s_registryRoot st) keyPath KEY_SET_VALUE
      in if err \<noteq> ERROR_SUCCESS then (err, st)
         else
           let (err, w) = RegSetValueExW api (reg_world st) (s_registryRoot st, keyPath) kRegValLastSeen
                 REG_QWORD (to_le 8 (toU64 now))
           in (err, st\<lparr>reg_world := w\<rparr>))"

definition DeleteDeviceRecord :: "'w reg_api \<Rightarrow> string \<Rightarrow> 'w reg_state \<Rightarrow> u32 \<times> 'w reg_state" where
  "DeleteDeviceRecord api deviceIdStr st =
     (let (err, w) = RegDeleteKeyW api (reg_world st) (s_registryRoot st) (device_key deviceIdStr)
      in (err, st\<lparr>reg_world := w\<rparr>))"

definition IsDeviceActive :: "'w reg_api \<Rightarrow> 'w reg_state \<Rightarrow> string \<Rightarrow> bool option" where
  "IsDeviceActive api st deviceIdStr = do {
     (err, rec) \<leftarrow> ReadDeviceRecord api st deviceIdStr DeviceRecord_init;
     Some (if err \<noteq> ERROR_SUCCESS then False else dr_pairStatus rec = kStatusActive)
   }"

partial_function (option) enum_loop ::
  "'w reg_api \<Rightarrow> 'w \<Rightarrow> key \<Rightarrow> u32 \<Rightarrow> string list \<Rightarrow> string list option" where
  "enum_loop api w hRoot index ids =
     (let (res, name) = RegEnumKeyExW api w hRoot index 64 in
      if res = ERROR_NO_MORE_ITEMS then Some ids
      else enum_loop api w hRoot (index + 1)
             (if res = ERROR_SUCCESS then ids @ [ToNarrow (takeWhile (\<lambda>c. c \<noteq> 0) name)] else ids))"

definition EnumerateDeviceIds :: "'w reg_api \<Rightarrow> 'w reg_state \<Rightarrow> string list option" where
  "EnumerateDeviceIds api st =
     (if RegOpenKeyExW api (reg_world st) (s_registryRoot st) kDeviceRegistryRoot KEY_ENUMERATE_SUB_KEYS
         \<noteq> ERROR_SUCCESS
      then Some []
      else enum_loop api (reg_world st) (s_registryRoot st, kDeviceRegistryRoot) 0 [])"

fun count_active :: "'w reg_api \<Rightarrow> 'w reg_state \<Rightarrow> string \<Rightarrow> string list \<Rightarrow> int \<Rightarrow> int option" where
  "count_active api st accountSid [] count = Some count"
| "count_active api st accountSid (devId # ids) count = do {
     (err, rec) \<leftarrow> ReadDeviceRecord api st devId DeviceRecord_init;
     count_active api st accountSid ids
       (if err = ERROR_SUCCESS \<and> dr_pairStatus rec = kStatusActive \<and> dr_accountSid rec = accountSid
        then count + 1 else count)
   }"

definition CountActiveDevicesForAccount :: "'w reg_api \<Rightarrow> 'w reg_state \<Rightarrow> string \<Rightarrow> int option" where
  "CountActiveDevicesForAccount api st accountSid = do {
     ids \<leftarrow> EnumerateDeviceIds api st;
     count_active api st accountSid ids 0
   }"

section \<open>The operations on the registry's content\<close>

lemma laws_create:
  assumes "reg_laws api kf view" "RegCreateKeyExW api w r p acc = (err, w')"
  shows "grown kf p view w w'" "err = ERROR_SUCCESS \<Longrightarrow> view w' (r, kf p) \<noteq> None"
proof -
  from assms(1) have "law_create api kf view" by (simp add: reg_laws_def)
  with assms(2) show "grown kf p view w w'" "err = ERROR_SUCCESS \<Longrightarrow> view w' (r, kf p) \<noteq> None"
    unfolding law_create_def by blast+
qed

lemma laws_open:
  "reg_laws api kf view \<Longrightarrow> RegOpenKeyExW api w r p acc = ERROR_SUCCESS \<Longrightarrow> view w (r, kf p) \<noteq> None"
  unfolding reg_laws_def law_open_def by metis

lemma laws_set:
  "reg_laws api kf view \<Longrightarrow> view w (r, kf p) = Some m \<Longrightarrow>
   RegSetValueExW api w (r, p) n t d = (ERROR_SUCCESS, w') \<Longrightarrow>
   view w' = (view w)((r, kf p) := Some (m(kf n := Some (t, d))))"
  by (simp add: reg_laws_def law_set_def)

lemma laws_delete:
  "reg_laws api kf view \<Longrightarrow> RegDeleteKeyW api w r p = (ERROR_SUCCESS, w') \<Longrightarrow>
   view w' = (view w)((r, kf p) := None)"
  by (simp add: reg_laws_def law_delete_def)

lemma laws_security:
  "reg_laws api kf view \<Longrightarrow> RegSetKeySecurity api w k sd = (err, w') \<Longrightarrow> view w' = view w"
  unfolding reg_laws_def law_security_def by metis

lemma available_open:
  "reg_available api kf view \<Longrightarrow> view w (r, kf p) \<noteq> None \<Longrightarrow> RegOpenKeyExW api w r p acc = ERROR_SUCCESS"
  unfolding reg_available_def by blast

lemma available_set:
  "reg_available api kf view \<Longrightarrow> view w (r, kf p) \<noteq> None \<Longrightarrow>
   fst (RegSetValueExW api w (r, p) n t d) = ERROR_SUCCESS"
  unfolding reg_available_def by blast

text \<open>Value names and device keys stay apart under the registry's case folding.\<close>

lemma value_names_distinct:
  assumes "folds_ascii kf"
  shows "distinct (map kf [kRegValPairStatus, kRegValDeviceName, kRegValAccountSid, kRegValPublicKey,
    kRegValPairedTime, kRegValLastSeen])"
proof -
  let ?ns = "[kRegValPairStatus, kRegValDeviceName, kRegValAccountSid, kRegValPublicKey, kRegValPairedTime,
    kRegValLastSeen]"
  have "list_all ascii ?ns" "distinct (map (map wlower) ?ns)"
    by code_simp+
  then show ?thesis
    using assms by (auto simp: distinct_map inj_on_def folds_ascii_def list_all_iff)
qed

text \<open>The values a written record leaves in its key, over the values \<open>m\<close> that were there.\<close>

definition stored :: "(wstring \<Rightarrow> wstring) \<Rightarrow> DeviceRecord \<Rightarrow> reg_values \<Rightarrow> reg_values" where
  "stored kf rec m =
     (let m = m(kf kRegValPairStatus := Some (REG_DWORD, to_le 4 (dr_pairStatus rec)));
          m = m(kf kRegValDeviceName := Some (REG_SZ, sz_bytes (ToWide (dr_deviceName rec))));
          m = m(kf kRegValAccountSid := Some (REG_SZ, sz_bytes (ToWide (dr_accountSid rec))));
          m = (if dr_publicKey rec \<noteq> [] then m(kf kRegValPublicKey := Some (REG_BINARY, dr_publicKey rec)) else m);
          m = m(kf kRegValPairedTime := Some (REG_QWORD, to_le 8 (toU64 (dr_pairedTime rec))))
      in m(kf kRegValLastSeen := Some (REG_QWORD, to_le 8 (toU64 (dr_lastSeen rec)))))"

lemma set_value_root [simp]: "s_registryRoot (set_value api k n t d st) = s_registryRoot st"
  by (simp add: set_value_def)

lemma set_value_view:
  assumes "reg_laws api kf view" "reg_available api kf view" "view (reg_world st) (r, kf p) = Some m"
  shows "view (reg_world (set_value api (r, p) n t d st)) =
    (view (reg_world st))((r, kf p) := Some (m(kf n := Some (t, d))))"
proof -
  have "RegSetValueExW api (reg_world st) (r, p) n t d =
      (ERROR_SUCCESS, snd (RegSetValueExW api (reg_world st) (r, p) n t d))"
    using available_set [OF assms(2)] assms(3) by (metis option.distinct(1) prod.collapse)
  from laws_set [OF assms(1,3) this] show ?thesis
    by (simp add: set_value_def)
qed

lemma write_values_root [simp]: "s_registryRoot (write_values api k rec st) = s_registryRoot st"
  by (simp add: write_values_def Let_def)

lemma write_values_view:
  assumes "reg_laws api kf view" "reg_available api kf view" "view (reg_world st) (r, kf p) = Some m"
  shows "view (reg_world (write_values api (r, p) rec st)) =
    (view (reg_world st))((r, kf p) := Some (stored kf rec m))"
  using assms(3) by (simp add: write_values_def stored_def set_value_view [OF assms(1,2)] Let_def)

text \<open>What a query finds in the values of a key.\<close>

definition found :: "(wstring \<Rightarrow> wstring) \<Rightarrow> reg_values \<Rightarrow> wstring \<Rightarrow> nat \<Rightarrow> (bytes \<times> nat) option" where
  "found kf m n bufsize = (case m (kf n) of
     None \<Rightarrow> None
   | Some (t, d) \<Rightarrow> if length d \<le> bufsize then Some (d @ replicate (bufsize - length d) 0, length d) else None)"

lemma query_value_view:
  assumes "reg_laws api kf view" "view w (r, kf p) = Some m"
  shows "query_value api w (r, p) n bufsize = found kf m n bufsize"
proof -
  have "case m (kf n) of
      None \<Rightarrow> fst (RegQueryValueExW api w (r, p) n bufsize) = ERROR_FILE_NOT_FOUND
    | Some (t, d) \<Rightarrow>
        if length d \<le> bufsize then RegQueryValueExW api w (r, p) n bufsize = (ERROR_SUCCESS, d)
        else fst (RegQueryValueExW api w (r, p) n bufsize) = ERROR_MORE_DATA"
    using assms unfolding reg_laws_def law_query_def by blast
  then show ?thesis
    by (auto simp: query_value_def found_def win32_consts split: option.splits if_splits prod.splits)
qed

lemma ApplyRegistryAcl_frame:
  assumes "reg_laws api kf view"
  shows "s_registryRoot (snd (ApplyRegistryAcl api k st)) = s_registryRoot st"
    "view (reg_world (snd (ApplyRegistryAcl api k st))) = view (reg_world st)"
  using laws_security [OF assms]
  by (auto simp: ApplyRegistryAcl_def split: sddl_result.splits prod.splits)

text \<open>The path of a device's key extends the path of the root key.\<close>

lemma root_of_device_key: "\<exists>n. take n (device_key s) = kDeviceRegistryRoot"
proof -
  have "0 \<notin> set kDeviceRegistryRoot"
    by code_simp
  then show ?thesis
    by (intro exI [of _ "length kDeviceRegistryRoot"]) (simp add: device_key_def BuildDeviceKeyPath_def c_str_append)
qed

text \<open>
  \<^verbatim>\<open>WriteDeviceRecord\<close> in two steps: the root key, for which it falls back to the current user's hive, and the
  device's key with its values.
\<close>

definition write_root :: "'w reg_api \<Rightarrow> 'w reg_state \<Rightarrow> u32 \<times> 'w reg_state" where
  "write_root api st =
     (let (err, w) = RegCreateKeyExW api (reg_world st) (s_registryRoot st) kDeviceRegistryRoot KEY_ALL_ACCESS;
          st = st\<lparr>reg_world := w\<rparr>
      in if err = ERROR_ACCESS_DENIED \<and> s_registryRoot st = HKEY_LOCAL_MACHINE then
           let st = st\<lparr>s_registryRoot := HKEY_CURRENT_USER\<rparr>;
               (err, w) = RegCreateKeyExW api (reg_world st) (s_registryRoot st) kDeviceRegistryRoot KEY_ALL_ACCESS
           in (err, st\<lparr>reg_world := w\<rparr>)
         else (err, st))"

definition write_key :: "'w reg_api \<Rightarrow> DeviceRecord \<Rightarrow> 'w reg_state \<Rightarrow> u32 \<times> 'w reg_state" where
  "write_key api rec st =
     (let keyPath = device_key (DeviceIdToString (dr_deviceId rec));
          (err, w) = RegCreateKeyExW api (reg_world st) (s_registryRoot st) keyPath KEY_ALL_ACCESS;
          st = st\<lparr>reg_world := w\<rparr>
      in if err \<noteq> ERROR_SUCCESS then (err, st)
         else let hKey = (s_registryRoot st, keyPath)
              in (ERROR_SUCCESS, write_values api hKey rec (snd (ApplyRegistryAcl api hKey st))))"

lemma WriteDeviceRecord_steps:
  "WriteDeviceRecord api rec st =
     (let (err, st) = write_root api st in if err \<noteq> ERROR_SUCCESS then (err, st) else write_key api rec st)"
  by (simp add: WriteDeviceRecord_def write_root_def write_key_def Let_def case_prod_unfold)

lemma write_root_grown:
  assumes "reg_laws api kf view" "write_root api st = (err, st')"
  shows "grown kf kDeviceRegistryRoot view (reg_world st) (reg_world st')"
proof -
  have c: "grown kf kDeviceRegistryRoot view w (snd (RegCreateKeyExW api w r kDeviceRegistryRoot acc))" for w r acc
    using laws_create(1) [OF assms(1)] by (metis prod.collapse)
  show ?thesis
    using assms(2) c grown_trans [OF c c] by (auto simp: write_root_def case_prod_unfold Let_def split: if_splits)
qed

lemma write_key_success:
  assumes laws: "reg_laws api kf view" and ok: "write_key api rec st = (ERROR_SUCCESS, st')"
  defines "p \<equiv> device_key (DeviceIdToString (dr_deviceId rec))"
  obtains st1 where "grown kf p view (reg_world st) (reg_world st1)" "s_registryRoot st1 = s_registryRoot st"
    "view (reg_world st1) (s_registryRoot st1, kf p) \<noteq> None" "st' = write_values api (s_registryRoot st1, p) rec st1"
proof -
  obtain w where c: "RegCreateKeyExW api (reg_world st) (s_registryRoot st) p KEY_ALL_ACCESS = (ERROR_SUCCESS, w)"
    and st': "st' = write_values api (s_registryRoot st, p) rec (snd (ApplyRegistryAcl api (s_registryRoot st, p) (st\<lparr>reg_world := w\<rparr>)))"
    using ok by (auto simp: write_key_def p_def Let_def split: prod.splits if_splits)
  show thesis
    by (rule that [of "snd (ApplyRegistryAcl api (s_registryRoot st, p) (st\<lparr>reg_world := w\<rparr>))"])
      (use laws_create [OF laws c] in \<open>simp_all add: st' ApplyRegistryAcl_frame [OF laws] grown_def\<close>)
qed

text \<open>A successful write: the keys it creates, then the values it stores.\<close>

lemma WriteDeviceRecord_success:
  assumes laws: "reg_laws api kf view"
    and ok: "WriteDeviceRecord api rec st = (ERROR_SUCCESS, st')"
  obtains st1 p where "p = device_key (DeviceIdToString (dr_deviceId rec))"
    "grown kf p view (reg_world st) (reg_world st1)" "view (reg_world st1) (s_registryRoot st1, kf p) \<noteq> None"
    "st' = write_values api (s_registryRoot st1, p) rec st1"
proof -
  define p where "p = device_key (DeviceIdToString (dr_deviceId rec))"
  obtain st0 where r: "write_root api st = (ERROR_SUCCESS, st0)" and k: "write_key api rec st0 = (ERROR_SUCCESS, st')"
    using ok by (auto simp: WriteDeviceRecord_steps Let_def split: prod.splits if_splits)
  have "grown kf p view (reg_world st) (reg_world st0)"
    using write_root_grown [OF laws r] grown_take root_of_device_key unfolding p_def by metis
  moreover obtain st1 where "grown kf p view (reg_world st0) (reg_world st1)" "view (reg_world st1) (s_registryRoot st1, kf p) \<noteq> None"
    "st' = write_values api (s_registryRoot st1, p) rec st1"
    using write_key_success [OF laws k] unfolding p_def by metis
  ultimately show thesis
    using that [OF p_def grown_trans] by blast
qed

lemma WriteDeviceRecord_view:
  assumes laws: "reg_laws api kf view" "reg_available api kf view"
    and ok: "WriteDeviceRecord api rec st = (ERROR_SUCCESS, st')"
  defines "k \<equiv> (s_registryRoot st', kf (device_key (DeviceIdToString (dr_deviceId rec))))"
  shows "view (reg_world st') k = Some (stored kf rec (case view (reg_world st) k of None \<Rightarrow> Map.empty | Some m \<Rightarrow> m))"
    and "k' \<noteq> k \<Longrightarrow> view (reg_world st') k' = view (reg_world st) k' \<or>
       (\<exists>n. snd k' = kf (take n (device_key (DeviceIdToString (dr_deviceId rec))))) \<and>
       view (reg_world st) k' = None \<and> view (reg_world st') k' = Some Map.empty"
proof -
  obtain st1 p where p: "p = device_key (DeviceIdToString (dr_deviceId rec))"
    and g: "grown kf p view (reg_world st) (reg_world st1)" and ex: "view (reg_world st1) (s_registryRoot st1, kf p) \<noteq> None"
    and st': "st' = write_values api (s_registryRoot st1, p) rec st1"
    by (rule WriteDeviceRecord_success [OF laws(1) ok])
  have k: "k = (s_registryRoot st1, kf p)"
    by (simp add: k_def st' p)
  note m = grown_created [OF g ex]
  show "view (reg_world st') k = Some (stored kf rec (case view (reg_world st) k of None \<Rightarrow> Map.empty | Some m \<Rightarrow> m))"
    by (simp add: st' write_values_view [OF laws m] k)
  show "k' \<noteq> k \<Longrightarrow> view (reg_world st') k' = view (reg_world st) k' \<or>
       (\<exists>n. snd k' = kf (take n (device_key (DeviceIdToString (dr_deviceId rec))))) \<and>
       view (reg_world st) k' = None \<and> view (reg_world st') k' = Some Map.empty"
    unfolding p [symmetric] using g by (cases k') (auto simp: st' write_values_view [OF laws m] k grown_def)
qed

text \<open>A read depends only on the values of the device's key.\<close>

lemma ReadDeviceRecord_view:
  assumes "reg_laws api kf view" "reg_available api kf view"
    and "view (reg_world st) (s_registryRoot st, kf (device_key s)) = Some m"
  shows "ReadDeviceRecord api st s out = do {
      let str = (\<lambda>n old. case found kf m n 512 of
        None \<Rightarrow> Some old | Some (buf, _) \<Rightarrow> map_option ToNarrow (wcs (wchars_of_bytes buf)));
      let time = (\<lambda>n old. case found kf m n 8 of
        None \<Rightarrow> old | Some (buf, _) \<Rightarrow> ofU64 (from_le (take 8 buf)));
      name \<leftarrow> str kRegValDeviceName (dr_deviceName out);
      sid \<leftarrow> str kRegValAccountSid (dr_accountSid out);
      Some (ERROR_SUCCESS, \<lparr>
        dr_deviceId = snd (DeviceIdFromString s (dr_deviceId out)),
        dr_deviceName = name,
        dr_accountSid = sid,
        dr_publicKey = (case found kf m kRegValPublicKey 256 of
          None \<Rightarrow> dr_publicKey out | Some (buf, n) \<Rightarrow> if n > 0 then take n buf else dr_publicKey out),
        dr_pairStatus = (case found kf m kRegValPairStatus 4 of
          None \<Rightarrow> kStatusRevoked | Some (buf, _) \<Rightarrow> from_le (take 4 buf)),
        dr_pairedTime = time kRegValPairedTime (dr_pairedTime out),
        dr_lastSeen = time kRegValLastSeen (dr_lastSeen out)\<rparr>)
    }"
proof -
  have "RegOpenKeyExW api (reg_world st) (s_registryRoot st) (device_key s) acc = ERROR_SUCCESS" for acc
    using available_open [OF assms(2)] assms(3) by simp
  then show ?thesis
    by (simp add: ReadDeviceRecord_def read_string_def read_time_def query_value_view [OF assms(1,3)] Let_def
        split: bind_splits option.splits prod.splits)
qed

text \<open>The records that fit the buffers of \<^verbatim>\<open>ReadDeviceRecord\<close>.\<close>

definition storable :: "DeviceRecord \<Rightarrow> bool" where
  "storable rec \<longleftrightarrow> length (dr_deviceId rec) = 16 \<and>
     CHR 0x00 \<notin> set (dr_deviceName rec) \<and> length (dr_deviceName rec) \<le> 255 \<and>
     CHR 0x00 \<notin> set (dr_accountSid rec) \<and> length (dr_accountSid rec) \<le> 255 \<and>
     dr_publicKey rec \<noteq> [] \<and> length (dr_publicKey rec) \<le> 256"

lemma found_stored:
  assumes "folds_ascii kf"
  shows "found kf (stored kf rec m) kRegValPairStatus 4 = Some (to_le 4 (dr_pairStatus rec), 4)"
    "found kf (stored kf rec m) kRegValPairedTime 8 = Some (to_le 8 (toU64 (dr_pairedTime rec)), 8)"
    "found kf (stored kf rec m) kRegValLastSeen 8 = Some (to_le 8 (toU64 (dr_lastSeen rec)), 8)"
    "stored kf rec m (kf kRegValDeviceName) = Some (REG_SZ, sz_bytes (ToWide (dr_deviceName rec)))"
    "stored kf rec m (kf kRegValAccountSid) = Some (REG_SZ, sz_bytes (ToWide (dr_accountSid rec)))"
    "dr_publicKey rec \<noteq> [] \<Longrightarrow> stored kf rec m (kf kRegValPublicKey) = Some (REG_BINARY, dr_publicKey rec)"
  using value_names_distinct [OF assms] by (auto simp: found_def stored_def Let_def)

lemma length_sz_bytes [simp]: "length (sz_bytes w) = 2 * length w + 2"
  by (simp add: sz_bytes_def)

lemma found_string:
  assumes "m (kf n) = Some (t, sz_bytes (ToWide s))" "CHR 0x00 \<notin> set s" "length s \<le> 255"
  shows "\<exists>buf k. found kf m n 512 = Some (buf, k) \<and> wcs (wchars_of_bytes buf) = Some (ToWide s)"
proof -
  have "0 \<notin> set (ToWide s)"
    using assms(2) by (auto simp: ToWide_def)
  with assms(1,3) show ?thesis
    by (auto simp: found_def ToWide_def wcs_sz_bytes [unfolded ToWide_def])
qed

lemma ToNarrow_ToWide [simp]: "ToNarrow (ToWide s) = s"
  by (simp add: ToNarrow_def ToWide_def comp_def)

lemma read_after_write:
  assumes laws: "reg_laws api kf view" "reg_available api kf view"
    and ok: "WriteDeviceRecord api rec st = (ERROR_SUCCESS, st')"
    and fits: "storable rec" "length (dr_deviceId out) = 16"
  shows "ReadDeviceRecord api st' (DeviceIdToString (dr_deviceId rec)) out = Some (ERROR_SUCCESS, rec)"
proof -
  have kf: "folds_ascii kf" using laws(1) by (simp add: reg_laws_def)
  obtain m where v: "view (reg_world st') (s_registryRoot st', kf (device_key (DeviceIdToString (dr_deviceId rec)))) =
      Some (stored kf rec m)"
    using WriteDeviceRecord_view(1) [OF laws ok] by blast
  note fs = found_stored [OF kf, of rec m]
  have pk: "found kf (stored kf rec m) kRegValPublicKey 256 =
      Some (dr_publicKey rec @ replicate (256 - length (dr_publicKey rec)) 0, length (dr_publicKey rec))"
    using fs(6) fits(1) by (simp add: found_def storable_def)
  obtain b1 k1 where n: "found kf (stored kf rec m) kRegValDeviceName 512 = Some (b1, k1)"
      "wcs (wchars_of_bytes b1) = Some (ToWide (dr_deviceName rec))"
    using found_string [of "stored kf rec m" kf, OF fs(4)] fits(1) by (auto simp: storable_def)
  obtain b2 k2 where s: "found kf (stored kf rec m) kRegValAccountSid 512 = Some (b2, k2)"
      "wcs (wchars_of_bytes b2) = Some (ToWide (dr_accountSid rec))"
    using found_string [of "stored kf rec m" kf, OF fs(5)] fits(1) by (auto simp: storable_def)
  show ?thesis
    unfolding ReadDeviceRecord_view [OF laws v]
    using fits by (simp add: fs(1-3) pk n s from_le_to_le storable_def Let_def)
qed

text \<open>A record that fits the reading buffers is read back field by field as it was written.\<close>

theorem device_record_roundtrip:
  assumes "reg_laws api kf view" "reg_available api kf view"
    and "WriteDeviceRecord api rec st = (ERROR_SUCCESS, st')"
    and "storable rec" "length (dr_deviceId out) = 16"
  shows "ReadDeviceRecord api st' (DeviceIdToString (dr_deviceId rec)) out = Some (ERROR_SUCCESS, rec)"
  using assms by (rule read_after_write)

definition sample_record :: DeviceRecord where
  "sample_record = \<lparr>dr_deviceId = [1, 2, 3, 4, 5, 6, 7, 8, 9, 10, 11, 12, 13, 14, 15, 16],
     dr_deviceName = ''Pixel'', dr_accountSid = ''S-1-5-21-7'', dr_publicKey = [4, 9, 7], dr_pairStatus = kStatusActive,
     dr_pairedTime = ofU64 5, dr_lastSeen = ofU64 6\<rparr>"

definition sample_state :: "sim_world reg_state" where
  "sample_state = \<lparr>s_registryRoot = HKEY_LOCAL_MACHINE, reg_world = []\<rparr>"

lemma sim_write: "fst (WriteDeviceRecord sim_api rec st) = ERROR_SUCCESS"
  by (simp add: WriteDeviceRecord_def sim_api_def ERROR_SUCCESS_def ERROR_ACCESS_DENIED_def Let_def
      split: option.splits prod.splits)

lemma storable_sample: "storable sample_record"
  by (simp add: storable_def sample_record_def)

theorem device_record_roundtrip_witness:
  "ReadDeviceRecord sim_api (snd (WriteDeviceRecord sim_api sample_record sample_state))
     (DeviceIdToString (dr_deviceId sample_record)) DeviceRecord_init = Some (ERROR_SUCCESS, sample_record)"
  by (rule device_record_roundtrip [OF sim_laws sim_available _ storable_sample])
    (simp_all add: prod_eq_iff sim_write DeviceRecord_init_def)

section \<open>Status changes, deletion and the independence of devices\<close>

lemma hex_digit_set: "n < 16 \<Longrightarrow> hex_digit n \<in> set ''0123456789abcdef''"
  by (erule less_16_cases) code_simp+

lemma set_DeviceIdToString: "set (DeviceIdToString did) \<subseteq> set ''0123456789abcdef-''"
proof -
  have sub: "set ''0123456789abcdef'' \<subseteq> set ''0123456789abcdef-''" and dash: "set ''-'' \<subseteq> set ''0123456789abcdef-''"
    by code_simp+
  have "set (print_02x b) \<subseteq> set ''0123456789abcdef-''" for b
    using hex_digit_set [OF byte_digits(1), of b] hex_digit_set [OF byte_digits(2), of b] sub
    unfolding print_02x_def list.set by blast
  with dash show ?thesis
    unfolding DeviceIdToString_def set_append by (intro Un_least)
qed

lemma device_path_ascii:
  "ascii (device_key (DeviceIdToString did))"
  "map wlower (device_key (DeviceIdToString did)) =
     map wlower kDeviceRegistryRoot @ 92 # map widen (DeviceIdToString did)"
proof -
  have ch: "\<forall>c\<in>set ''0123456789abcdef-''. widen c < 128 \<and> widen c \<noteq> 0 \<and> wlower (widen c) = widen c"
    by code_simp
  have root: "ascii kDeviceRegistryRoot" "0 \<notin> set kDeviceRegistryRoot" "wlower 92 = 92" "(92 :: u16) < 128"
    by code_simp+
  have d: "widen c < 128 \<and> widen c \<noteq> 0 \<and> wlower (widen c) = widen c" if "c \<in> set (DeviceIdToString did)" for c
    using that ch set_DeviceIdToString by blast
  have k: "device_key (DeviceIdToString did) = BuildDeviceKeyPath (DeviceIdToString did)"
    using d root(2) by (force simp: device_key_def BuildDeviceKeyPath_def intro!: c_str_id)
  show "ascii (device_key (DeviceIdToString did))"
    using d root by (auto simp: k ascii_def BuildDeviceKeyPath_def)
  show "map wlower (device_key (DeviceIdToString did)) =
     map wlower kDeviceRegistryRoot @ 92 # map widen (DeviceIdToString did)"
    using d root by (simp add: k BuildDeviceKeyPath_def)
qed

lemma device_path_inject:
  assumes "folds_ascii kf" "length a = 16" "length b = 16"
    and "kf (device_key (DeviceIdToString a)) = kf (device_key (DeviceIdToString b))"
  shows "a = b"
proof -
  have "map widen (DeviceIdToString a) = map widen (DeviceIdToString b)"
    using assms(1,4) by (auto simp: folds_ascii_def device_path_ascii)
  then show ?thesis
    using DeviceIdToString_inject [OF assms(2,3)] wide_inject by (simp add: wide_def)
qed

lemma ReadDeviceRecord_success_view:
  assumes "reg_laws api kf view" "ReadDeviceRecord api st s out = Some (ERROR_SUCCESS, rec)"
  obtains m where "view (reg_world st) (s_registryRoot st, kf (device_key s)) = Some m"
proof -
  have "RegOpenKeyExW api (reg_world st) (s_registryRoot st) (device_key s) KEY_READ = ERROR_SUCCESS"
    using assms(2) by (auto simp: ReadDeviceRecord_def Let_def split: if_splits)
  with laws_open [OF assms(1)] that show thesis by blast
qed

lemma ReadDeviceRecord_frame:
  assumes laws: "reg_laws api kf view" "reg_available api kf view"
    and "ReadDeviceRecord api st s out = Some (ERROR_SUCCESS, rec)"
    and "s_registryRoot st' = s_registryRoot st"
    and "view (reg_world st') (s_registryRoot st, kf (device_key s)) =
         view (reg_world st) (s_registryRoot st, kf (device_key s))"
  shows "ReadDeviceRecord api st' s out = Some (ERROR_SUCCESS, rec)"
proof -
  obtain m where v: "view (reg_world st) (s_registryRoot st, kf (device_key s)) = Some m"
    by (rule ReadDeviceRecord_success_view [OF laws(1) assms(3)])
  then have v': "view (reg_world st') (s_registryRoot st', kf (device_key s)) = Some m"
    using assms(4,5) by simp
  show ?thesis
    using assms(3) ReadDeviceRecord_view [OF laws v] ReadDeviceRecord_view [OF laws v'] by simp
qed

lemma SetDeviceStatus_view:
  assumes "reg_laws api kf view" "SetDeviceStatus api s status st = (ERROR_SUCCESS, st')"
  obtains m where "view (reg_world st) (s_registryRoot st, kf (device_key s)) = Some m"
    "s_registryRoot st' = s_registryRoot st"
    "view (reg_world st') = (view (reg_world st))((s_registryRoot st, kf (device_key s)) :=
       Some (m(kf kRegValPairStatus := Some (REG_DWORD, to_le 4 status))))"
proof -
  have o: "RegOpenKeyExW api (reg_world st) (s_registryRoot st) (device_key s) KEY_SET_VALUE = ERROR_SUCCESS"
    using assms(2) by (auto simp: SetDeviceStatus_def Let_def split: if_splits)
  then obtain m where m: "view (reg_world st) (s_registryRoot st, kf (device_key s)) = Some m"
    using laws_open [OF assms(1)] by blast
  show thesis
    by (rule that [OF m])
      (use assms(2) o laws_set [OF assms(1) m] in \<open>auto simp: SetDeviceStatus_def Let_def split: prod.splits\<close>)
qed

text \<open>A successful status change decides whether the device counts as active, and leaves the record
  of every other device as it was.\<close>

theorem device_status_set:
  assumes laws: "reg_laws api kf view" "reg_available api kf view"
    and ok: "SetDeviceStatus api (DeviceIdToString a) status st = (ERROR_SUCCESS, st')"
    and ids: "length a = 16" "length b = 16" "a \<noteq> b"
    and other: "ReadDeviceRecord api st (DeviceIdToString b) out = Some (ERROR_SUCCESS, rec)"
  shows "IsDeviceActive api st' (DeviceIdToString a) \<in> {None, Some (status = kStatusActive)} \<and>
    ReadDeviceRecord api st' (DeviceIdToString b) out = Some (ERROR_SUCCESS, rec)"
proof
  have kf: "folds_ascii kf" using laws(1) by (simp add: reg_laws_def)
  obtain m where v: "view (reg_world st) (s_registryRoot st, kf (device_key (DeviceIdToString a))) = Some m"
    and root: "s_registryRoot st' = s_registryRoot st"
    and v': "view (reg_world st') = (view (reg_world st))((s_registryRoot st, kf (device_key (DeviceIdToString a))) :=
       Some (m(kf kRegValPairStatus := Some (REG_DWORD, to_le 4 status))))"
    by (rule SetDeviceStatus_view [OF laws(1) ok])
  have v1: "view (reg_world st') (s_registryRoot st', kf (device_key (DeviceIdToString a))) =
      Some (m(kf kRegValPairStatus := Some (REG_DWORD, to_le 4 status)))"
    by (simp add: root v')
  show "IsDeviceActive api st' (DeviceIdToString a) \<in> {None, Some (status = kStatusActive)}"
    unfolding IsDeviceActive_def ReadDeviceRecord_view [OF laws v1]
    by (auto simp: Let_def found_def from_le_to_le split: bind_splits)
  show "ReadDeviceRecord api st' (DeviceIdToString b) out = Some (ERROR_SUCCESS, rec)"
    by (rule ReadDeviceRecord_frame [OF laws other root])
      (use device_path_inject [OF kf ids(1,2)] ids(3) in \<open>auto simp: v'\<close>)
qed

lemma sim_set_status:
  "map_of (reg_world st) (s_registryRoot st, sim_fold (device_key s)) \<noteq> None \<Longrightarrow>
   fst (SetDeviceStatus sim_api s status st) = ERROR_SUCCESS"
  by (auto simp: SetDeviceStatus_def sim_api_def Let_def split: option.splits)

lemma sim_write_root: "s_registryRoot (snd (WriteDeviceRecord sim_api rec st)) = s_registryRoot st"
  by (simp add: WriteDeviceRecord_def ApplyRegistryAcl_def sim_api_def win32_consts Let_def
      split: option.splits prod.splits)

definition second_record :: DeviceRecord where
  "second_record = sample_record\<lparr>dr_deviceId := replicate 16 7\<rparr>"

definition two_devices :: "sim_world reg_state" where
  "two_devices = snd (WriteDeviceRecord sim_api second_record
     (snd (WriteDeviceRecord sim_api sample_record sample_state)))"

lemma two_devices_read:
  "ReadDeviceRecord sim_api two_devices (DeviceIdToString (dr_deviceId sample_record)) DeviceRecord_init =
     Some (ERROR_SUCCESS, sample_record)"
  "ReadDeviceRecord sim_api two_devices (DeviceIdToString (replicate 16 7)) DeviceRecord_init =
     Some (ERROR_SUCCESS, second_record)"
proof -
  let ?a = "dr_deviceId sample_record" and ?b = "replicate 16 7 :: DeviceId"
  define st1 where "st1 = snd (WriteDeviceRecord sim_api sample_record sample_state)"
  have w: "WriteDeviceRecord sim_api sample_record sample_state = (ERROR_SUCCESS, st1)"
    "WriteDeviceRecord sim_api second_record st1 = (ERROR_SUCCESS, two_devices)"
    by (simp_all add: prod_eq_iff sim_write st1_def two_devices_def)
  have ok: "storable second_record" "length (dr_deviceId DeviceRecord_init) = 16"
    using storable_sample by (simp_all add: storable_def second_record_def DeviceRecord_init_def)
  show "ReadDeviceRecord sim_api two_devices (DeviceIdToString ?b) DeviceRecord_init = Some (ERROR_SUCCESS, second_record)"
    using read_after_write [OF sim_laws sim_available w(2) ok] by (simp add: second_record_def)
  have r: "ReadDeviceRecord sim_api st1 (DeviceIdToString ?a) DeviceRecord_init = Some (ERROR_SUCCESS, sample_record)"
    by (rule read_after_write [OF sim_laws sim_available w(1) storable_sample ok(2)])
  have root: "s_registryRoot two_devices = s_registryRoot st1"
    by (simp add: two_devices_def st1_def sim_write_root)
  have "?a \<noteq> ?b" by code_simp
  then have neq: "sim_fold (device_key (DeviceIdToString ?a)) \<noteq> sim_fold (device_key (DeviceIdToString ?b))"
    using device_path_inject [of sim_fold ?a ?b] sim_laws storable_sample
    by (auto simp: reg_laws_def storable_def)
  show "ReadDeviceRecord sim_api two_devices (DeviceIdToString ?a) DeviceRecord_init = Some (ERROR_SUCCESS, sample_record)"
  proof (rule ReadDeviceRecord_frame [OF sim_laws sim_available r root])
    obtain m where "sim_view (reg_world st1) (s_registryRoot st1, sim_fold (device_key (DeviceIdToString ?a))) = Some m"
      by (rule ReadDeviceRecord_success_view [OF sim_laws r])
    with WriteDeviceRecord_view(2) [OF sim_laws sim_available w(2),
        of "(s_registryRoot st1, sim_fold (device_key (DeviceIdToString ?a)))"] neq
    show "sim_view (reg_world two_devices) (s_registryRoot st1, sim_fold (device_key (DeviceIdToString ?a))) =
        sim_view (reg_world st1) (s_registryRoot st1, sim_fold (device_key (DeviceIdToString ?a)))"
      by (simp add: second_record_def)
  qed
qed

lemma two_devices_ids:
  "length (dr_deviceId sample_record) = 16" "length (replicate 16 7 :: DeviceId) = 16"
  "dr_deviceId sample_record \<noteq> replicate 16 7"
  by code_simp+

theorem device_status_set_witness:
  "IsDeviceActive sim_api (snd (SetDeviceStatus sim_api (DeviceIdToString (dr_deviceId sample_record)) kStatusRevoked two_devices))
     (DeviceIdToString (dr_deviceId sample_record)) \<in> {None, Some (kStatusRevoked = kStatusActive)} \<and>
   ReadDeviceRecord sim_api
     (snd (SetDeviceStatus sim_api (DeviceIdToString (dr_deviceId sample_record)) kStatusRevoked two_devices))
     (DeviceIdToString (replicate 16 7)) DeviceRecord_init = Some (ERROR_SUCCESS, second_record)"
proof (rule device_status_set [OF sim_laws sim_available _ two_devices_ids two_devices_read(2)])
  obtain m where "sim_view (reg_world two_devices) (s_registryRoot two_devices,
      sim_fold (device_key (DeviceIdToString (dr_deviceId sample_record)))) = Some m"
    by (rule ReadDeviceRecord_success_view [OF sim_laws two_devices_read(1)])
  then show "SetDeviceStatus sim_api (DeviceIdToString (dr_deviceId sample_record)) kStatusRevoked two_devices =
      (ERROR_SUCCESS, snd (SetDeviceStatus sim_api (DeviceIdToString (dr_deviceId sample_record)) kStatusRevoked two_devices))"
    by (simp add: prod_eq_iff sim_set_status sim_view_def)
qed

text \<open>After a successful deletion the device is not found and not active, and the record of every other
  device is as it was.\<close>

theorem device_deleted:
  assumes laws: "reg_laws api kf view" "reg_available api kf view"
    and ok: "DeleteDeviceRecord api (DeviceIdToString a) st = (ERROR_SUCCESS, st')"
    and ids: "length a = 16" "length b = 16" "a \<noteq> b"
    and other: "ReadDeviceRecord api st (DeviceIdToString b) out = Some (ERROR_SUCCESS, rec)"
  shows "(\<exists>err. err \<noteq> ERROR_SUCCESS \<and> ReadDeviceRecord api st' (DeviceIdToString a) out' = Some (err, out')) \<and>
    IsDeviceActive api st' (DeviceIdToString a) = Some False \<and>
    ReadDeviceRecord api st' (DeviceIdToString b) out = Some (ERROR_SUCCESS, rec)"
proof -
  have kf: "folds_ascii kf" using laws(1) by (simp add: reg_laws_def)
  from ok have del: "RegDeleteKeyW api (reg_world st) (s_registryRoot st) (device_key (DeviceIdToString a)) =
      (ERROR_SUCCESS, reg_world st')" and root: "s_registryRoot st' = s_registryRoot st"
    by (auto simp: DeleteDeviceRecord_def split: prod.splits)
  note v = laws_delete [OF laws(1) del]
  have "RegOpenKeyExW api (reg_world st') (s_registryRoot st') (device_key (DeviceIdToString a)) KEY_READ
      \<noteq> ERROR_SUCCESS"
    using laws_open [OF laws(1), of "reg_world st'" "s_registryRoot st'" "device_key (DeviceIdToString a)" KEY_READ]
    by (auto simp: v root)
  then have "ReadDeviceRecord api st' (DeviceIdToString a) x = Some
      (RegOpenKeyExW api (reg_world st') (s_registryRoot st') (device_key (DeviceIdToString a)) KEY_READ, x)" for x
    by (simp add: ReadDeviceRecord_def)
  moreover have "ReadDeviceRecord api st' (DeviceIdToString b) out = Some (ERROR_SUCCESS, rec)"
    by (rule ReadDeviceRecord_frame [OF laws other root])
      (use device_path_inject [OF kf ids(1,2)] ids(3) in \<open>auto simp: v\<close>)
  ultimately show ?thesis
    using \<open>RegOpenKeyExW _ _ _ _ _ \<noteq> ERROR_SUCCESS\<close> by (simp add: IsDeviceActive_def)
qed

theorem device_deleted_witness:
  "\<exists>st'. DeleteDeviceRecord sim_api (DeviceIdToString (dr_deviceId sample_record)) two_devices = (ERROR_SUCCESS, st') \<and>
     IsDeviceActive sim_api st' (DeviceIdToString (dr_deviceId sample_record)) = Some False \<and>
     ReadDeviceRecord sim_api st' (DeviceIdToString (replicate 16 7)) DeviceRecord_init =
       Some (ERROR_SUCCESS, second_record)"
proof -
  obtain m where "sim_view (reg_world two_devices) (s_registryRoot two_devices,
      sim_fold (device_key (DeviceIdToString (dr_deviceId sample_record)))) = Some m"
    by (rule ReadDeviceRecord_success_view [OF sim_laws two_devices_read(1)])
  then obtain st' where
    "DeleteDeviceRecord sim_api (DeviceIdToString (dr_deviceId sample_record)) two_devices = (ERROR_SUCCESS, st')"
    by (auto simp: DeleteDeviceRecord_def sim_api_def sim_view_def)
  with device_deleted [OF sim_laws sim_available this two_devices_ids two_devices_read(2)] show ?thesis
    by blast
qed

section \<open>Enumeration\<close>

lemma enum_loop_returns:
  "fst (RegEnumKeyExW api w k (index + of_nat n) 64) = ERROR_NO_MORE_ITEMS \<Longrightarrow> \<exists>ids'. enum_loop api w k index ids = Some ids'"
proof (induction n arbitrary: index ids)
  case 0
  then show ?case
    by (subst enum_loop.simps) (auto split: prod.splits)
next
  case (Suc n)
  then have "fst (RegEnumKeyExW api w k (index + 1 + of_nat n) 64) = ERROR_NO_MORE_ITEMS"
    by (simp add: ac_simps)
  from Suc.IH [OF this] show ?case
    by (subst enum_loop.simps) (auto split: prod.splits)
qed

lemma enum_loop_stops:
  assumes "enum_loop api w k index ids = Some ids'"
  shows "\<exists>i. fst (RegEnumKeyExW api w k i 64) = ERROR_NO_MORE_ITEMS"
proof (rule enum_loop.raw_induct [of "\<lambda>api w k _ _ _. \<exists>i. fst (RegEnumKeyExW api w k i 64) = ERROR_NO_MORE_ITEMS",
      OF _ assms])
  fix f :: "'a reg_api \<Rightarrow> 'a \<Rightarrow> key \<Rightarrow> u32 \<Rightarrow> string list \<Rightarrow> string list option" and api w k index ids y
  assume IH: "\<And>api w k index ids y. f api w k index ids = Some y \<Longrightarrow> \<exists>i. fst (RegEnumKeyExW api w k i 64) = ERROR_NO_MORE_ITEMS"
    and run: "(let (res, name) = RegEnumKeyExW api w k index 64 in
      if res = ERROR_NO_MORE_ITEMS then Some ids
      else f api w k (index + 1) (if res = ERROR_SUCCESS then ids @ [ToNarrow (takeWhile (\<lambda>c. c \<noteq> 0) name)] else ids)) = Some y"
  show "\<exists>i. fst (RegEnumKeyExW api w k i 64) = ERROR_NO_MORE_ITEMS"
  proof (cases "fst (RegEnumKeyExW api w k index 64) = ERROR_NO_MORE_ITEMS")
    case False
    with run obtain ids2 where "f api w k (index + 1) ids2 = Some y"
      by (auto split: prod.splits if_splits)
    then show ?thesis by (rule IH)
  qed blast
qed

text \<open>C32: the enumeration of the registered devices loops for ever exactly when the root key can be opened and no index
  answers \<^verbatim>\<open>ERROR_NO_MORE_ITEMS\<close>; in every other case it returns.\<close>

theorem enumerate_returns:
  "EnumerateDeviceIds api st = None \<longleftrightarrow>
     RegOpenKeyExW api (reg_world st) (s_registryRoot st) kDeviceRegistryRoot KEY_ENUMERATE_SUB_KEYS = ERROR_SUCCESS \<and>
     (\<nexists>i. fst (RegEnumKeyExW api (reg_world st) (s_registryRoot st, kDeviceRegistryRoot) i 64) = ERROR_NO_MORE_ITEMS)"
proof -
  have "\<exists>ids. enum_loop api (reg_world st) k 0 [] = Some ids"
    if "fst (RegEnumKeyExW api (reg_world st) k i 64) = ERROR_NO_MORE_ITEMS" for k i
    using that enum_loop_returns [of api "reg_world st" k 0 "unat i"] by simp
  moreover have "enum_loop api (reg_world st) k 0 [] = None"
    if "\<nexists>i. fst (RegEnumKeyExW api (reg_world st) k i 64) = ERROR_NO_MORE_ITEMS" for k
    using that enum_loop_stops [of api "reg_world st" k 0 "[]"] by (cases "enum_loop api (reg_world st) k 0 []") auto
  ultimately show ?thesis
    by (auto simp: EnumerateDeviceIds_def) (metis option.distinct(1))
qed

end
