(* ===== verification/Pairing.thy ===== *)
theory Pairing
  imports DeviceRegistry Protocol
begin

text \<open>
  \<^verbatim>\<open>windows/pairing/PairingManager.h/.cpp\<close>: the JSON helpers and payload forms of the pairing messages,
  and the pairing state machine with its sessions and its rate limiter. The critical section makes each
  handler one atomic step on the manager's state. The clock, the random source, the process token and
  the host name are the argument \<open>env\<close>, the registry is \<open>api\<close>; a handler answers \<open>None\<close> when a registry
  read does (see \<open>ReadDeviceRecord\<close> and \<open>EnumerateDeviceIds\<close>). The zeroing of PIN memory that is released
  right afterwards is not represented. Callback invocations are outputs.
\<close>

section \<open>JSON helpers\<close>

definition JsonGetString :: "string \<Rightarrow> string \<Rightarrow> string" where
  "JsonGetString json key =
     (let search = ''\"'' @ key @ ''\"'' in
      case str_find search json of
        None \<Rightarrow> []
      | Some pos \<Rightarrow>
          (case dropWhile (\<lambda>c. c = CHR '' '' \<or> c = CHR '':'') (drop (pos + length search) json) of
             [] \<Rightarrow> []
           | c # rest \<Rightarrow> if c \<noteq> CHR 0x22 then [] else takeWhile (\<lambda>c. c \<noteq> CHR 0x22) rest))"

function hex_to_bytes_loop :: "string \<Rightarrow> nat \<Rightarrow> bytes \<Rightarrow> bytes" where
  "hex_to_bytes_loop hex i bs =
     (if i < length hex then
        (case sscanf2x (drop i hex) of
           None \<Rightarrow> bs
         | Some byte \<Rightarrow> hex_to_bytes_loop hex (i + 2) (bs @ [ucast byte]))
      else bs)"
  by pat_completeness auto
termination by (relation "measure (\<lambda>(hex, i, _). length hex - i)") auto

declare hex_to_bytes_loop.simps [simp del]

definition HexToBytes :: "string \<Rightarrow> bytes" where
  "HexToBytes hex = (if length hex mod 2 \<noteq> 0 then [] else hex_to_bytes_loop hex 0 [])"

section \<open>Payloads\<close>

record PairRequestPayload =
  prq_deviceId :: string
  prq_deviceName :: string
  prq_publicKey :: bytes
  prq_valid :: bool

record PairConfirmPayload =
  pcf_deviceId :: string
  pcf_sasPin :: string
  pcf_valid :: bool

definition ParsePairRequest :: "bytes \<Rightarrow> PairRequestPayload" where
  "ParsePairRequest payloadBytes =
     (if payloadBytes = []
      then \<lparr>prq_deviceId = [], prq_deviceName = [], prq_publicKey = [], prq_valid = False\<rparr>
      else
        let json = string_of_bytes payloadBytes;
            deviceId = JsonGetString json ''deviceId'';
            deviceName = JsonGetString json ''deviceName'';
            pkHex = JsonGetString json ''publicKey''
        in \<lparr>prq_deviceId = deviceId, prq_deviceName = deviceName, prq_publicKey = HexToBytes pkHex,
            prq_valid = (length deviceId = 36 \<and> deviceName \<noteq> [])\<rparr>)"

definition BuildPairResponse :: "string \<Rightarrow> bytes" where
  "BuildPairResponse serverHostname =
     bytes_of_string (''{\"sasRequired\":true,\"serverName\":\"'' @ serverHostname @ ''\"}'')"

definition BuildPairComplete :: "string \<Rightarrow> bytes" where
  "BuildPairComplete deviceIdStr =
     bytes_of_string (''{\"status\":\"PAIRED\",\"deviceId\":\"'' @ deviceIdStr @ ''\"}'')"

text \<open>\<^verbatim>\<open>%s\<close> prints a C string, up to its first NUL; \<^verbatim>\<open>snprintf\<close> keeps 511 characters.\<close>

definition BuildErrorPayload :: "u32 \<Rightarrow> string \<Rightarrow> bytes" where
  "BuildErrorPayload errorCode message =
     bytes_of_string (take 511
       (''{\"errorCode\":'' @ print_u (unat errorCode) @ '',\"message\":\"'' @
        takeWhile (\<lambda>c. c \<noteq> CHR 0x00) message @ ''\"}''))"

definition ParsePairConfirm :: "bytes \<Rightarrow> PairConfirmPayload" where
  "ParsePairConfirm payloadBytes =
     (if payloadBytes = [] then \<lparr>pcf_deviceId = [], pcf_sasPin = [], pcf_valid = False\<rparr>
      else
        let json = string_of_bytes payloadBytes;
            deviceId = JsonGetString json ''deviceId'';
            sasPin = JsonGetString json ''sasPin''
        in \<lparr>pcf_deviceId = deviceId, pcf_sasPin = sasPin,
            pcf_valid = (length deviceId = 36 \<and> length sasPin = SAS_PIN_LENGTH)\<rparr>)"

definition BuildUnpairResponse :: "bool \<Rightarrow> string \<Rightarrow> bytes" where
  "BuildUnpairResponse success deviceIdStr =
     bytes_of_string (''{\"status\":\"'' @ (if success then ''UNPAIRED'' else ''ERROR'') @
       ''\",\"deviceId\":\"'' @ deviceIdStr @ ''\"}'')"

section \<open>The manager\<close>

datatype PairingState =
    PS_UNPAIRED | PS_PAIRING_REQUESTED | PS_WAITING_FOR_SAS | PS_SAS_VERIFIED | PS_PAIRING_CONFIRMED
  | PS_PAIRED | PS_EXPIRED | PS_CANCELLED | PS_FAILED | PS_REVOKED

record PairingSession =
  ps_deviceId :: DeviceId
  ps_deviceName :: string
  ps_clientIp :: string
  ps_sasPin :: string
  ps_sasGeneratedAt :: FILETIME
  ps_sasAttempts :: int
  ps_state :: PairingState
  ps_sessionClientId :: u64
  ps_clientPublicKey :: bytes

text \<open>The callback members are represented by whether they are set.\<close>

record PairingManager =
  m_sessions :: "u64 \<Rightarrow> PairingSession option"
  m_rateLimitMap :: "string \<Rightarrow> (int \<times> FILETIME) option"
  m_onSasDisplay :: bool
  m_onSuccess :: bool
  m_onFailure :: bool

datatype pairing_callback =
    CbSasDisplay string string
  | CbSuccess DeviceId string string
  | CbFailure string

text \<open>What the system calls of one handler invocation answer.\<close>

record token_env =
  tk_open :: bool
  tk_size :: u32
  tk_user :: "bytes option"
  tk_convert :: "(bytes \<Rightarrow> string option) option"

record pair_env =
  pe_now :: "nat \<Rightarrow> FILETIME"
  pe_draw :: "nat \<Rightarrow> u32 option"
  pe_token :: token_env
  pe_hostname :: "string option"

record 'w pair_result =
  pr_type :: MessageType
  pr_bytes :: bytes
  pr_calls :: "pairing_callback list"
  pr_pm :: PairingManager
  pr_reg :: "'w reg_state"

definition PairingManager_new :: PairingManager where
  "PairingManager_new = \<lparr>m_sessions = Map.empty, m_rateLimitMap = Map.empty,
     m_onSasDisplay = False, m_onSuccess = False, m_onFailure = False\<rparr>"

definition PairingManager_delete :: "PairingManager \<Rightarrow> PairingManager" where
  "PairingManager_delete pm = pm\<lparr>m_sessions := Map.empty\<rparr>"

definition SetSasPinDisplayCallback :: "bool \<Rightarrow> PairingManager \<Rightarrow> PairingManager" where
  "SetSasPinDisplayCallback cb pm = pm\<lparr>m_onSasDisplay := cb\<rparr>"

definition SetPairingSuccessCallback :: "bool \<Rightarrow> PairingManager \<Rightarrow> PairingManager" where
  "SetPairingSuccessCallback cb pm = pm\<lparr>m_onSuccess := cb\<rparr>"

definition SetPairingFailureCallback :: "bool \<Rightarrow> PairingManager \<Rightarrow> PairingManager" where
  "SetPairingFailureCallback cb pm = pm\<lparr>m_onFailure := cb\<rparr>"

definition IsRateLimited :: "FILETIME \<Rightarrow> PairingManager \<Rightarrow> string \<Rightarrow> bool" where
  "IsRateLimited now pm deviceIdStr =
     (case m_rateLimitMap pm deviceIdStr of
        None \<Rightarrow> False
      | Some (count, windowStart) \<Rightarrow>
          if toU64 now - toU64 windowStart > 600000000 then False else count \<ge> 5)"

definition RecordFailedAttempt :: "FILETIME \<Rightarrow> string \<Rightarrow> PairingManager \<Rightarrow> PairingManager" where
  "RecordFailedAttempt now deviceIdStr pm =
     pm\<lparr>m_rateLimitMap := (m_rateLimitMap pm)(deviceIdStr :=
       (case m_rateLimitMap pm deviceIdStr of
          None \<Rightarrow> Some (1, now)
        | Some (count, windowStart) \<Rightarrow> Some (count + 1, windowStart)))\<rparr>"

definition ClearFailedAttempts :: "string \<Rightarrow> PairingManager \<Rightarrow> PairingManager" where
  "ClearFailedAttempts deviceIdStr pm = pm\<lparr>m_rateLimitMap := (m_rateLimitMap pm)(deviceIdStr := None)\<rparr>"

definition ClearSession :: "u64 \<Rightarrow> PairingManager \<Rightarrow> PairingManager" where
  "ClearSession clientId pm = pm\<lparr>m_sessions := (m_sessions pm)(clientId := None)\<rparr>"

definition put_session :: "u64 \<Rightarrow> PairingSession \<Rightarrow> PairingManager \<Rightarrow> PairingManager" where
  "put_session clientId session pm = pm\<lparr>m_sessions := (m_sessions pm)(clientId := Some session)\<rparr>"

definition ResolveCurrentAccountSid :: "token_env \<Rightarrow> string" where
  "ResolveCurrentAccountSid tk =
     (if \<not> tk_open tk then []
      else if tk_size tk = 0 then []
      else (case tk_user tk of
          None \<Rightarrow> []
        | Some sid \<Rightarrow>
            (case tk_convert tk of
               None \<Rightarrow> []
             | Some convert \<Rightarrow> (case convert sid of None \<Rightarrow> [] | Some s \<Rightarrow> s))))"

definition pair_error :: "ErrorCode \<Rightarrow> string \<Rightarrow> pairing_callback list \<Rightarrow> PairingManager \<Rightarrow> 'w reg_state \<Rightarrow> 'w pair_result" where
  "pair_error code message calls pm reg =
     \<lparr>pr_type = MT_PROTO_ERROR, pr_bytes = BuildErrorPayload (error_code code) message, pr_calls = calls,
      pr_pm = pm, pr_reg = reg\<rparr>"

text \<open>The session a request creates, once a PIN exists.\<close>

definition new_session :: "u64 \<Rightarrow> string \<Rightarrow> PairRequestPayload \<Rightarrow> string \<Rightarrow> FILETIME \<Rightarrow> PairingSession" where
  "new_session clientId clientIp req sasPin now = \<lparr>
     ps_deviceId = snd (DeviceIdFromString (prq_deviceId req) (replicate 16 0)),
     ps_deviceName = prq_deviceName req,
     ps_clientIp = clientIp,
     ps_sasPin = sasPin,
     ps_sasGeneratedAt = now,
     ps_sasAttempts = 0,
     ps_state = PS_WAITING_FOR_SAS,
     ps_sessionClientId = clientId,
     ps_clientPublicKey = prq_publicKey req\<rparr>"

definition account_limit_reached :: "'w reg_api \<Rightarrow> 'w reg_state \<Rightarrow> string \<Rightarrow> bool option" where
  "account_limit_reached api reg accountSid =
     (if accountSid \<noteq> [] then do {
        activeCount \<leftarrow> CountActiveDevicesForAccount api reg accountSid;
        Some (activeCount \<ge> kMaxDevicesPerAccount)
      } else Some False)"

definition HandlePairRequest ::
  "'w reg_api \<Rightarrow> pair_env \<Rightarrow> u64 \<Rightarrow> string \<Rightarrow> bytes \<Rightarrow> PairingManager \<Rightarrow> 'w reg_state \<Rightarrow> 'w pair_result option" where
  "HandlePairRequest api env clientId clientIp payloadBytes pm reg =
     (let pm = ClearSession clientId pm;
          req = ParsePairRequest payloadBytes
      in if \<not> prq_valid req then Some (pair_error EC_MALFORMED_HEADER ''Invalid PAIR_REQUEST payload'' [] pm reg)
         else if IsRateLimited (pe_now env 0) pm (prq_deviceId req)
         then Some (pair_error EC_RATE_LIMITED ''Pairing rate limit exceeded'' [] pm reg)
         else do {
           active \<leftarrow> IsDeviceActive api reg (prq_deviceId req);
           if active then Some (pair_error EC_UNAUTHORIZED ''Device already paired. Unpair first.'' [] pm reg)
           else do {
             full \<leftarrow> account_limit_reached api reg (ResolveCurrentAccountSid (pe_token env));
             if full then Some (pair_error EC_UNAUTHORIZED ''Maximum paired devices reached'' [] pm reg)
             else
               let sasPin = GenerateSasPin (pe_draw env) in
               if sasPin = [] then Some (pair_error EC_INTERNAL_ERROR ''SAS generation failed'' [] pm reg)
               else
                 let session = new_session clientId clientIp req sasPin (pe_now env 1);
                     pm = put_session clientId session pm;
                     calls = (if m_onSasDisplay pm then [CbSasDisplay sasPin (prq_deviceName req)] else []);
                     hostname = (case pe_hostname env of None \<Rightarrow> ''PC'' | Some h \<Rightarrow> h)
                 in Some \<lparr>pr_type = MT_PAIR_RESPONSE, pr_bytes = BuildPairResponse hostname, pr_calls = calls,
                          pr_pm = pm, pr_reg = reg\<rparr>
           }
         })"

text \<open>\<^verbatim>\<open>HandlePairConfirm\<close>, branch by branch: a malformed payload, a PIN that does not validate, and a PIN that does.\<close>

definition confirm_malformed ::
  "pair_env \<Rightarrow> u64 \<Rightarrow> PairingSession \<Rightarrow> PairingManager \<Rightarrow> 'w reg_state \<Rightarrow> 'w pair_result" where
  "confirm_malformed env clientId session pm reg =
     (let session = session\<lparr>ps_sasAttempts := ps_sasAttempts session + 1\<rparr>;
          pm = RecordFailedAttempt (pe_now env 1) (DeviceIdToString (ps_deviceId session)) pm;
          session = (if ps_sasAttempts session \<ge> SAS_MAX_ATTEMPTS then session\<lparr>ps_state := PS_FAILED\<rparr> else session);
          pm = put_session clientId session pm;
          calls = (if m_onFailure pm then [CbFailure ''Invalid PAIR_CONFIRM payload''] else [])
      in pair_error EC_MALFORMED_HEADER ''Invalid PAIR_CONFIRM payload'' calls pm reg)"

definition confirm_wrong_pin ::
  "pair_env \<Rightarrow> u64 \<Rightarrow> PairingSession \<Rightarrow> PairingManager \<Rightarrow> 'w reg_state \<Rightarrow> 'w pair_result" where
  "confirm_wrong_pin env clientId session pm reg =
     (let session = session\<lparr>ps_sasAttempts := ps_sasAttempts session + 1\<rparr>;
          pm = RecordFailedAttempt (pe_now env 1) (DeviceIdToString (ps_deviceId session)) pm;
          expired = SasPinExpired (pe_now env 2) (ps_sasGeneratedAt session);
          maxAttempts = ps_sasAttempts session \<ge> SAS_MAX_ATTEMPTS
      in if expired \<or> maxAttempts then
           let reason = (if expired then ''SAS PIN expired'' else ''Maximum SAS attempts exceeded'');
               pm = ClearSession clientId pm;
               calls = (if m_onFailure pm then [CbFailure reason] else [])
           in pair_error EC_UNAUTHORIZED reason calls pm reg
         else
           let pm = put_session clientId session pm
           in pair_error EC_UNAUTHORIZED ''Incorrect SAS PIN'' [] pm reg)"

definition pairing_record :: "pair_env \<Rightarrow> PairingSession \<Rightarrow> DeviceRecord" where
  "pairing_record env session = DeviceRecord_init\<lparr>
     dr_deviceId := ps_deviceId session,
     dr_deviceName := ps_deviceName session,
     dr_accountSid := ResolveCurrentAccountSid (pe_token env),
     dr_publicKey := ps_clientPublicKey session,
     dr_pairStatus := kStatusActive,
     dr_pairedTime := pe_now env 3,
     dr_lastSeen := pe_now env 3\<rparr>"

definition confirm_verified ::
  "'w reg_api \<Rightarrow> pair_env \<Rightarrow> u64 \<Rightarrow> PairingSession \<Rightarrow> PairingManager \<Rightarrow> 'w reg_state \<Rightarrow> 'w pair_result" where
  "confirm_verified api env clientId session pm reg =
     (let deviceIdStr = DeviceIdToString (ps_deviceId session);
          (regErr, reg) = WriteDeviceRecord api (pairing_record env session) reg;
          pm = ClearFailedAttempts deviceIdStr pm;
          pm = ClearSession clientId pm
      in if regErr = ERROR_SUCCESS then
           \<lparr>pr_type = MT_PAIR_COMPLETE, pr_bytes = BuildPairComplete deviceIdStr,
            pr_calls = (if m_onSuccess pm
              then [CbSuccess (ps_deviceId session) (ps_deviceName session) (ps_clientIp session)] else []),
            pr_pm = pm, pr_reg = reg\<rparr>
         else
           pair_error EC_INTERNAL_ERROR ''Registry write failed''
             (if m_onFailure pm then [CbFailure ''Registry write failed''] else []) pm reg)"

definition HandlePairConfirm ::
  "'w reg_api \<Rightarrow> pair_env \<Rightarrow> u64 \<Rightarrow> bytes \<Rightarrow> PairingManager \<Rightarrow> 'w reg_state \<Rightarrow> 'w pair_result" where
  "HandlePairConfirm api env clientId payloadBytes pm reg =
     (case m_sessions pm clientId of
        None \<Rightarrow> pair_error EC_UNAUTHORIZED ''No active pairing session'' [] pm reg
      | Some session \<Rightarrow>
          if ps_state session \<noteq> PS_WAITING_FOR_SAS
          then pair_error EC_UNAUTHORIZED ''No active pairing session'' [] pm reg
          else
            let conf = ParsePairConfirm payloadBytes in
            if \<not> pcf_valid conf then confirm_malformed env clientId session pm reg
            else if \<not> ValidateSasPin (pe_now env 0) (pcf_sasPin conf) (ps_sasPin session)
                        (ps_sasGeneratedAt session) (ps_sasAttempts session)
            then confirm_wrong_pin env clientId session pm reg
            else confirm_verified api env clientId session pm reg)"

definition HandleUnpairRequest ::
  "'w reg_api \<Rightarrow> u64 \<Rightarrow> bytes \<Rightarrow> PairingManager \<Rightarrow> 'w reg_state \<Rightarrow> 'w pair_result" where
  "HandleUnpairRequest api clientId payloadBytes pm reg =
     (let deviceIdStr = JsonGetString (string_of_bytes payloadBytes) ''deviceId'' in
      if length deviceIdStr \<noteq> 36
      then pair_error EC_MALFORMED_HEADER ''Invalid deviceId in UNPAIR_REQUEST'' [] pm reg
      else
        let (err, reg) = DeleteDeviceRecord api deviceIdStr reg;
            success = (err = ERROR_SUCCESS \<or> err = ERROR_FILE_NOT_FOUND)
        in \<lparr>pr_type = MT_UNPAIR_RESPONSE, pr_bytes = BuildUnpairResponse success deviceIdStr, pr_calls = [],
            pr_pm = pm, pr_reg = reg\<rparr>)"

definition HasActivePairingSession :: "u64 \<Rightarrow> PairingManager \<Rightarrow> bool" where
  "HasActivePairingSession clientId pm \<longleftrightarrow> m_sessions pm clientId \<noteq> None"

definition CancelPairingSession :: "u64 \<Rightarrow> PairingManager \<Rightarrow> pairing_callback list \<times> PairingManager" where
  "CancelPairingSession clientId pm =
     (let pm = ClearSession clientId pm
      in (if m_onFailure pm then [CbFailure ''Pairing cancelled''] else [], pm))"

text \<open>\<open>now c\<close> is the clock reading when the session of client \<open>c\<close> is examined.\<close>

definition ExpireStaleSessions :: "(u64 \<Rightarrow> FILETIME) \<Rightarrow> PairingManager \<Rightarrow> PairingManager" where
  "ExpireStaleSessions now pm = pm\<lparr>m_sessions := (\<lambda>c.
     case m_sessions pm c of
       None \<Rightarrow> None
     | Some s \<Rightarrow> if SasPinExpired (now c) (ps_sasGeneratedAt s) then None else Some s)\<rparr>"

definition GetSessionState :: "u64 \<Rightarrow> PairingManager \<Rightarrow> PairingState" where
  "GetSessionState clientId pm =
     (case m_sessions pm clientId of None \<Rightarrow> PS_UNPAIRED | Some s \<Rightarrow> ps_state s)"

section \<open>The manager as a machine\<close>

datatype pair_op =
    OpPairRequest pair_env u64 string bytes
  | OpPairConfirm pair_env u64 bytes
  | OpUnpair u64 bytes
  | OpCancel u64
  | OpExpire "u64 \<Rightarrow> FILETIME"

datatype pair_out = Reply MessageType bytes "pairing_callback list" | NoReply "pairing_callback list"

definition pair_reply :: "'w pair_result \<Rightarrow> pair_out \<times> PairingManager \<times> 'w reg_state" where
  "pair_reply r = (Reply (pr_type r) (pr_bytes r) (pr_calls r), pr_pm r, pr_reg r)"

fun pair_exec ::
  "'w reg_api \<Rightarrow> pair_op \<Rightarrow> PairingManager \<times> 'w reg_state \<Rightarrow> (pair_out \<times> PairingManager \<times> 'w reg_state) option" where
  "pair_exec api (OpPairRequest env c ip payload) (pm, reg) =
     map_option pair_reply (HandlePairRequest api env c ip payload pm reg)"
| "pair_exec api (OpPairConfirm env c payload) (pm, reg) = Some (pair_reply (HandlePairConfirm api env c payload pm reg))"
| "pair_exec api (OpUnpair c payload) (pm, reg) = Some (pair_reply (HandleUnpairRequest api c payload pm reg))"
| "pair_exec api (OpCancel c) (pm, reg) = (let (calls, pm') = CancelPairingSession c pm in Some (NoReply calls, pm', reg))"
| "pair_exec api (OpExpire now) (pm, reg) = Some (NoReply [], ExpireStaleSessions now pm, reg)"

definition pair_step ::
  "'w reg_api \<Rightarrow> PairingManager \<times> 'w reg_state \<Rightarrow> pair_op \<times> pair_out \<Rightarrow> PairingManager \<times> 'w reg_state \<Rightarrow> bool" where
  "pair_step api st e st' \<longleftrightarrow> pair_exec api (fst e) st = Some (snd e, st')"

lemma pm_updates [simp]:
  "m_sessions (ClearSession c pm) = (m_sessions pm)(c := None)"
  "m_rateLimitMap (ClearSession c pm) = m_rateLimitMap pm"
  "m_sessions (put_session c s pm) = (m_sessions pm)(c := Some s)"
  "m_rateLimitMap (put_session c s pm) = m_rateLimitMap pm"
  "m_sessions (RecordFailedAttempt now d pm) = m_sessions pm"
  "m_sessions (ClearFailedAttempts d pm) = m_sessions pm"
  by (simp_all add: ClearSession_def put_session_def RecordFailedAttempt_def ClearFailedAttempts_def)

lemma pair_error_simps [simp]:
  "pr_type (pair_error e m cs pm reg) = MT_PROTO_ERROR"
  "pr_pm (pair_error e m cs pm reg) = pm"
  "pr_reg (pair_error e m cs pm reg) = reg"
  by (simp_all add: pair_error_def)

text \<open>What one handler call does to the sessions.\<close>

lemma HandlePairRequest_sessions:
  assumes "HandlePairRequest api env c ip payload pm reg = Some r"
  shows "m_sessions (pr_pm r) = (m_sessions pm)(c :=
    (if pr_type r = MT_PAIR_RESPONSE
     then Some (new_session c ip (ParsePairRequest payload) (GenerateSasPin (pe_draw env)) (pe_now env 1)) else None))"
    and "pr_type r = MT_PAIR_RESPONSE \<Longrightarrow> GenerateSasPin (pe_draw env) \<noteq> []"
    and "pr_reg r = reg" and "pr_type r \<in> {MT_PAIR_RESPONSE, MT_PROTO_ERROR}"
  using assms unfolding HandlePairRequest_def Let_def
  by (auto split: if_splits bind_splits)

lemma confirm_malformed_sessions:
  "m_sessions (pr_pm (confirm_malformed env c s pm reg)) = (m_sessions pm)(c := Some (s\<lparr>
     ps_sasAttempts := ps_sasAttempts s + 1,
     ps_state := (if ps_sasAttempts s + 1 \<ge> SAS_MAX_ATTEMPTS then PS_FAILED else ps_state s)\<rparr>))"
  by (simp add: confirm_malformed_def Let_def)

lemma confirm_wrong_pin_sessions:
  "m_sessions (pr_pm (confirm_wrong_pin env c s pm reg)) = (m_sessions pm)(c :=
     (if SasPinExpired (pe_now env 2) (ps_sasGeneratedAt s) \<or> ps_sasAttempts s + 1 \<ge> SAS_MAX_ATTEMPTS
      then None else Some (s\<lparr>ps_sasAttempts := ps_sasAttempts s + 1\<rparr>)))"
  by (simp add: confirm_wrong_pin_def Let_def)

lemma confirm_verified_sessions:
  "m_sessions (pr_pm (confirm_verified api env c s pm reg)) = (m_sessions pm)(c := None)"
  by (simp add: confirm_verified_def Let_def split: prod.splits)

lemma confirm_types [simp]:
  "pr_type (confirm_malformed env c s pm reg) = MT_PROTO_ERROR"
  "pr_type (confirm_wrong_pin env c s pm reg) = MT_PROTO_ERROR"
  "pr_type (confirm_verified api env c s pm reg) =
     (if fst (WriteDeviceRecord api (pairing_record env s) reg) = ERROR_SUCCESS then MT_PAIR_COMPLETE else MT_PROTO_ERROR)"
  by (simp_all add: confirm_malformed_def confirm_wrong_pin_def confirm_verified_def Let_def split: prod.splits)

text \<open>A confirmation keeps the session, with one attempt more, or removes it.\<close>

lemma HandlePairConfirm_sessions:
  "m_sessions (pr_pm (HandlePairConfirm api env c payload pm reg)) = (m_sessions pm)(c :=
     (case m_sessions pm c of None \<Rightarrow> None
      | Some s \<Rightarrow> if ps_state s \<noteq> PS_WAITING_FOR_SAS then Some s
          else if \<not> pcf_valid (ParsePairConfirm payload) then Some (s\<lparr>ps_sasAttempts := ps_sasAttempts s + 1,
            ps_state := (if ps_sasAttempts s + 1 \<ge> SAS_MAX_ATTEMPTS then PS_FAILED else ps_state s)\<rparr>)
          else if ValidateSasPin (pe_now env 0) (pcf_sasPin (ParsePairConfirm payload)) (ps_sasPin s) (ps_sasGeneratedAt s) (ps_sasAttempts s)
            \<or> SasPinExpired (pe_now env 2) (ps_sasGeneratedAt s) \<or> ps_sasAttempts s + 1 \<ge> SAS_MAX_ATTEMPTS then None
          else Some (s\<lparr>ps_sasAttempts := ps_sasAttempts s + 1\<rparr>)))"
  by (auto simp: HandlePairConfirm_def Let_def confirm_malformed_sessions confirm_wrong_pin_sessions
      confirm_verified_sessions fun_upd_idem split: option.splits)

definition session_inv :: "u64 \<Rightarrow> PairingSession \<Rightarrow> bool" where
  "session_inv c s \<longleftrightarrow> 0 \<le> ps_sasAttempts s \<and> ps_sasAttempts s \<le> SAS_MAX_ATTEMPTS \<and>
     ps_state s = (if ps_sasAttempts s < SAS_MAX_ATTEMPTS then PS_WAITING_FOR_SAS else PS_FAILED) \<and>
     IsValidPinFormat (ps_sasPin s) \<and> length (ps_deviceId s) = 16 \<and> ps_sessionClientId s = c"

definition pairing_inv :: "PairingManager \<Rightarrow> bool" where
  "pairing_inv pm \<longleftrightarrow> (\<forall>c s. m_sessions pm c = Some s \<longrightarrow> session_inv c s)"

lemma pin_format_if_nonempty: "GenerateSasPin draw \<noteq> [] \<Longrightarrow> IsValidPinFormat (GenerateSasPin draw)"
  by (cases "draw 0") (simp_all add: GenerateSasPin_def print_06u_format sas_pin_less)

lemma session_inv_new:
  "GenerateSasPin draw \<noteq> [] \<Longrightarrow> session_inv c (new_session c ip req (GenerateSasPin draw) now)"
  by (simp add: session_inv_def new_session_def SAS_MAX_ATTEMPTS_def pin_format_if_nonempty)

lemma pair_step_sessions:
  assumes "pair_step api (pm, reg) (op, out) (pm', reg')" "m_sessions pm' c = Some s'"
  obtains (kept) s where "m_sessions pm c = Some s"
      "s' = s \<and> (\<forall>env payload. op = OpPairConfirm env c payload \<longrightarrow> ps_state s \<noteq> PS_WAITING_FOR_SAS) \<or>
       (\<exists>env payload. op = OpPairConfirm env c payload) \<and> ps_state s = PS_WAITING_FOR_SAS \<and>
       s' = s\<lparr>ps_sasAttempts := ps_sasAttempts s + 1,
             ps_state := (if ps_sasAttempts s + 1 \<ge> SAS_MAX_ATTEMPTS then PS_FAILED else ps_state s)\<rparr>"
    | (created) env ip payload bs calls where "op = OpPairRequest env c ip payload" "out = Reply MT_PAIR_RESPONSE bs calls"
      "s' = new_session c ip (ParsePairRequest payload) (GenerateSasPin (pe_draw env)) (pe_now env 1)"
      "GenerateSasPin (pe_draw env) \<noteq> []"
proof (cases op)
  case (OpPairRequest env d ip payload)
  then obtain r where r: "HandlePairRequest api env d ip payload pm reg = Some r" "out = Reply (pr_type r) (pr_bytes r) (pr_calls r)"
      "pm' = pr_pm r"
    using assms(1) by (auto simp: pair_step_def pair_reply_def)
  show thesis
  proof (cases "d = c")
    case True
    with assms(2) r HandlePairRequest_sessions(1,2) [OF r(1)] OpPairRequest show thesis
      by (intro created) (auto split: if_splits)
  next
    case False
    with assms(2) r HandlePairRequest_sessions(1) [OF r(1)] OpPairRequest show thesis
      by (intro kept) auto
  qed
next
  case (OpPairConfirm env d payload)
  then have "m_sessions pm' = m_sessions (pr_pm (HandlePairConfirm api env d payload pm reg))"
    using assms(1) by (auto simp: pair_step_def pair_reply_def)
  with assms(2) OpPairConfirm show thesis
    by (cases "d = c") (auto simp: HandlePairConfirm_sessions intro!: kept split: option.splits if_splits)
next
  case (OpUnpair d payload)
  with assms have "m_sessions pm c = Some s'"
    by (auto simp: pair_step_def pair_reply_def HandleUnpairRequest_def Let_def split: if_splits prod.splits)
  with OpUnpair show thesis by (intro kept) auto
next
  case (OpCancel d)
  with assms have "m_sessions pm c = Some s'"
    by (auto simp: pair_step_def CancelPairingSession_def Let_def split: if_splits)
  with OpCancel show thesis by (intro kept) auto
next
  case (OpExpire now)
  with assms have "m_sessions pm c = Some s'"
    by (auto simp: pair_step_def ExpireStaleSessions_def split: option.splits if_splits)
  with OpExpire show thesis by (intro kept) auto
qed

lemma session_inv_confirm:
  "session_inv c s \<Longrightarrow> ps_state s = PS_WAITING_FOR_SAS \<Longrightarrow>
   session_inv c (s\<lparr>ps_sasAttempts := ps_sasAttempts s + 1,
     ps_state := (if ps_sasAttempts s + 1 \<ge> SAS_MAX_ATTEMPTS then PS_FAILED else ps_state s)\<rparr>)"
  by (auto simp: session_inv_def split: if_splits)

interpretation pairing_machine: invariant_machine "pair_step api" "\<lambda>(pm, reg). pairing_inv pm" for api
proof
  fix st e st'
  assume inv: "case st of (pm, reg) \<Rightarrow> pairing_inv pm" and step: "pair_step api st e st'"
  obtain pm reg pm' reg' op out where st: "st = (pm, reg)" "st' = (pm', reg')" "e = (op, out)"
    by (cases st, cases st', cases e) auto
  have "session_inv c s'" if s': "m_sessions pm' c = Some s'" for c s'
    using step [unfolded st] s'
  proof (cases rule: pair_step_sessions)
    case (kept s)
    with inv st show ?thesis
      by (auto simp: pairing_inv_def intro: session_inv_confirm)
  next
    case (created env ip payload bs calls)
    then show ?thesis by (simp add: session_inv_new)
  qed
  then show "case st' of (pm, reg) \<Rightarrow> pairing_inv pm"
    by (simp add: st pairing_inv_def)
qed

text \<open>C29: in every state that handler calls reach from a new manager, each session has a PIN of six
  digits and at most three counted attempts, and it waits for a PIN exactly while fewer than three were
  made: the third failure closes it.\<close>

theorem pairing_sessions_wellformed:
  assumes "run (pair_step api) (PairingManager_new, reg) es (pm, reg')" "m_sessions pm c = Some s"
  shows "session_inv c s"
proof -
  have "pairing_inv PairingManager_new"
    by (simp add: pairing_inv_def PairingManager_new_def)
  then show ?thesis
    using pairing_machine.run_inv [OF assms(1)] assms(2) by (simp add: pairing_inv_def)
qed

section \<open>Where a session comes from\<close>

fun is_confirm :: "u64 \<Rightarrow> pair_op \<times> pair_out \<Rightarrow> bool" where
  "is_confirm c (OpPairConfirm _ d _, _) \<longleftrightarrow> d = c"
| "is_confirm c _ \<longleftrightarrow> False"

definition confirms :: "u64 \<Rightarrow> (pair_op \<times> pair_out) list \<Rightarrow> nat" where
  "confirms c es = length (filter (is_confirm c) es)"

text \<open>
  \<open>origin es c s\<close>: the history \<open>es\<close> has a pairing request of client \<open>c\<close> that was answered with a PIN
  prompt and created \<open>s\<close>, apart from the attempts counted since; while the session waits, they are the
  confirmations of \<open>c\<close> after that request.
\<close>

definition origin :: "(pair_op \<times> pair_out) list \<Rightarrow> u64 \<Rightarrow> PairingSession \<Rightarrow> bool" where
  "origin es c s \<longleftrightarrow> (\<exists>es1 env ip payload bs calls es2.
     es = es1 @ (OpPairRequest env c ip payload, Reply MT_PAIR_RESPONSE bs calls) # es2 \<and>
     s = (new_session c ip (ParsePairRequest payload) (GenerateSasPin (pe_draw env)) (pe_now env 1))
           \<lparr>ps_sasAttempts := ps_sasAttempts s, ps_state := ps_state s\<rparr> \<and>
     (ps_state s = PS_WAITING_FOR_SAS \<longrightarrow>
        ps_sasAttempts s = int (confirms c es2) \<and> ps_sasAttempts s < SAS_MAX_ATTEMPTS))"

lemma origin_extend:
  assumes "origin es c s"
    and "\<not> is_confirm c e \<or> ps_state s \<noteq> PS_WAITING_FOR_SAS"
  shows "origin (es @ [e]) c s"
  using assms unfolding origin_def
  by (elim exE conjE) (rule exI, rule exI, rule exI, rule exI, rule exI, rule exI, rule exI [of _ "_ @ [e]"],
      auto simp: confirms_def)

lemma origin_confirm:
  assumes "origin es c s" "is_confirm c e" "ps_state s = PS_WAITING_FOR_SAS"
    and "s' = s\<lparr>ps_sasAttempts := ps_sasAttempts s + 1,
             ps_state := (if ps_sasAttempts s + 1 \<ge> SAS_MAX_ATTEMPTS then PS_FAILED else ps_state s)\<rparr>"
  shows "origin (es @ [e]) c s'"
proof -
  obtain es1 env ip payload bs calls es2 where
    es: "es = es1 @ (OpPairRequest env c ip payload, Reply MT_PAIR_RESPONSE bs calls) # es2"
    and s: "s = (new_session c ip (ParsePairRequest payload) (GenerateSasPin (pe_draw env)) (pe_now env 1))
           \<lparr>ps_sasAttempts := ps_sasAttempts s, ps_state := ps_state s\<rparr>"
    and n: "ps_sasAttempts s = int (confirms c es2)"
    using assms(1,3) by (auto simp: origin_def)
  have "s' = (new_session c ip (ParsePairRequest payload) (GenerateSasPin (pe_draw env)) (pe_now env 1))
           \<lparr>ps_sasAttempts := ps_sasAttempts s', ps_state := ps_state s'\<rparr>"
    unfolding assms(4) by (subst (1) s) simp
  moreover have "ps_state s' = PS_WAITING_FOR_SAS \<Longrightarrow>
      ps_sasAttempts s' = int (confirms c (es2 @ [e])) \<and> ps_sasAttempts s' < SAS_MAX_ATTEMPTS"
    using n assms(2) unfolding assms(4) by (auto simp: confirms_def split: if_splits)
  moreover have "es @ [e] = es1 @ (OpPairRequest env c ip payload, Reply MT_PAIR_RESPONSE bs calls) # es2 @ [e]"
    by (simp add: es)
  ultimately show ?thesis
    unfolding origin_def by blast
qed

lemma session_origin:
  "run (pair_step api) (PairingManager_new, reg) es (pm, reg') \<Longrightarrow> m_sessions pm c = Some s \<Longrightarrow> origin es c s"
proof (induction es arbitrary: pm reg' s rule: rev_induct)
  case Nil
  then show ?case by (simp add: PairingManager_new_def)
next
  case (snoc e es)
  obtain op out where e: "e = (op, out)" by (cases e)
  obtain pm0 reg0 where run0: "run (pair_step api) (PairingManager_new, reg) es (pm0, reg0)"
    and step: "pair_step api (pm0, reg0) (op, out) (pm, reg')"
    using snoc.prems(1) by (auto simp: run_append e)
  show ?case
    using step snoc.prems(2)
  proof (cases rule: pair_step_sessions)
    case (kept s0)
    note o = snoc.IH [OF run0 kept(1)]
    show ?thesis
      using kept(2)
    proof (elim disjE conjE)
      assume "s = s0" "\<forall>env payload. op = OpPairConfirm env c payload \<longrightarrow> ps_state s0 \<noteq> PS_WAITING_FOR_SAS"
      then show ?thesis
        using origin_extend [OF o, of e] by (cases op) (auto simp: e)
    next
      assume "\<exists>env payload. op = OpPairConfirm env c payload" "ps_state s0 = PS_WAITING_FOR_SAS"
        "s = s0\<lparr>ps_sasAttempts := ps_sasAttempts s0 + 1,
             ps_state := (if ps_sasAttempts s0 + 1 \<ge> SAS_MAX_ATTEMPTS then PS_FAILED else ps_state s0)\<rparr>"
      then show ?thesis
        using origin_confirm [OF o, of e s] by (auto simp: e)
    qed
  next
    case (created env ip payload bs calls)
    then show ?thesis
      unfolding origin_def e
      by (intro exI [of _ es] exI [of _ env] exI [of _ ip] exI [of _ payload] exI [of _ bs] exI [of _ calls]
          exI [of _ "[]"]) (simp add: new_session_def confirms_def SAS_MAX_ATTEMPTS_def)
  qed
qed

lemma HandlePairConfirm_complete:
  assumes "pr_type (HandlePairConfirm api env c payload pm reg) = MT_PAIR_COMPLETE"
  obtains s where "m_sessions pm c = Some s" "ps_state s = PS_WAITING_FOR_SAS"
    "pcf_valid (ParsePairConfirm payload)"
    "ValidateSasPin (pe_now env 0) (pcf_sasPin (ParsePairConfirm payload)) (ps_sasPin s) (ps_sasGeneratedAt s) (ps_sasAttempts s)"
    "WriteDeviceRecord api (pairing_record env s) reg = (ERROR_SUCCESS, pr_reg (HandlePairConfirm api env c payload pm reg))"
proof -
  obtain s where s: "m_sessions pm c = Some s" "ps_state s = PS_WAITING_FOR_SAS" "pcf_valid (ParsePairConfirm payload)"
    "ValidateSasPin (pe_now env 0) (pcf_sasPin (ParsePairConfirm payload)) (ps_sasPin s) (ps_sasGeneratedAt s) (ps_sasAttempts s)"
    using assms by (auto simp: HandlePairConfirm_def Let_def split: option.splits if_splits)
  then have r: "HandlePairConfirm api env c payload pm reg = confirm_verified api env c s pm reg"
    by (simp add: HandlePairConfirm_def)
  with assms have "fst (WriteDeviceRecord api (pairing_record env s) reg) = ERROR_SUCCESS"
    by (simp split: if_splits)
  then have "WriteDeviceRecord api (pairing_record env s) reg = (ERROR_SUCCESS, pr_reg (HandlePairConfirm api env c payload pm reg))"
    unfolding r by (cases "WriteDeviceRecord api (pairing_record env s) reg") (simp add: confirm_verified_def Let_def)
  with s that show thesis by blast
qed

lemma confirm_payload:
  "pcf_valid (ParsePairConfirm payload) \<Longrightarrow>
   pcf_sasPin (ParsePairConfirm payload) = JsonGetString (string_of_bytes payload) ''sasPin''"
  by (auto simp: ParsePairConfirm_def Let_def split: if_splits)

text \<open>C3: a device is paired only by the PIN that was generated for it. If a confirmation of client \<open>c\<close> is
  answered with \<^verbatim>\<open>PAIR_COMPLETE\<close>, the history contains a pairing request of \<open>c\<close> whose generated PIN is the one
  confirmed; the clock has advanced at most 60 seconds since, fewer than three confirmations of \<open>c\<close> came
  in between, and the record written is the active record of the device that request named, with its key.\<close>

theorem pairing_needs_displayed_pin:
  assumes "run (pair_step api) (PairingManager_new, reg0) es (pm, reg)"
    and "pr_type (HandlePairConfirm api env c payload pm reg) = MT_PAIR_COMPLETE"
  shows "\<exists>es1 env0 ip req bs calls es2 s.
    es = es1 @ (OpPairRequest env0 c ip req, Reply MT_PAIR_RESPONSE bs calls) # es2 \<and>
    JsonGetString (string_of_bytes payload) ''sasPin'' = GenerateSasPin (pe_draw env0) \<and>
    unat (toU64 (pe_now env0 1)) \<le> unat (toU64 (pe_now env 0)) \<and>
    unat (toU64 (pe_now env 0)) - unat (toU64 (pe_now env0 1)) \<le> SAS_EXPIRY_SECONDS * 10 ^ 7 \<and>
    confirms c es2 < 3 \<and>
    m_sessions pm c = Some s \<and>
    ps_deviceId s = snd (DeviceIdFromString (prq_deviceId (ParsePairRequest req)) (replicate 16 0)) \<and>
    ps_clientPublicKey s = prq_publicKey (ParsePairRequest req) \<and>
    WriteDeviceRecord api (pairing_record env s) reg =
      (ERROR_SUCCESS, pr_reg (HandlePairConfirm api env c payload pm reg))"
proof -
  obtain s where s: "m_sessions pm c = Some s" "ps_state s = PS_WAITING_FOR_SAS"
    and valid: "pcf_valid (ParsePairConfirm payload)"
    and pin: "ValidateSasPin (pe_now env 0) (pcf_sasPin (ParsePairConfirm payload)) (ps_sasPin s) (ps_sasGeneratedAt s) (ps_sasAttempts s)"
    and wr: "WriteDeviceRecord api (pairing_record env s) reg =
      (ERROR_SUCCESS, pr_reg (HandlePairConfirm api env c payload pm reg))"
    by (rule HandlePairConfirm_complete [OF assms(2)])
  obtain es1 env0 ip req bs calls es2 where
    es: "es = es1 @ (OpPairRequest env0 c ip req, Reply MT_PAIR_RESPONSE bs calls) # es2"
    and new: "s = (new_session c ip (ParsePairRequest req) (GenerateSasPin (pe_draw env0)) (pe_now env0 1))
           \<lparr>ps_sasAttempts := ps_sasAttempts s, ps_state := ps_state s\<rparr>"
    and n: "ps_sasAttempts s = int (confirms c es2)" "ps_sasAttempts s < SAS_MAX_ATTEMPTS"
    using session_origin [OF assms(1) s(1)] s(2) by (auto simp: origin_def)
  have fields: "ps_sasPin s = GenerateSasPin (pe_draw env0)" "ps_sasGeneratedAt s = pe_now env0 1"
    "ps_deviceId s = snd (DeviceIdFromString (prq_deviceId (ParsePairRequest req)) (replicate 16 0))"
    "ps_clientPublicKey s = prq_publicKey (ParsePairRequest req)"
    by (subst new, simp add: new_session_def)+
  have few: "confirms c es2 < 3"
    using n by (simp add: SAS_MAX_ATTEMPTS_def)
  from pin [unfolded ValidateSasPin_iff] es few s(1) fields wr confirm_payload [OF valid]
  show ?thesis by metis
qed

section \<open>A concrete pairing\<close>

definition demo_env :: pair_env where
  "demo_env = \<lparr>pe_now = (\<lambda>_. \<lparr>dwLowDateTime = 1000, dwHighDateTime = 30000000\<rparr>), pe_draw = (\<lambda>_. Some 7000042),
     pe_token = \<lparr>tk_open = False, tk_size = 0, tk_user = None, tk_convert = None\<rparr>, pe_hostname = None\<rparr>"

definition demo_request :: bytes where
  "demo_request = bytes_of_string ''{\"deviceId\":\"01020304-0506-0708-090a-0b0c0d0e0f10\",\"deviceName\":\"Pixel\",\"publicKey\":\"04aa\"}''"

definition demo_confirm :: bytes where
  "demo_confirm = bytes_of_string ''{\"deviceId\":\"01020304-0506-0708-090a-0b0c0d0e0f10\",\"sasPin\":\"000042\"}''"

definition demo_requested :: "sim_world pair_result" where
  "demo_requested = the (HandlePairRequest sim_api demo_env 1 ''10.0.0.2'' demo_request PairingManager_new sample_state)"

lemma demo_requested:
  "HandlePairRequest sim_api demo_env 1 ''10.0.0.2'' demo_request PairingManager_new sample_state = Some demo_requested"
  "pr_type demo_requested = MT_PAIR_RESPONSE"
proof -
  have "prq_valid (ParsePairRequest demo_request)" "GenerateSasPin (pe_draw demo_env) \<noteq> []"
    by code_simp+
  moreover have "IsDeviceActive sim_api sample_state d = Some False" for d
    by (simp add: IsDeviceActive_def ReadDeviceRecord_def sim_api_def sample_state_def win32_consts)
  moreover have "\<not> IsRateLimited now (ClearSession 1 PairingManager_new) d" for now d
    by (simp add: IsRateLimited_def PairingManager_new_def)
  moreover have "account_limit_reached sim_api sample_state (ResolveCurrentAccountSid (pe_token demo_env)) = Some False"
    by (simp add: account_limit_reached_def ResolveCurrentAccountSid_def demo_env_def)
  ultimately obtain r where "HandlePairRequest sim_api demo_env 1 ''10.0.0.2'' demo_request PairingManager_new sample_state = Some r"
      "pr_type r = MT_PAIR_RESPONSE"
    by (simp add: HandlePairRequest_def Let_def)
  then show "HandlePairRequest sim_api demo_env 1 ''10.0.0.2'' demo_request PairingManager_new sample_state = Some demo_requested"
      "pr_type demo_requested = MT_PAIR_RESPONSE"
    by (simp_all add: demo_requested_def)
qed

lemma demo_confirmed:
  "pr_type (HandlePairConfirm sim_api demo_env 1 demo_confirm (pr_pm demo_requested) (pr_reg demo_requested)) = MT_PAIR_COMPLETE"
proof -
  let ?s = "new_session 1 ''10.0.0.2'' (ParsePairRequest demo_request) (GenerateSasPin (pe_draw demo_env)) (pe_now demo_env 1)"
  have s: "m_sessions (pr_pm demo_requested) 1 = Some ?s"
    using HandlePairRequest_sessions(1) [OF demo_requested(1)] demo_requested(2) by simp
  have "pcf_valid (ParsePairConfirm demo_confirm)" "pcf_sasPin (ParsePairConfirm demo_confirm) = ''000042''"
    "GenerateSasPin (pe_draw demo_env) = ''000042''" "IsValidPinFormat ''000042''"
    by code_simp+
  then have "HandlePairConfirm sim_api demo_env 1 demo_confirm (pr_pm demo_requested) (pr_reg demo_requested) =
      confirm_verified sim_api demo_env 1 ?s (pr_pm demo_requested) (pr_reg demo_requested)"
    by (simp add: HandlePairConfirm_def s new_session_def ValidateSasPin_iff demo_env_def SAS_MAX_ATTEMPTS_def)
  then show ?thesis
    by (simp add: sim_write)
qed

lemma demo_run:
  "run (pair_step sim_api) (PairingManager_new, sample_state)
     [(OpPairRequest demo_env 1 ''10.0.0.2'' demo_request, Reply MT_PAIR_RESPONSE (pr_bytes demo_requested) (pr_calls demo_requested))]
     (pr_pm demo_requested, pr_reg demo_requested)"
  by (simp add: pair_step_def demo_requested pair_reply_def)

theorem pairing_needs_displayed_pin_witness:
  "JsonGetString (string_of_bytes demo_confirm) ''sasPin'' = GenerateSasPin (pe_draw demo_env) \<and>
   (\<exists>s. m_sessions (pr_pm demo_requested) 1 = Some s \<and>
      ps_clientPublicKey s = prq_publicKey (ParsePairRequest demo_request))"
  using pairing_needs_displayed_pin [OF demo_run demo_confirmed]
  by (auto simp: Cons_eq_append_conv)

theorem pairing_sessions_wellformed_witness:
  "\<exists>s. m_sessions (pr_pm demo_requested) 1 = Some s \<and> session_inv 1 s"
proof -
  obtain s where "m_sessions (pr_pm demo_requested) 1 = Some s"
    using HandlePairRequest_sessions(1) [OF demo_requested(1)] demo_requested(2) by simp
  with pairing_sessions_wellformed [OF demo_run this] show ?thesis by blast
qed

section \<open>The rate limiter\<close>

text \<open>The rate limiter blocks a device exactly while at least five failures are recorded and the clock
  has not passed 60 seconds beyond the first of them. Recording a failure keeps the time of the first one,
  so once that minute is over no number of further failures blocks the device again.\<close>

theorem pairing_limiter_window:
  "(IsRateLimited now pm d \<longleftrightarrow>
     (\<exists>n win. m_rateLimitMap pm d = Some (n, win) \<and> 5 \<le> n \<and> toU64 now - toU64 win \<le> 600000000)) \<and>
   (m_rateLimitMap pm d = Some (n, win) \<and> 600000000 < toU64 now - toU64 win \<longrightarrow>
     \<not> IsRateLimited now (((\<lambda>pm. RecordFailedAttempt t d pm) ^^ k) pm) d)"
proof
  show "IsRateLimited now pm d \<longleftrightarrow>
     (\<exists>n win. m_rateLimitMap pm d = Some (n, win) \<and> 5 \<le> n \<and> toU64 now - toU64 win \<le> 600000000)"
    by (auto simp: IsRateLimited_def not_less split: option.splits)
  have "m_rateLimitMap pm d = Some (n, win) \<Longrightarrow>
      \<exists>n'. m_rateLimitMap (((\<lambda>pm. RecordFailedAttempt t d pm) ^^ k) pm) d = Some (n', win)"
    by (induction k) (auto simp: RecordFailedAttempt_def)
  then show "m_rateLimitMap pm d = Some (n, win) \<and> 600000000 < toU64 now - toU64 win \<longrightarrow>
     \<not> IsRateLimited now (((\<lambda>pm. RecordFailedAttempt t d pm) ^^ k) pm) d"
    by (auto simp: IsRateLimited_def)
qed

theorem pairing_limiter_window_witness:
  "\<not> IsRateLimited (ofU64 700000000)
     (((\<lambda>pm. RecordFailedAttempt (ofU64 1) ''a'' pm) ^^ 9) (RecordFailedAttempt (ofU64 1) ''a'' PairingManager_new)) ''a''"
proof -
  let ?pm = "RecordFailedAttempt (ofU64 1) ''a'' PairingManager_new"
  have "m_rateLimitMap ?pm ''a'' = Some (1, ofU64 1) \<and> 600000000 < toU64 (ofU64 700000000) - toU64 (ofU64 1)"
    by (simp add: RecordFailedAttempt_def PairingManager_new_def)
  then show ?thesis
    using pairing_limiter_window [of "ofU64 700000000" ?pm "''a''" 1 "ofU64 1" 9 "ofU64 1"] by blast
qed

section \<open>Payload round trips\<close>

lemma takeWhile_quote: "CHR 0x22 \<notin> set v \<Longrightarrow> takeWhile (\<lambda>c. c \<noteq> CHR 0x22) (v @ CHR 0x22 # r) = v"
  by (induction v) auto

lemma hex_to_bytes_loop_print:
  "hex_to_bytes_loop (p @ concat (map print_02x bs)) (length p) acc = acc @ bs"
proof (induction bs arbitrary: p acc)
  case Nil
  then show ?case by (subst hex_to_bytes_loop.simps) simp
next
  case (Cons b bs)
  have "ucast (ucast b :: u32) = b"
    by (rule bit_word_eqI) (simp add: bit_ucast_iff)
  with Cons [of "p @ print_02x b" "acc @ [b]"] show ?case
    by (subst hex_to_bytes_loop.simps) simp
qed

text \<open>The text fields of the built payloads are read back by the parser's JSON lookup, for values without a
  quotation mark, and the hexadecimal form of a key is decoded to the key.\<close>

theorem pairing_payload_roundtrip:
  assumes "CHR 0x22 \<notin> set v"
  shows "JsonGetString (string_of_bytes (BuildPairComplete v)) ''deviceId'' = v \<and>
    JsonGetString (string_of_bytes (BuildPairComplete v)) ''status'' = ''PAIRED'' \<and>
    JsonGetString (string_of_bytes (BuildPairResponse v)) ''serverName'' = v \<and>
    JsonGetString (string_of_bytes (BuildUnpairResponse ok v)) ''deviceId'' = v \<and>
    JsonGetString (string_of_bytes (BuildUnpairResponse ok v)) ''status'' = (if ok then ''UNPAIRED'' else ''ERROR'') \<and>
    HexToBytes (concat (map print_02x bs)) = bs"
proof (intro conjI)
  have "even (length (concat (map print_02x bs)))"
    by (induction bs) simp_all
  then show "HexToBytes (concat (map print_02x bs)) = bs"
    using hex_to_bytes_loop_print [of "[]" bs "[]"] by (simp add: HexToBytes_def even_iff_mod_2_eq_zero)
qed (use takeWhile_quote [OF assms, of "''}''"] in
    \<open>simp_all add: JsonGetString_def str_find_def BuildPairComplete_def BuildPairResponse_def BuildUnpairResponse_def\<close>)

theorem pairing_payload_roundtrip_witness:
  "JsonGetString (string_of_bytes (BuildPairComplete ''ab'')) ''deviceId'' = ''ab'' \<and>
   HexToBytes (concat (map print_02x [4, 255])) = [4, 255]"
  using pairing_payload_roundtrip [of "''ab''" True "[4, 255]"] by simp

end
