(* ===== verification/Crypto.thy ===== *)
theory Crypto
  imports Protocol
begin

text \<open>
  \<^verbatim>\<open>windows/crypto/CryptoManager.h/.cpp\<close>: the lifetime of the CNG provider handles, hashing, random bytes,
  the normalization of public keys to the 72-byte CNG blob with the hand-written DER parser, and
  signature verification. \<^verbatim>\<open>bcrypt.dll\<close> is the argument \<open>cng\<close>. The parser computes its offsets in 32-bit
  \<^verbatim>\<open>size_t\<close>, and \<open>Oob\<close> is the outcome of a read past the end of its buffer. The two helpers that only the
  tests call (key generation and signing) are at the end of the operations.
\<close>

section \<open>The CNG interface and the manager's state\<close>

definition BCRYPT_SUCCESS :: "u32 \<Rightarrow> bool" where
  "BCRYPT_SUCCESS status \<longleftrightarrow> 0 \<le> sint status"

definition P256_COORDINATE_SIZE :: nat where "P256_COORDINATE_SIZE = 32"
definition P256_RAW_POINT_SIZE :: nat where "P256_RAW_POINT_SIZE = 65"
definition P256_RAW_COORDS_SIZE :: nat where "P256_RAW_COORDS_SIZE = 64"
definition BCRYPT_ECC_BLOB_SIZE :: nat where "BCRYPT_ECC_BLOB_SIZE = 72"
definition P1363_SIGNATURE_SIZE :: nat where "P1363_SIGNATURE_SIZE = 64"
definition SHA256_DIGEST_SIZE :: nat where "SHA256_DIGEST_SIZE = 32"
definition BCRYPT_ECDSA_PUBLIC_P256_MAGIC :: u32 where "BCRYPT_ECDSA_PUBLIC_P256_MAGIC = 0x31534345"

lemmas crypto_consts [model_defs] =
  P256_COORDINATE_SIZE_def P256_RAW_POINT_SIZE_def P256_RAW_COORDS_SIZE_def BCRYPT_ECC_BLOB_SIZE_def
  P1363_SIGNATURE_SIZE_def SHA256_DIGEST_SIZE_def BCRYPT_ECDSA_PUBLIC_P256_MAGIC_def

datatype algorithm = ALG_ECDSA_P256 | ALG_SHA256 | ALG_RNG

text \<open>
  Handles are numbers, 0 the null handle. \<open>bc_procs n\<close> tells whether \<^verbatim>\<open>GetProcAddress\<close> finds the function
  \<open>n\<close>; the other members are the calls, each with the status it returns and what it delivers.
\<close>

record cng_api =
  bc_dll :: bool
  bc_procs :: "string \<Rightarrow> bool"
  bc_open :: "algorithm \<Rightarrow> u32 \<times> nat"
  bc_random :: "nat \<Rightarrow> nat \<Rightarrow> u32 \<times> bytes"
  bc_create_hash :: "nat \<Rightarrow> u32"
  bc_hash_data :: "bytes \<Rightarrow> u32"
  bc_finish_hash :: "bytes \<Rightarrow> u32 \<times> bytes"
  bc_import :: "nat \<Rightarrow> bytes \<Rightarrow> u32 \<times> nat"
  bc_verify :: "nat \<Rightarrow> bytes \<Rightarrow> bytes \<Rightarrow> u32"

text \<open>The statics of the class; \<open>cs_live_keys\<close> counts the imported key handles that are not yet destroyed.\<close>

record crypto_state =
  s_hBcryptDll :: bool
  cs_fn :: "string \<Rightarrow> bool"
  s_hEcdsaAlg :: nat
  s_hSha256Alg :: nat
  s_hRngAlg :: nat
  s_initialized :: bool
  cs_live_keys :: int

definition crypto_state_init :: crypto_state where
  "crypto_state_init = \<lparr>s_hBcryptDll = False, cs_fn = (\<lambda>_. False), s_hEcdsaAlg = 0, s_hSha256Alg = 0,
     s_hRngAlg = 0, s_initialized = False, cs_live_keys = 0\<rparr>"

definition required_procs :: "string list" where
  "required_procs = [''BCryptOpenAlgorithmProvider'', ''BCryptCloseAlgorithmProvider'', ''BCryptGenRandom'',
     ''BCryptCreateHash'', ''BCryptHashData'', ''BCryptFinishHash'', ''BCryptDestroyHash'',
     ''BCryptImportKeyPair'', ''BCryptDestroyKey'', ''BCryptVerifySignature'']"

definition LoadBcryptFunctions :: "cng_api \<Rightarrow> crypto_state \<Rightarrow> bool \<times> crypto_state" where
  "LoadBcryptFunctions cng st =
     (if \<not> s_hBcryptDll st \<and> \<not> bc_dll cng then (False, st)
      else
        let st = st\<lparr>s_hBcryptDll := True, cs_fn := bc_procs cng\<rparr>
        in (list_all (cs_fn st) required_procs, st))"

definition Shutdown :: "crypto_state \<Rightarrow> crypto_state" where
  "Shutdown st =
     (let close = cs_fn st ''BCryptCloseAlgorithmProvider'';
          st = (if s_hEcdsaAlg st \<noteq> 0 \<and> close then st\<lparr>s_hEcdsaAlg := 0\<rparr> else st);
          st = (if s_hSha256Alg st \<noteq> 0 \<and> close then st\<lparr>s_hSha256Alg := 0\<rparr> else st);
          st = (if s_hRngAlg st \<noteq> 0 \<and> close then st\<lparr>s_hRngAlg := 0\<rparr> else st);
          st = (if s_hBcryptDll st then st\<lparr>s_hBcryptDll := False\<rparr> else st)
      in st\<lparr>s_initialized := False\<rparr>)"

text \<open>On failure an open call leaves the handle variable as it was.\<close>

definition Initialize :: "cng_api \<Rightarrow> crypto_state \<Rightarrow> bool \<times> crypto_state" where
  "Initialize cng st =
     (if s_initialized st then (True, st)
      else
        let (loaded, st) = LoadBcryptFunctions cng st in
        if \<not> loaded then (False, st)
        else
          let (status, h) = bc_open cng ALG_ECDSA_P256 in
          if \<not> BCRYPT_SUCCESS status then (False, Shutdown st)
          else
            let st = st\<lparr>s_hEcdsaAlg := h\<rparr>;
                (status, h) = bc_open cng ALG_SHA256 in
            if \<not> BCRYPT_SUCCESS status then (False, Shutdown st)
            else
              let st = st\<lparr>s_hSha256Alg := h\<rparr>;
                  (status, h) = bc_open cng ALG_RNG in
              if \<not> BCRYPT_SUCCESS status then (False, Shutdown st)
              else (True, st\<lparr>s_hRngAlg := h, s_initialized := True\<rparr>))"

definition IsInitialized :: "crypto_state \<Rightarrow> bool" where
  "IsInitialized st = s_initialized st"

text \<open>\<^verbatim>\<open>if (!s_initialized && !Initialize()) return false;\<close>\<close>

definition ensure_init :: "cng_api \<Rightarrow> crypto_state \<Rightarrow> bool \<times> crypto_state" where
  "ensure_init cng st = (if s_initialized st then (True, st) else Initialize cng st)"

definition GenerateRandomBytes :: "cng_api \<Rightarrow> nat \<Rightarrow> crypto_state \<Rightarrow> bytes option \<times> crypto_state" where
  "GenerateRandomBytes cng len st =
     (if len = 0 then (None, st)
      else
        let (ok, st) = ensure_init cng st in
        if \<not> ok then (None, st)
        else
          let (status, buffer) = bc_random cng (s_hRngAlg st) len
          in (if BCRYPT_SUCCESS status then Some buffer else None, st))"

definition ComputeSha256 :: "cng_api \<Rightarrow> bytes \<Rightarrow> crypto_state \<Rightarrow> bytes option \<times> crypto_state" where
  "ComputeSha256 cng data st =
     (let (ok, st) = ensure_init cng st in
      if \<not> ok then (None, st)
      else if \<not> BCRYPT_SUCCESS (bc_create_hash cng (s_hSha256Alg st)) then (None, st)
      else if data \<noteq> [] \<and> \<not> BCRYPT_SUCCESS (bc_hash_data cng data) then (None, st)
      else
        let (status, digest) = bc_finish_hash cng data
        in (if BCRYPT_SUCCESS status then Some digest else None, st))"

section \<open>Public keys\<close>

datatype 'a der = Oob | Reject | Accept 'a

fun der_bind :: "'a der \<Rightarrow> ('a \<Rightarrow> 'b der) \<Rightarrow> 'b der" where
  "der_bind Oob f = Oob"
| "der_bind Reject f = Reject"
| "der_bind (Accept a) f = f a"

definition der_at :: "bytes \<Rightarrow> size_t \<Rightarrow> u8 der" where
  "der_at der offset = (if unat offset < length der then Accept (der ! unat offset) else Oob)"

definition der_check :: "bool \<Rightarrow> 'a der \<Rightarrow> 'a der" where
  "der_check b r = (if b then r else Reject)"

text \<open>The bytes of a long-form length, accumulated in a \<^verbatim>\<open>size_t\<close>.\<close>

fun der_len_bytes :: "bytes \<Rightarrow> nat \<Rightarrow> size_t \<Rightarrow> size_t \<Rightarrow> (size_t \<times> size_t) der" where
  "der_len_bytes der 0 len offset = Accept (len, offset)"
| "der_len_bytes der (Suc n) len offset =
     der_bind (der_at der offset) (\<lambda>b. der_len_bytes der n (push_bit 8 len OR ucast b) (offset + 1))"

definition der_length :: "bytes \<Rightarrow> size_t \<Rightarrow> (size_t \<times> size_t) der" where
  "der_length der offset =
     der_bind (der_at der offset) (\<lambda>b.
       if b AND 0x80 \<noteq> 0 then
         let numLenBytes = b AND 0x7F; offset = offset + 1 in
         der_check (\<not> offset + ucast numLenBytes > of_nat (length der))
           (der_len_bytes der (unat numLenBytes) 0 offset)
       else Accept (ucast b, offset + 1))"

definition skip_root_length :: "bytes \<Rightarrow> size_t \<Rightarrow> size_t der" where
  "skip_root_length der offset =
     der_bind (der_at der offset) (\<lambda>b.
       if b AND 0x80 \<noteq> 0 then
         let numLenBytes = b AND 0x7F; offset = offset + 1 in
         der_check (\<not> offset + ucast numLenBytes > of_nat (length der)) (Accept (offset + ucast numLenBytes))
       else Accept (offset + 1))"

definition parse_bit_string :: "bytes \<Rightarrow> size_t \<Rightarrow> (bytes \<times> bytes) der" where
  "parse_bit_string der offset =
     (let derLen = of_nat (length der) :: size_t in
      der_bind (der_at der offset) (\<lambda>tag.
      der_check (tag = 0x03) (
      let offset = offset + 1 in
      der_check (\<not> offset \<ge> derLen) (
      der_bind (der_length der offset) (\<lambda>(bitStrLen, offset).
      der_check (\<not> (offset + bitStrLen > derLen \<or> bitStrLen < 66)) (
      der_bind (der_at der offset) (\<lambda>unusedBits.
      der_check (unusedBits = 0x00) (
      der_bind (der_at der (offset + 1)) (\<lambda>pointFormat.
      der_check (pointFormat = 0x04) (
      let offset = offset + 2 in
      der_check (\<not> offset + 64 > derLen) (
      Accept (take 32 (drop (unat offset) der), take 32 (drop (unat offset + 32) der)))))))))))))"

definition ParseSpkiDer :: "bytes \<Rightarrow> (bytes \<times> bytes) der" where
  "ParseSpkiDer der =
     (let derLen = of_nat (length der) :: size_t in
      der_check (\<not> derLen < 30) (
      der_bind (der_at der 0) (\<lambda>root.
      der_check (root = 0x30) (
      der_check (\<not> 1 \<ge> derLen) (
      der_bind (skip_root_length der 1) (\<lambda>offset.
      der_check (\<not> offset \<ge> derLen) (
      der_bind (der_at der offset) (\<lambda>tag.
      der_check (tag = 0x30) (
      der_bind (der_length der (offset + 1)) (\<lambda>(algSeqLen, offset).
      let offset = offset + algSeqLen in
      der_check (\<not> offset \<ge> derLen) (
      parse_bit_string der offset)))))))))))"

text \<open>The blob header \<^verbatim>\<open>{dwMagic, cbKey}\<close> in memory, followed by the coordinates.\<close>

definition ecc_blob :: "bytes \<Rightarrow> bytes" where
  "ecc_blob xy = to_le 4 BCRYPT_ECDSA_PUBLIC_P256_MAGIC @ to_le 4 (32 :: u32) @ xy"

definition NormalizePublicKeyToEccBlob :: "bytes \<Rightarrow> bytes der" where
  "NormalizePublicKeyToEccBlob inputKey =
     (if inputKey = [] then Reject
      else if length inputKey = BCRYPT_ECC_BLOB_SIZE \<and>
        (from_le (take 4 inputKey) :: u32) = BCRYPT_ECDSA_PUBLIC_P256_MAGIC \<and>
        (from_le (take 4 (drop 4 inputKey)) :: u32) = of_nat P256_COORDINATE_SIZE
      then Accept inputKey
      else if length inputKey = P256_RAW_COORDS_SIZE then Accept (ecc_blob inputKey)
      else if length inputKey = P256_RAW_POINT_SIZE \<and> inputKey ! 0 = 0x04
      then Accept (ecc_blob (take P256_RAW_COORDS_SIZE (drop 1 inputKey)))
      else if inputKey ! 0 = 0x30
      then der_bind (ParseSpkiDer inputKey) (\<lambda>(x, y). Accept (ecc_blob (x @ y)))
      else Reject)"

section \<open>Signatures\<close>

definition ImportPublicKey :: "cng_api \<Rightarrow> bytes \<Rightarrow> crypto_state \<Rightarrow> nat der \<times> crypto_state" where
  "ImportPublicKey cng inputKey st =
     (let (ok, st) = ensure_init cng st in
      if \<not> ok then (Reject, st)
      else (case NormalizePublicKeyToEccBlob inputKey of
          Oob \<Rightarrow> (Oob, st)
        | Reject \<Rightarrow> (Reject, st)
        | Accept eccBlob \<Rightarrow>
            let (status, hKey) = bc_import cng (s_hEcdsaAlg st) eccBlob
            in if BCRYPT_SUCCESS status then (Accept hKey, st\<lparr>cs_live_keys := cs_live_keys st + 1\<rparr>) else (Reject, st)))"

definition DestroyKey :: "nat \<Rightarrow> crypto_state \<Rightarrow> crypto_state" where
  "DestroyKey hKey st =
     (if hKey \<noteq> 0 \<and> cs_fn st ''BCryptDestroyKey'' then st\<lparr>cs_live_keys := cs_live_keys st - 1\<rparr> else st)"

definition ValidateAndAdaptSignature :: "bytes \<Rightarrow> bytes option" where
  "ValidateAndAdaptSignature signature =
     (if length signature \<noteq> P1363_SIGNATURE_SIZE then None
      else if \<not> list_ex (\<lambda>b. b \<noteq> 0) (take P256_COORDINATE_SIZE signature) then None
      else if \<not> list_ex (\<lambda>b. b \<noteq> 0) (drop P256_COORDINATE_SIZE signature) then None
      else Some signature)"

definition VerifySignature :: "cng_api \<Rightarrow> nat \<Rightarrow> bytes \<Rightarrow> bytes \<Rightarrow> crypto_state \<Rightarrow> bool \<times> crypto_state" where
  "VerifySignature cng hKey message signature st =
     (if hKey = 0 \<or> message = [] \<or> length signature \<noteq> P1363_SIGNATURE_SIZE then (False, st)
      else
        let (digest, st) = ComputeSha256 cng message st in
        (case digest of
           None \<Rightarrow> (False, st)
         | Some d \<Rightarrow>
             (case ValidateAndAdaptSignature signature of
                None \<Rightarrow> (False, st)
              | Some adaptedSig \<Rightarrow> (BCRYPT_SUCCESS (bc_verify cng hKey d adaptedSig), st))))"

text \<open>\<open>None\<close>: the key parser reads out of bounds.\<close>

definition VerifyCanonicalSignedMessage ::
  "cng_api \<Rightarrow> bytes \<Rightarrow> SignedMessage \<Rightarrow> bytes \<Rightarrow> crypto_state \<Rightarrow> (bool \<times> crypto_state) option" where
  "VerifyCanonicalSignedMessage cng publicKey msg signature st =
     (let (imported, st) = ImportPublicKey cng publicKey st in
      case imported of
        Oob \<Rightarrow> None
      | Reject \<Rightarrow> Some (False, st)
      | Accept hKey \<Rightarrow>
          let serializedMsg = SerializeSignedMessage msg in
          if length serializedMsg \<noteq> CANONICAL_SIGNED_MESSAGE_SIZE then Some (False, DestroyKey hKey st)
          else
            let (valid, st) = VerifySignature cng hKey serializedMsg signature st
            in Some (valid, DestroyKey hKey st))"

section \<open>Keys for tests\<close>

text \<open>
  The calls of CNG that only the test helpers use; the queries for a length and the calls that fill a buffer are separate. A call
  that fills a buffer of \<open>n\<close> bytes with \<open>bs\<close> leaves its other bytes, which \<^verbatim>\<open>resize\<close> set to zero.
\<close>

record key_api =
  ka_generate :: "nat \<Rightarrow> u32 \<times> nat"
  ka_finalize :: "nat \<Rightarrow> u32"
  ka_export_size :: "nat \<Rightarrow> u32 \<times> nat"
  ka_export :: "nat \<Rightarrow> u32 \<times> bytes"
  ka_sign_size :: "nat \<Rightarrow> bytes \<Rightarrow> u32 \<times> nat"
  ka_sign :: "nat \<Rightarrow> bytes \<Rightarrow> u32 \<times> bytes"

definition resized_with :: "nat \<Rightarrow> bytes \<Rightarrow> bytes" where
  "resized_with n bs = take n bs @ replicate (n - length bs) 0"

text \<open>The results are the return value, \<^verbatim>\<open>*phPrivKey\<close> and \<^verbatim>\<open>outPubBlob\<close>; \<open>nonnull\<close> says that \<^verbatim>\<open>phPrivKey\<close> is a pointer.\<close>

definition GenerateTestKeyPair ::
  "cng_api \<Rightarrow> key_api \<Rightarrow> bool \<Rightarrow> bytes \<Rightarrow> crypto_state \<Rightarrow> (bool \<times> nat \<times> bytes) \<times> crypto_state" where
  "GenerateTestKeyPair cng ka nonnull outPubBlob st =
     (if \<not> nonnull then ((False, 0, outPubBlob), st)
      else
        let (ok, st) = ensure_init cng st in
        if \<not> ok then ((False, 0, outPubBlob), st)
        else if \<not> cs_fn st ''BCryptGenerateKeyPair'' \<or> \<not> cs_fn st ''BCryptFinalizeKeyPair'' \<or> \<not> cs_fn st ''BCryptExportKey''
        then ((False, 0, outPubBlob), st)
        else
          let (status, hPrivKey) = ka_generate ka (s_hEcdsaAlg st) in
          if \<not> BCRYPT_SUCCESS status then ((False, 0, outPubBlob), st)
          else
            let st = st\<lparr>cs_live_keys := cs_live_keys st + 1\<rparr> in
            if \<not> BCRYPT_SUCCESS (ka_finalize ka hPrivKey) then ((False, 0, outPubBlob), DestroyKey hPrivKey st)
            else
              let (status, blobLen) = ka_export_size ka hPrivKey in
              if \<not> BCRYPT_SUCCESS status \<or> blobLen \<noteq> BCRYPT_ECC_BLOB_SIZE then ((False, 0, outPubBlob), DestroyKey hPrivKey st)
              else
                let (status, blob) = ka_export ka hPrivKey;
                    outPubBlob = resized_with blobLen blob in
                if \<not> BCRYPT_SUCCESS status then ((False, 0, outPubBlob), DestroyKey hPrivKey st)
                else ((True, hPrivKey, outPubBlob), st))"

definition SignHashForTesting :: "key_api \<Rightarrow> nat \<Rightarrow> bytes option \<Rightarrow> bytes \<Rightarrow> crypto_state \<Rightarrow> bool \<times> bytes" where
  "SignHashForTesting ka hPrivKey hash outSig st =
     (case hash of
        None \<Rightarrow> (False, outSig)
      | Some d \<Rightarrow>
          if hPrivKey = 0 \<or> d = [] \<or> \<not> cs_fn st ''BCryptSignHash'' then (False, outSig)
          else
            let (status, sigLen) = ka_sign_size ka hPrivKey d in
            if \<not> BCRYPT_SUCCESS status \<or> sigLen \<noteq> P1363_SIGNATURE_SIZE then (False, outSig)
            else
              let (status, sig) = ka_sign ka hPrivKey d
              in (BCRYPT_SUCCESS status, resized_with sigLen sig))"

section \<open>Provider handles\<close>

text \<open>Initialized means: every required function is loaded; not initialized means: no provider is open.\<close>

definition crypto_inv :: "crypto_state \<Rightarrow> bool" where
  "crypto_inv st \<longleftrightarrow>
     (if s_initialized st then s_hBcryptDll st \<and> list_all (cs_fn st) required_procs
      else s_hEcdsaAlg st = 0 \<and> s_hSha256Alg st = 0 \<and> s_hRngAlg st = 0)"

lemma crypto_inv_init: "crypto_inv crypto_state_init"
  by (simp add: crypto_inv_def crypto_state_init_def)

lemma required_close: "list_all f required_procs \<Longrightarrow> f ''BCryptCloseAlgorithmProvider''"
  and required_destroy: "list_all f required_procs \<Longrightarrow> f ''BCryptDestroyKey''"
  by (simp_all add: required_procs_def)

lemma Shutdown_closed:
  "cs_fn st ''BCryptCloseAlgorithmProvider'' \<Longrightarrow> crypto_inv (Shutdown st) \<and> \<not> s_initialized (Shutdown st)"
  by (simp add: Shutdown_def crypto_inv_def Let_def)

lemma Shutdown_live_keys [simp]: "cs_live_keys (Shutdown st) = cs_live_keys st"
  by (simp add: Shutdown_def Let_def)

lemma Initialize_inv:
  assumes "crypto_inv st" "Initialize cng st = (ok, st')"
  shows "crypto_inv st'" "ok \<longleftrightarrow> s_initialized st'" "cs_live_keys st' = cs_live_keys st"
proof -
  have "crypto_inv st' \<and> (ok \<longleftrightarrow> s_initialized st') \<and> cs_live_keys st' = cs_live_keys st"
  proof (cases "s_initialized st")
    case True
    with assms show ?thesis by (simp add: Initialize_def)
  next
    case False
    show ?thesis
    proof (cases "(s_hBcryptDll st \<or> bc_dll cng) \<and> list_all (bc_procs cng) required_procs")
      case True
      obtain a h b i c j where op: "bc_open cng ALG_ECDSA_P256 = (a, h)" "bc_open cng ALG_SHA256 = (b, i)"
          "bc_open cng ALG_RNG = (c, j)"
        by fastforce
      have sh: "cs_fn s = bc_procs cng \<Longrightarrow> crypto_inv (Shutdown s) \<and> \<not> s_initialized (Shutdown s)" for s
        using Shutdown_closed [of s] required_close [of "bc_procs cng"] True by simp
      from True False assms(2) show ?thesis
        by (auto simp: Initialize_def LoadBcryptFunctions_def op Let_def crypto_inv_def [of "_\<lparr>s_initialized := True\<rparr>"]
            sh split: if_splits)
    next
      case no: False
      with False assms show ?thesis
        by (auto simp: Initialize_def LoadBcryptFunctions_def Let_def crypto_inv_def split: if_splits)
    qed
  qed
  then show "crypto_inv st'" "ok \<longleftrightarrow> s_initialized st'" "cs_live_keys st' = cs_live_keys st"
    by blast+
qed

lemma ensure_init_inv:
  assumes "crypto_inv st" "ensure_init cng st = (ok, st')"
  shows "crypto_inv st'" "ok \<longleftrightarrow> s_initialized st'" "cs_live_keys st' = cs_live_keys st"
  using assms Initialize_inv [OF assms(1)] by (auto simp: ensure_init_def split: if_splits)

lemma GenerateRandomBytes_inv:
  assumes "crypto_inv st" "GenerateRandomBytes cng n st = (r, st')"
  shows "crypto_inv st' \<and> cs_live_keys st' = cs_live_keys st"
proof -
  obtain ok st1 where e: "ensure_init cng st = (ok, st1)" by fastforce
  show ?thesis
    using assms ensure_init_inv [OF assms(1) e] by (auto simp: GenerateRandomBytes_def e split: if_splits prod.splits)
qed

lemma ComputeSha256_inv:
  assumes "crypto_inv st" "ComputeSha256 cng d st = (r, st')"
  shows "crypto_inv st' \<and> cs_live_keys st' = cs_live_keys st \<and> (s_initialized st \<longrightarrow> st' = st)"
proof -
  obtain ok st1 where e: "ensure_init cng st = (ok, st1)" by fastforce
  have "st' = st1"
    using assms(2) by (auto simp: ComputeSha256_def e split: if_splits prod.splits)
  then show ?thesis
    using e ensure_init_inv [OF assms(1) e] by (auto simp: ensure_init_def)
qed

lemma VerifySignature_inv:
  assumes "crypto_inv st" "VerifySignature cng h m sig st = (r, st')"
  shows "crypto_inv st' \<and> cs_live_keys st' = cs_live_keys st \<and> (s_initialized st \<longrightarrow> st' = st)"
proof -
  obtain d st1 where e: "ComputeSha256 cng m st = (d, st1)" by fastforce
  have "st' = st \<or> st' = st1"
    using assms(2) by (auto simp: VerifySignature_def e split: if_splits option.splits)
  then show ?thesis
    using ComputeSha256_inv [OF assms(1) e] assms(1) by auto
qed

text \<open>A successful import returns a non-null handle (the contract of \<^verbatim>\<open>BCryptImportKeyPair\<close>).\<close>

definition import_law :: "cng_api \<Rightarrow> bool" where
  "import_law cng \<longleftrightarrow> (\<forall>a b st h. bc_import cng a b = (st, h) \<longrightarrow> BCRYPT_SUCCESS st \<longrightarrow> h \<noteq> 0)"

lemma ImportPublicKey_inv:
  assumes "crypto_inv st" "ImportPublicKey cng k st = (r, st')"
  shows "crypto_inv st'"
    "cs_live_keys st' = cs_live_keys st + (if \<exists>h. r = Accept h then 1 else 0)"
    "r = Accept h \<Longrightarrow> s_initialized st'"
    "r = Accept h \<Longrightarrow> \<exists>blob st. NormalizePublicKeyToEccBlob k = Accept blob \<and>
       BCRYPT_SUCCESS (fst (bc_import cng (s_hEcdsaAlg st') blob)) \<and> h = snd (bc_import cng (s_hEcdsaAlg st') blob)"
  using assms ensure_init_inv [OF assms(1)]
  by (auto simp: ImportPublicKey_def Let_def crypto_inv_def split: if_splits prod.splits der.splits)

text \<open>C33: verification releases what it takes: whatever the outcome, the key handle it imports is destroyed and
  the provider state stays consistent.\<close>

theorem verify_releases_key:
  assumes "crypto_inv st" "import_law cng"
    and "VerifyCanonicalSignedMessage cng k msg sig st = Some (valid, st')"
  shows "crypto_inv st' \<and> cs_live_keys st' = cs_live_keys st"
proof -
  obtain r st1 where imp: "ImportPublicKey cng k st = (r, st1)" by fastforce
  note inv = ImportPublicKey_inv [OF assms(1) imp]
  show ?thesis
  proof (cases r)
    case (Accept h)
    obtain v st2 where v: "VerifySignature cng h (SerializeSignedMessage msg) sig st1 = (v, st2)" by fastforce
    have st2: "st2 = st1" using VerifySignature_inv [OF inv(1) v] inv(3) [OF Accept] by blast
    have "h \<noteq> 0"
      using inv(4) [OF Accept] assms(2) by (auto simp: import_law_def) (metis prod.collapse)
    moreover have "cs_fn st1 ''BCryptDestroyKey''"
      using inv(1) inv(3) [OF Accept] required_destroy [of "cs_fn st1"] by (simp add: crypto_inv_def)
    ultimately have d: "cs_live_keys (DestroyKey h st1) = cs_live_keys st" "crypto_inv (DestroyKey h st1)"
      using inv(1,2) Accept by (simp_all add: DestroyKey_def crypto_inv_def)
    from assms(3) have "st' = DestroyKey h st1"
      by (auto simp: VerifyCanonicalSignedMessage_def imp Accept v st2 Let_def split: if_splits)
    with d show ?thesis by simp
  qed (use assms(3) imp inv in \<open>auto simp: VerifyCanonicalSignedMessage_def\<close>)
qed

definition demo_cng :: cng_api where
  "demo_cng = \<lparr>bc_dll = True, bc_procs = (\<lambda>_. True), bc_open = (\<lambda>_. (0, 1)), bc_random = (\<lambda>_ n. (0, replicate n 9)),
     bc_create_hash = (\<lambda>_. 0), bc_hash_data = (\<lambda>_. 0), bc_finish_hash = (\<lambda>d. (0, take 32 d)),
     bc_import = (\<lambda>_ _. (0, 5)), bc_verify = (\<lambda>_ _ _. 0)\<rparr>"

definition demo_message :: SignedMessage where
  "demo_message = SignedMessage_init\<lparr>sm_Operation := opcode MT_AUTH_RESPONSE, sm_SessionID := 1, sm_Nonce := replicate 32 9\<rparr>"

lemma demo_import_law: "import_law demo_cng"
  by (simp add: import_law_def demo_cng_def)

lemma demo_ensure_init: "\<exists>st'. ensure_init demo_cng st = (True, st') \<and> s_initialized st'"
  by (simp add: ensure_init_def Initialize_def LoadBcryptFunctions_def demo_cng_def BCRYPT_SUCCESS_def
      required_procs_def Let_def)

lemma demo_random: "fst (GenerateRandomBytes demo_cng 32 st) = Some (replicate 32 9)"
proof -
  obtain st' where "ensure_init demo_cng st = (True, st')" using demo_ensure_init by blast
  then show ?thesis
    by (simp add: GenerateRandomBytes_def demo_cng_def BCRYPT_SUCCESS_def)
qed

lemma demo_verify:
  assumes "signed_message_wf m"
  shows "\<exists>st'. VerifyCanonicalSignedMessage demo_cng (replicate 64 3) m (replicate 64 7) st = Some (True, st')"
proof -
  have "NormalizePublicKeyToEccBlob (replicate 64 3) = Accept (ecc_blob (replicate 64 3))"
    by (simp add: NormalizePublicKeyToEccBlob_def crypto_consts)
  moreover have "ValidateAndAdaptSignature (replicate 64 7) = Some (replicate 64 7)"
    by (simp add: ValidateAndAdaptSignature_def crypto_consts list_ex_iff)
  moreover have "BCRYPT_SUCCESS 0" "SerializeSignedMessage m \<noteq> []"
    using length_SerializeSignedMessage [OF assms] by (auto simp: BCRYPT_SUCCESS_def CANONICAL_SIGNED_MESSAGE_SIZE_def)
  moreover obtain st1 where "ensure_init demo_cng st = (True, st1)" "s_initialized st1"
    using demo_ensure_init by blast
  ultimately show ?thesis
    using length_SerializeSignedMessage [OF assms]
    by (auto simp: VerifyCanonicalSignedMessage_def ImportPublicKey_def VerifySignature_def ComputeSha256_def
        ensure_init_def [of _ "_\<lparr>cs_live_keys := _\<rparr>"] demo_cng_def crypto_consts Let_def)
qed

theorem verify_releases_key_witness:
  "\<exists>st'. VerifyCanonicalSignedMessage demo_cng (replicate 64 3) SignedMessage_init (replicate 64 7) crypto_state_init =
      Some (True, st') \<and> crypto_inv st' \<and> cs_live_keys st' = 0"
proof -
  have "signed_message_wf SignedMessage_init"
    by (simp add: signed_message_wf_def SignedMessage_init_def)
  from demo_verify [OF this] obtain st' where
    v: "VerifyCanonicalSignedMessage demo_cng (replicate 64 3) SignedMessage_init (replicate 64 7) crypto_state_init = Some (True, st')"
    by blast
  with verify_releases_key [OF crypto_inv_init demo_import_law v] show ?thesis
    by (simp add: crypto_state_init_def)
qed

text \<open>The test helper keeps exactly the key it returns, and the sizes of what the two helpers return.\<close>

lemma test_key_balanced:
  assumes "crypto_inv st" "\<And>alg. BCRYPT_SUCCESS (fst (ka_generate ka alg)) \<Longrightarrow> snd (ka_generate ka alg) \<noteq> 0"
    and "GenerateTestKeyPair cng ka nonnull blob st = ((ok, h, blob'), st')"
  shows "cs_live_keys st' = cs_live_keys st + (if ok then 1 else 0)" "ok \<Longrightarrow> h \<noteq> 0 \<and> length blob' = BCRYPT_ECC_BLOB_SIZE" "\<not> ok \<Longrightarrow> h = 0"
proof -
  obtain b st1 where e: "ensure_init cng st = (b, st1)" by fastforce
  note inv = ensure_init_inv [OF assms(1) e]
  have live: "cs_live_keys st1 = cs_live_keys st" using inv by simp
  have fn: "b \<Longrightarrow> cs_fn st1 ''BCryptDestroyKey''"
    using inv by (auto simp: crypto_inv_def intro: required_destroy)
  show "cs_live_keys st' = cs_live_keys st + (if ok then 1 else 0)" "ok \<Longrightarrow> h \<noteq> 0 \<and> length blob' = BCRYPT_ECC_BLOB_SIZE" "\<not> ok \<Longrightarrow> h = 0"
    using assms(2) [of "s_hEcdsaAlg st1"] assms(3) live fn
    by (auto simp: GenerateTestKeyPair_def e Let_def DestroyKey_def resized_with_def split: if_splits prod.splits)
qed

lemma test_signature_size: "SignHashForTesting ka h hash sig st = (True, sig') \<Longrightarrow> length sig' = P1363_SIGNATURE_SIZE"
  by (auto simp: SignHashForTesting_def Let_def resized_with_def split: option.splits if_splits prod.splits)

section \<open>Key formats\<close>

text \<open>The SubjectPublicKeyInfo of an uncompressed P-256 point, up to the point (RFC 5480).\<close>

definition spki_p256_prefix :: bytes where
  "spki_p256_prefix = [0x30, 0x59, 0x30, 0x13, 0x06, 0x07, 0x2A, 0x86, 0x48, 0xCE, 0x3D, 0x02, 0x01,
     0x06, 0x08, 0x2A, 0x86, 0x48, 0xCE, 0x3D, 0x03, 0x01, 0x07, 0x03, 0x42, 0x00, 0x04]"

lemma from_le_ecc_blob:
  "(from_le (take 4 (ecc_blob xy)) :: u32) = BCRYPT_ECDSA_PUBLIC_P256_MAGIC"
  "(from_le (take 4 (drop 4 (ecc_blob xy))) :: u32) = 32"
  by (simp_all add: ecc_blob_def from_le_to_le)

lemma length_ecc_blob [simp]: "length (ecc_blob xy) = 8 + length xy"
  by (simp add: ecc_blob_def)

lemma ParseSpkiDer_p256:
  assumes "length x = 32" "length y = 32"
  shows "ParseSpkiDer (spki_p256_prefix @ x @ y) = Accept (x, y)"
  using assms
  by (simp add: ParseSpkiDer_def skip_root_length_def der_length_def parse_bit_string_def der_at_def der_check_def
      spki_p256_prefix_def Let_def word_le_nat_alt)

text \<open>C34: the four accepted encodings of a P-256 point, raw coordinates, uncompressed point, SubjectPublicKeyInfo and
  CNG blob, normalize to the same blob, which holds the coordinates after the CNG header.\<close>

theorem key_formats_equivalent:
  assumes "length x = 32" "length y = 32"
  shows "NormalizePublicKeyToEccBlob (x @ y) = Accept (ecc_blob (x @ y)) \<and>
    NormalizePublicKeyToEccBlob (0x04 # x @ y) = Accept (ecc_blob (x @ y)) \<and>
    NormalizePublicKeyToEccBlob (spki_p256_prefix @ x @ y) = Accept (ecc_blob (x @ y)) \<and>
    NormalizePublicKeyToEccBlob (ecc_blob (x @ y)) = Accept (ecc_blob (x @ y))"
proof (intro conjI)
  show "NormalizePublicKeyToEccBlob (x @ y) = Accept (ecc_blob (x @ y))"
    "NormalizePublicKeyToEccBlob (0x04 # x @ y) = Accept (ecc_blob (x @ y))"
    "NormalizePublicKeyToEccBlob (ecc_blob (x @ y)) = Accept (ecc_blob (x @ y))"
    using assms by (auto simp: NormalizePublicKeyToEccBlob_def crypto_consts from_le_ecc_blob ecc_blob_def
        from_le_to_le)
  show "NormalizePublicKeyToEccBlob (spki_p256_prefix @ x @ y) = Accept (ecc_blob (x @ y))"
  proof -
    have "length (spki_p256_prefix @ x @ y) = 91" "(spki_p256_prefix @ x @ y) ! 0 = 0x30"
      "spki_p256_prefix @ x @ y \<noteq> []"
      using assms by (simp_all add: spki_p256_prefix_def)
    then show ?thesis
      unfolding NormalizePublicKeyToEccBlob_def by (simp add: crypto_consts ParseSpkiDer_p256 assms)
  qed
qed

theorem key_formats_equivalent_witness:
  "NormalizePublicKeyToEccBlob (spki_p256_prefix @ replicate 32 1 @ replicate 32 2) =
     NormalizePublicKeyToEccBlob (replicate 32 1 @ replicate 32 2)"
  using key_formats_equivalent [of "replicate 32 1" "replicate 32 2"] by (simp only: length_replicate simp_thms)

text \<open>The accepting run of the parser, read backwards.\<close>

lemma der_bind_Accept: "der_bind r f = Accept a \<longleftrightarrow> (\<exists>b. r = Accept b \<and> f b = Accept a)"
  by (cases r) auto

lemma der_check_Accept: "der_check b r = Accept a \<longleftrightarrow> b \<and> r = Accept a"
  by (simp add: der_check_def)

lemma der_at_Accept: "der_at d i = Accept b \<longleftrightarrow> unat i < length d \<and> b = d ! unat i"
  by (auto simp: der_at_def)

lemma parse_bit_string_coords:
  assumes "parse_bit_string d i = Accept (x, y)" "length d < 2 ^ 31"
  shows "\<exists>j. x @ y = take 64 (drop j d) \<and> j + 64 \<le> length d \<and> 0 < j \<and> d ! (j - 1) = 0x04"
proof -
  obtain off :: size_t where f: "unat (off + 1) < length d" "d ! unat (off + 1) = 0x04"
      "\<not> off + 2 + 64 > of_nat (length d)"
    and xy: "x = take 32 (drop (unat (off + 2)) d)" "y = take 32 (drop (unat (off + 2) + 32) d)"
    using assms(1)
    by (auto simp: parse_bit_string_def der_bind_Accept der_check_Accept der_at_Accept Let_def)
  define k where "k = unat (off + 1)"
  have k: "k < 2 ^ 31" using f(1) assms(2) by (simp add: k_def)
  have "off + 2 = of_nat (Suc k)"
    by (simp add: k_def add.assoc)
  moreover have "unat (of_nat (Suc k) :: size_t) = Suc k"
    by (rule unat_of_nat_less) (use k in simp)
  ultimately have o2: "unat (off + 2) = Suc k"
    by metis
  have "off + 2 + 64 = of_nat (Suc k + 64)"
    by (simp add: k_def add.assoc)
  then have "unat (off + 2 + 64) = Suc k + 64"
    using k by (simp add: unat_of_nat_less del: of_nat_add of_nat_Suc)
  moreover have "unat (of_nat (length d) :: size_t) = length d"
    using assms(2) by (simp add: unat_of_nat_less)
  ultimately have "Suc k + 64 \<le> length d"
    using f(3) by (simp add: word_less_nat_alt del: of_nat_Suc)
  moreover have "x @ y = take 64 (drop (Suc k) d)"
    using take_add [of 32 32 "drop (Suc k) d"] by (simp add: xy o2 add.commute)
  ultimately show ?thesis
    using f(2) by (intro exI [of _ "Suc k"]) (simp add: k_def)
qed

text \<open>Whatever key the normalization accepts becomes a 72-byte CNG blob with the P-256 header, whose coordinates
  are 64 consecutive bytes of the input; and normalizing the blob again changes nothing.\<close>

theorem normalize_sound:
  assumes "NormalizePublicKeyToEccBlob k = Accept blob" "length k < 2 ^ 31"
  shows "length blob = BCRYPT_ECC_BLOB_SIZE \<and>
    (\<exists>j. j + 64 \<le> length k \<and> blob = ecc_blob (take 64 (drop j k))) \<and>
    NormalizePublicKeyToEccBlob blob = Accept blob"
proof -
  have again: "NormalizePublicKeyToEccBlob (ecc_blob xy) = Accept (ecc_blob xy)" if "length xy = 64" for xy
    using that by (auto simp: NormalizePublicKeyToEccBlob_def crypto_consts from_le_ecc_blob ecc_blob_def
        from_le_to_le)
  have "\<exists>j. j + 64 \<le> length k \<and> blob = ecc_blob (take 64 (drop j k))"
  proof (cases "length k = 72 \<and> (from_le (take 4 k) :: u32) = BCRYPT_ECDSA_PUBLIC_P256_MAGIC \<and>
      (from_le (take 4 (drop 4 k)) :: u32) = 32")
    case True
    then have "blob = k"
      using assms(1) by (auto simp: NormalizePublicKeyToEccBlob_def crypto_consts split: if_splits)
    moreover have "to_le 4 BCRYPT_ECDSA_PUBLIC_P256_MAGIC = take 4 k" "to_le 4 (32 :: u32) = take 4 (drop 4 k)"
      using True to_le_from_le [of "take 4 k" 4, where 'a = 32] to_le_from_le [of "take 4 (drop 4 k)" 4, where 'a = 32]
      by simp_all
    then have "ecc_blob (drop 8 k) = k"
      using take_add [of 4 4 k] append_take_drop_id [of 8 k] by (simp add: ecc_blob_def)
    ultimately show ?thesis
      using True by (intro exI [of _ 8]) simp
  next
    case False
    consider (raw) "length k = 64" "blob = ecc_blob k"
      | (point) "length k = 65" "blob = ecc_blob (take 64 (drop 1 k))"
      | (der) x y where "ParseSpkiDer k = Accept (x, y)" "blob = ecc_blob (x @ y)"
      using assms(1) False
      by (auto simp: NormalizePublicKeyToEccBlob_def crypto_consts der_bind_Accept split: if_splits prod.splits)
    then show ?thesis
    proof cases
      case raw
      then show ?thesis by (intro exI [of _ 0]) simp
    next
      case point
      then show ?thesis by (intro exI [of _ 1]) simp
    next
      case der
      then obtain i where "parse_bit_string k i = Accept (x, y)"
        by (auto simp: ParseSpkiDer_def der_bind_Accept der_check_Accept Let_def)
      from parse_bit_string_coords [OF this assms(2)] der(2) show ?thesis by auto
    qed
  qed
  then obtain j where j: "j + 64 \<le> length k" "blob = ecc_blob (take 64 (drop j k))" by blast
  with again [of "take 64 (drop j k)"] show ?thesis
    by (auto simp: BCRYPT_ECC_BLOB_SIZE_def)
qed

theorem normalize_sound_witness:
  "length (ecc_blob (replicate 64 3)) = BCRYPT_ECC_BLOB_SIZE \<and>
   NormalizePublicKeyToEccBlob (ecc_blob (replicate 64 3)) = Accept (ecc_blob (replicate 64 3))"
proof -
  have "NormalizePublicKeyToEccBlob (replicate 64 3) = Accept (ecc_blob (replicate 64 3))"
    by (simp add: NormalizePublicKeyToEccBlob_def crypto_consts)
  from normalize_sound [OF this] show ?thesis by simp
qed

text \<open>The DER parser can read past its buffer: when the tag of the algorithm identifier is the last byte, and when
  a bit-string length wraps the 32-bit sum that should bound it.\<close>

theorem der_out_of_bounds:
  "ParseSpkiDer ([0x30, 0x9B] @ replicate 27 0 @ [0x30]) = Oob \<and>
   ParseSpkiDer ([0x30, 0x1C, 0x30, 0x12] @ replicate 18 0 @ [0x03, 0x86, 0, 0, 0xFF, 0xFF, 0xFF, 0xFF]) = Oob"
  by code_simp

section \<open>What a valid signature means\<close>

lemma ComputeSha256_sound:
  "ComputeSha256 cng m st = (Some d, st') \<Longrightarrow>
   BCRYPT_SUCCESS (fst (bc_finish_hash cng m)) \<and> d = snd (bc_finish_hash cng m)"
  by (auto simp: ComputeSha256_def split: if_splits prod.splits)

lemma VerifySignature_sound:
  assumes "VerifySignature cng h m sig st = (True, st')"
  shows "h \<noteq> 0 \<and> length sig = P1363_SIGNATURE_SIZE \<and> BCRYPT_SUCCESS (fst (bc_finish_hash cng m)) \<and>
    (\<exists>b\<in>set (take 32 sig). b \<noteq> 0) \<and> (\<exists>b\<in>set (drop 32 sig). b \<noteq> 0) \<and>
    BCRYPT_SUCCESS (bc_verify cng h (snd (bc_finish_hash cng m)) sig)"
proof -
  obtain d st1 where d: "ComputeSha256 cng m st = (d, st1)" by fastforce
  with assms obtain d' where d': "d = Some d'" "h \<noteq> 0" "ValidateAndAdaptSignature sig = Some sig"
      "BCRYPT_SUCCESS (bc_verify cng h d' sig)"
    by (auto simp: VerifySignature_def ValidateAndAdaptSignature_def split: if_splits option.splits)
  with ComputeSha256_sound [of cng m st d' st1] d show ?thesis
    by (auto simp: ValidateAndAdaptSignature_def P256_COORDINATE_SIZE_def list_ex_iff split: if_splits)
qed

text \<open>C5: a canonical message verifies only if the key normalizes to a blob that CNG imports, the signature has 64
  bytes with both halves non-zero, and CNG accepts it over the SHA-256 digest of the 88 canonical bytes.\<close>

theorem verify_sound:
  assumes "VerifyCanonicalSignedMessage cng k msg sig st = Some (True, st')"
  shows "\<exists>alg blob h d. NormalizePublicKeyToEccBlob k = Accept blob \<and> bc_import cng alg blob = h \<and>
    BCRYPT_SUCCESS (fst h) \<and> snd h \<noteq> 0 \<and> bc_finish_hash cng (SerializeSignedMessage msg) = d \<and> BCRYPT_SUCCESS (fst d) \<and>
    length (SerializeSignedMessage msg) = CANONICAL_SIGNED_MESSAGE_SIZE \<and>
    length sig = P1363_SIGNATURE_SIZE \<and> (\<exists>b\<in>set (take 32 sig). b \<noteq> 0) \<and> (\<exists>b\<in>set (drop 32 sig). b \<noteq> 0) \<and>
    BCRYPT_SUCCESS (bc_verify cng (snd h) (snd d) sig)"
proof -
  obtain r st1 where imp: "ImportPublicKey cng k st = (r, st1)" by fastforce
  with assms obtain h where r: "r = Accept h"
    by (cases r) (auto simp: VerifyCanonicalSignedMessage_def)
  obtain v st2 where v: "VerifySignature cng h (SerializeSignedMessage msg) sig st1 = (v, st2)" by fastforce
  from assms have "v" and len: "length (SerializeSignedMessage msg) = CANONICAL_SIGNED_MESSAGE_SIZE"
    by (auto simp: VerifyCanonicalSignedMessage_def imp r v Let_def split: if_splits)
  with v have v: "VerifySignature cng h (SerializeSignedMessage msg) sig st1 = (True, st2)" by simp
  obtain alg blob where "NormalizePublicKeyToEccBlob k = Accept blob"
      "BCRYPT_SUCCESS (fst (bc_import cng alg blob))" "h = snd (bc_import cng alg blob)"
    using imp r by (auto simp: ImportPublicKey_def Let_def split: if_splits prod.splits der.splits) (metis fst_conv snd_conv)
  with VerifySignature_sound [OF v] len show ?thesis by metis
qed

theorem verify_sound_witness:
  "NormalizePublicKeyToEccBlob (replicate 64 3) \<noteq> Reject"
proof -
  have "signed_message_wf SignedMessage_init"
    by (simp add: signed_message_wf_def SignedMessage_init_def)
  from demo_verify [OF this] obtain st' where
    "VerifyCanonicalSignedMessage demo_cng (replicate 64 3) SignedMessage_init (replicate 64 7) crypto_state_init = Some (True, st')"
    by blast
  from verify_sound [OF this] show ?thesis by auto
qed

end
