(* ===== verification/Auth.thy ===== *)
theory Auth
  imports DeviceRegistry Crypto
begin

text \<open>
  \<^verbatim>\<open>windows/authentication/AuthenticationManager.h/.cpp\<close>: challenges, the lockout after failures, and the
  two message handlers. The critical section makes each handler one atomic step. The clock reading of a
  call is the argument \<open>nowMs\<close> (so the testing hook that replaces the time provider needs no state), CNG
  is \<open>cng\<close> and the registry \<open>api\<close>; the static state of \<^verbatim>\<open>CryptoManager\<close> and of the device registry is
  threaded through. A handler answers \<open>None\<close> when a registry read or the key parser leaves its buffer.
\<close>

section \<open>Data\<close>

definition CHALLENGE_TTL_SECONDS :: u64 where "CHALLENGE_TTL_SECONDS = 30"
definition MAX_FAILED_ATTEMPTS :: int where "MAX_FAILED_ATTEMPTS = 3"
definition LOCKOUT_DURATION_SEC :: u64 where "LOCKOUT_DURATION_SEC = 900"

lemmas auth_consts [model_defs] = CHALLENGE_TTL_SECONDS_def MAX_FAILED_ATTEMPTS_def LOCKOUT_DURATION_SEC_def

record ActiveChallenge =
  ac_deviceId :: DeviceId
  ac_sessionId :: u64
  ac_nonce :: bytes
  ac_createdAtMs :: u64
  ac_isConsumed :: bool

record DeviceRateLimit =
  rl_failedCount :: int
  rl_lockoutUntilMs :: u64

datatype AuthResultCode =
    AR_SUCCESS | AR_UNKNOWN_DEVICE | AR_DEVICE_REVOKED | AR_MISSING_PUBLIC_KEY | AR_INVALID_PAYLOAD
  | AR_CHALLENGE_EXPIRED | AR_CHALLENGE_MISMATCH | AR_REPLAY_DETECTED | AR_SIGNATURE_INVALID
  | AR_RATE_LIMITED | AR_INTERNAL_ERROR

record AuthenticationManager =
  am_serverIdentity :: bytes
  am_sessionCounter :: u64
  am_activeChallenges :: "string \<Rightarrow> ActiveChallenge option"
  am_rateLimits :: "string \<Rightarrow> DeviceRateLimit option"

text \<open>What a handler leaves behind: its result, the response payload and header, and the states.\<close>

record 'w auth_result =
  ar_code :: AuthResultCode
  ar_payload :: bytes
  ar_header :: FrameHeader
  ar_am :: AuthenticationManager
  ar_crypto :: crypto_state
  ar_reg :: "'w reg_state"

section \<open>Helpers\<close>

definition BytesToHex :: "bytes \<Rightarrow> string" where
  "BytesToHex data = concat (map print_02x data)"

definition AuthenticationManager_new :: AuthenticationManager where
  "AuthenticationManager_new = \<lparr>am_serverIdentity = replicate 16 0xAA, am_sessionCounter = 1,
     am_activeChallenges = Map.empty, am_rateLimits = Map.empty\<rparr>"

definition SetServerIdentity :: "bytes \<Rightarrow> AuthenticationManager \<Rightarrow> AuthenticationManager" where
  "SetServerIdentity serverId am = am\<lparr>am_serverIdentity := serverId\<rparr>"

definition GetServerIdentity :: "AuthenticationManager \<Rightarrow> bytes" where
  "GetServerIdentity am = am_serverIdentity am"

definition Reset :: "AuthenticationManager \<Rightarrow> AuthenticationManager" where
  "Reset am = am\<lparr>am_activeChallenges := Map.empty, am_rateLimits := Map.empty, am_sessionCounter := 1\<rparr>"

definition InjectChallengeForTesting :: "ActiveChallenge \<Rightarrow> AuthenticationManager \<Rightarrow> AuthenticationManager" where
  "InjectChallengeForTesting challenge am =
     am\<lparr>am_activeChallenges := (am_activeChallenges am)(DeviceIdToString (ac_deviceId challenge) := Some challenge)\<rparr>"

text \<open>The check also clears an expired lockout.\<close>

definition auth_IsRateLimited :: "string \<Rightarrow> u64 \<Rightarrow> AuthenticationManager \<Rightarrow> bool \<times> AuthenticationManager" where
  "auth_IsRateLimited deviceIdStr nowMs am =
     (case am_rateLimits am deviceIdStr of
        None \<Rightarrow> (False, am)
      | Some l \<Rightarrow>
          if nowMs < rl_lockoutUntilMs l then (True, am)
          else if rl_lockoutUntilMs l \<noteq> 0 \<and> nowMs \<ge> rl_lockoutUntilMs l
          then (False, am\<lparr>am_rateLimits := (am_rateLimits am)(deviceIdStr :=
                 Some \<lparr>rl_failedCount = 0, rl_lockoutUntilMs = 0\<rparr>)\<rparr>)
          else (False, am))"

definition RecordFailure :: "string \<Rightarrow> u64 \<Rightarrow> AuthenticationManager \<Rightarrow> AuthenticationManager" where
  "RecordFailure deviceIdStr nowMs am =
     (let limit = (case am_rateLimits am deviceIdStr of
            None \<Rightarrow> \<lparr>rl_failedCount = 0, rl_lockoutUntilMs = 0\<rparr> | Some l \<Rightarrow> l);
          limit = limit\<lparr>rl_failedCount := rl_failedCount limit + 1\<rparr>;
          limit = (if rl_failedCount limit \<ge> MAX_FAILED_ATTEMPTS
            then limit\<lparr>rl_lockoutUntilMs := nowMs + LOCKOUT_DURATION_SEC * 1000\<rparr> else limit)
      in am\<lparr>am_rateLimits := (am_rateLimits am)(deviceIdStr := Some limit)\<rparr>)"

definition RecordSuccess :: "string \<Rightarrow> AuthenticationManager \<Rightarrow> AuthenticationManager" where
  "RecordSuccess deviceIdStr am = am\<lparr>am_rateLimits := (am_rateLimits am)(deviceIdStr := None)\<rparr>"

section \<open>AUTH\_REQUEST\<close>

text \<open>A refused request sets four fields of the caller's header.\<close>

definition request_refused ::
  "AuthResultCode \<Rightarrow> string \<Rightarrow> FrameHeader \<Rightarrow> FrameHeader \<Rightarrow> AuthenticationManager \<Rightarrow> crypto_state \<Rightarrow> 'w reg_state \<Rightarrow> 'w auth_result" where
  "request_refused code reason requestHeader outHeader am cs reg =
     (let payload = bytes_of_string (''{\"status\":\"ERROR\",\"reason\":\"'' @ reason @ ''\"}'')
      in \<lparr>ar_code = code, ar_payload = payload,
          ar_header = outHeader\<lparr>fh_MessageType := opcode MT_AUTH_FAILURE,
            fh_MessageID := fh_MessageID requestHeader,
            fh_SequenceNumber := fh_SequenceNumber requestHeader + 1,
            fh_PayloadLength := of_nat (length payload)\<rparr>,
          ar_am = am, ar_crypto = cs, ar_reg = reg\<rparr>)"

definition challenge_json :: "ActiveChallenge \<Rightarrow> bytes \<Rightarrow> bytes" where
  "challenge_json challenge serverIdentity =
     bytes_of_string (''{'' @ ''\"sessionId\":'' @ print_u (unat (ac_sessionId challenge)) @ '','' @
       ''\"nonce\":\"'' @ BytesToHex (ac_nonce challenge) @ ''\",'' @
       ''\"serverIdentity\":\"'' @ BytesToHex serverIdentity @ ''\",'' @
       ''\"timestamp\":'' @ print_u (unat (ac_createdAtMs challenge)) @ ''}'')"

text \<open>The challenge for a registered, active device with a key; the session number is used up even if no nonce is obtained.\<close>

definition issue_challenge ::
  "cng_api \<Rightarrow> u64 \<Rightarrow> DeviceId \<Rightarrow> FrameHeader \<Rightarrow> FrameHeader \<Rightarrow> AuthenticationManager \<Rightarrow> crypto_state \<Rightarrow> 'w reg_state \<Rightarrow> 'w auth_result" where
  "issue_challenge cng nowMs deviceId requestHeader outHeader am cs reg =
     (let sessionId = am_sessionCounter am;
          am = am\<lparr>am_sessionCounter := am_sessionCounter am + 1\<rparr>;
          (nonce, cs) = GenerateRandomBytes cng 32 cs
      in case nonce of
           None \<Rightarrow> request_refused AR_INTERNAL_ERROR ''INTERNAL_ERROR'' requestHeader outHeader am cs reg
         | Some n \<Rightarrow>
             let challenge = \<lparr>ac_deviceId = deviceId, ac_sessionId = sessionId, ac_nonce = n, ac_createdAtMs = nowMs,
                   ac_isConsumed = False\<rparr>;
                 am = am\<lparr>am_activeChallenges := (am_activeChallenges am)(DeviceIdToString deviceId := Some challenge)\<rparr>;
                 payload = challenge_json challenge (am_serverIdentity am)
             in \<lparr>ar_code = AR_SUCCESS, ar_payload = payload,
                 ar_header = \<lparr>fh_Magic = PROTOCOL_MAGIC, fh_MajorVersion = PROTOCOL_MAJOR_VERSION,
                   fh_MinorVersion = PROTOCOL_MINOR_VERSION, fh_MessageType = opcode MT_AUTH_CHALLENGE, fh_Reserved = 0,
                   fh_MessageID = fh_MessageID requestHeader, fh_PayloadLength = of_nat (length payload),
                   fh_SequenceNumber = fh_SequenceNumber requestHeader + 1\<rparr>,
                 ar_am = am, ar_crypto = cs, ar_reg = reg\<rparr>)"

definition HandleAuthRequest ::
  "'w reg_api \<Rightarrow> cng_api \<Rightarrow> u64 \<Rightarrow> DeviceId \<Rightarrow> FrameHeader \<Rightarrow> FrameHeader \<Rightarrow>
   AuthenticationManager \<Rightarrow> crypto_state \<Rightarrow> 'w reg_state \<Rightarrow> 'w auth_result option" where
  "HandleAuthRequest api cng nowMs deviceId requestHeader outHeader am cs reg =
     (let deviceIdStr = DeviceIdToString deviceId;
          (limited, am) = auth_IsRateLimited deviceIdStr nowMs am
      in if limited then Some (request_refused AR_RATE_LIMITED ''RATE_LIMITED'' requestHeader outHeader am cs reg)
         else do {
           (res, rec) \<leftarrow> ReadDeviceRecord api reg deviceIdStr DeviceRecord_init;
           Some (if res \<noteq> ERROR_SUCCESS
             then request_refused AR_UNKNOWN_DEVICE ''UNKNOWN_DEVICE'' requestHeader outHeader am cs reg
             else if dr_pairStatus rec \<noteq> kStatusActive
             then request_refused AR_DEVICE_REVOKED ''DEVICE_REVOKED'' requestHeader outHeader am cs reg
             else if dr_publicKey rec = []
             then request_refused AR_MISSING_PUBLIC_KEY ''MISSING_PUBLIC_KEY'' requestHeader outHeader am cs reg
             else issue_challenge cng nowMs deviceId requestHeader outHeader am cs reg)
         })"

section \<open>AUTH\_RESPONSE\<close>

definition response_header :: "FrameHeader \<Rightarrow> MessageType \<Rightarrow> bytes \<Rightarrow> FrameHeader" where
  "response_header requestHeader mt payload = \<lparr>
     fh_Magic = PROTOCOL_MAGIC, fh_MajorVersion = PROTOCOL_MAJOR_VERSION, fh_MinorVersion = PROTOCOL_MINOR_VERSION,
     fh_MessageType = opcode mt, fh_Reserved = 0, fh_MessageID = fh_MessageID requestHeader,
     fh_PayloadLength = of_nat (length payload), fh_SequenceNumber = fh_SequenceNumber requestHeader + 1\<rparr>"

definition response_failed ::
  "AuthResultCode \<Rightarrow> string \<Rightarrow> FrameHeader \<Rightarrow> AuthenticationManager \<Rightarrow> crypto_state \<Rightarrow> 'w reg_state \<Rightarrow> 'w auth_result" where
  "response_failed code reason requestHeader am cs reg =
     (let payload = bytes_of_string (''{\"status\":\"FAILURE\",\"reason\":\"'' @ reason @ ''\"}'')
      in \<lparr>ar_code = code, ar_payload = payload, ar_header = response_header requestHeader MT_AUTH_FAILURE payload,
          ar_am = am, ar_crypto = cs, ar_reg = reg\<rparr>)"

text \<open>Steps 1 and 2: the lengths, and the canonical message in front of the signature.\<close>

definition response_message :: "bytes \<Rightarrow> string + SignedMessage \<times> bytes" where
  "response_message payload =
     (if length payload < CANONICAL_SIGNED_MESSAGE_SIZE + P1363_SIGNATURE_SIZE then Inl ''INVALID_PAYLOAD_SIZE''
      else
        let msgBytes = take CANONICAL_SIGNED_MESSAGE_SIZE payload;
            sigBytes = drop CANONICAL_SIGNED_MESSAGE_SIZE payload
        in if length sigBytes \<noteq> P1363_SIGNATURE_SIZE then Inl ''INVALID_SIGNATURE_LENGTH''
           else (case DeserializeSignedMessage (Some msgBytes) of
               None \<Rightarrow> Inl ''INVALID_SIGNED_MESSAGE''
             | Some signedMsg \<Rightarrow> Inr (signedMsg, sigBytes)))"

text \<open>Step 5: the device must be registered, active and have a key.\<close>

definition response_device :: "'w reg_api \<Rightarrow> 'w reg_state \<Rightarrow> string \<Rightarrow> (AuthResultCode \<times> string + DeviceRecord) option" where
  "response_device api reg devId = do {
     (res, rec) \<leftarrow> ReadDeviceRecord api reg devId DeviceRecord_init;
     Some (if res \<noteq> ERROR_SUCCESS then Inl (AR_UNKNOWN_DEVICE, ''UNKNOWN_DEVICE'')
       else if dr_pairStatus rec \<noteq> kStatusActive then Inl (AR_DEVICE_REVOKED, ''DEVICE_REVOKED'')
       else if dr_publicKey rec = [] then Inl (AR_MISSING_PUBLIC_KEY, ''MISSING_PUBLIC_KEY'')
       else Inr rec)
   }"

text \<open>Step 6: the active challenge must be unused, fresh and match; from the expiry check on, the challenge is consumed
  whatever the outcome.\<close>

definition consume :: "string \<Rightarrow> ActiveChallenge \<Rightarrow> AuthenticationManager \<Rightarrow> AuthenticationManager" where
  "consume devId challenge am =
     am\<lparr>am_activeChallenges := (am_activeChallenges am)(devId := Some (challenge\<lparr>ac_isConsumed := True\<rparr>))\<rparr>"

definition response_challenge ::
  "u64 \<Rightarrow> string \<Rightarrow> SignedMessage \<Rightarrow> AuthenticationManager \<Rightarrow> (AuthResultCode \<times> string) option \<times> AuthenticationManager" where
  "response_challenge nowMs devId signedMsg am =
     (case am_activeChallenges am devId of
        None \<Rightarrow> (Some (AR_REPLAY_DETECTED, ''NO_ACTIVE_CHALLENGE''), am)
      | Some challenge \<Rightarrow>
          if ac_isConsumed challenge then (Some (AR_REPLAY_DETECTED, ''CHALLENGE_ALREADY_CONSUMED''), am)
          else if nowMs < ac_createdAtMs challenge \<or> nowMs - ac_createdAtMs challenge > CHALLENGE_TTL_SECONDS * 1000
          then (Some (AR_CHALLENGE_EXPIRED, ''NONCE_EXPIRED''), consume devId challenge am)
          else if sm_SessionID signedMsg \<noteq> ac_sessionId challenge
          then (Some (AR_CHALLENGE_MISMATCH, ''SESSION_ID_MISMATCH''), consume devId challenge am)
          else if sm_Nonce signedMsg \<noteq> ac_nonce challenge
          then (Some (AR_CHALLENGE_MISMATCH, ''NONCE_MISMATCH''), consume devId challenge am)
          else (None, consume devId challenge am))"

text \<open>Steps 7 and 8: the signature, then the success path.\<close>

definition response_verify ::
  "'w reg_api \<Rightarrow> cng_api \<Rightarrow> FILETIME \<Rightarrow> u64 \<Rightarrow> FrameHeader \<Rightarrow> string \<Rightarrow> DeviceRecord \<Rightarrow> SignedMessage \<Rightarrow> bytes \<Rightarrow>
   AuthenticationManager \<Rightarrow> crypto_state \<Rightarrow> 'w reg_state \<Rightarrow> 'w auth_result option" where
  "response_verify api cng nowFt nowMs requestHeader devId rec signedMsg sigBytes am cs reg = do {
     (sigValid, cs) \<leftarrow> VerifyCanonicalSignedMessage cng (dr_publicKey rec) signedMsg sigBytes cs;
     Some (if \<not> sigValid
       then response_failed AR_SIGNATURE_INVALID ''SIGNATURE_VERIFICATION_FAILED'' requestHeader
              (RecordFailure devId nowMs am) cs reg
       else
         let am = RecordSuccess devId am;
             reg = snd (UpdateLastSeen api nowFt devId reg);
             payload = bytes_of_string (''{\"status\":\"SUCCESS\",\"accountSid\":\"'' @ dr_accountSid rec @ ''\"}'')
         in \<lparr>ar_code = AR_SUCCESS, ar_payload = payload,
             ar_header = response_header requestHeader MT_AUTH_SUCCESS payload,
             ar_am = am, ar_crypto = cs, ar_reg = reg\<rparr>)
   }"

definition HandleAuthResponse ::
  "'w reg_api \<Rightarrow> cng_api \<Rightarrow> FILETIME \<Rightarrow> u64 \<Rightarrow> FrameHeader \<Rightarrow> bytes \<Rightarrow>
   AuthenticationManager \<Rightarrow> crypto_state \<Rightarrow> 'w reg_state \<Rightarrow> 'w auth_result option" where
  "HandleAuthResponse api cng nowFt nowMs requestHeader payload am cs reg =
     (case response_message payload of
        Inl reason \<Rightarrow> Some (response_failed AR_INVALID_PAYLOAD reason requestHeader am cs reg)
      | Inr (signedMsg, sigBytes) \<Rightarrow>
          let devId = DeviceIdToString (sm_DeviceIdentity signedMsg);
              (limited, am) = auth_IsRateLimited devId nowMs am
          in if limited then Some (response_failed AR_RATE_LIMITED ''RATE_LIMITED'' requestHeader am cs reg)
             else do {
               dev \<leftarrow> response_device api reg devId;
               case dev of
                 Inl (code, reason) \<Rightarrow>
                   Some (response_failed code reason requestHeader (RecordFailure devId nowMs am) cs reg)
               | Inr rec \<Rightarrow>
                   (case response_challenge nowMs devId signedMsg am of
                      (Some (code, reason), am) \<Rightarrow>
                        Some (response_failed code reason requestHeader (RecordFailure devId nowMs am) cs reg)
                    | (None, am) \<Rightarrow>
                        response_verify api cng nowFt nowMs requestHeader devId rec signedMsg sigBytes am cs reg)
             })"

section \<open>What the handlers change\<close>

lemma response_failed_simps [simp]:
  "ar_code (response_failed c r h am cs reg) = c" "ar_am (response_failed c r h am cs reg) = am"
  "ar_crypto (response_failed c r h am cs reg) = cs" "ar_reg (response_failed c r h am cs reg) = reg"
  "fh_MessageType (ar_header (response_failed c r h am cs reg)) = opcode MT_AUTH_FAILURE"
  by (simp_all add: response_failed_def response_header_def Let_def)

lemma request_refused_simps [simp]:
  "ar_code (request_refused c r h out am cs reg) = c" "ar_am (request_refused c r h out am cs reg) = am"
  "ar_crypto (request_refused c r h out am cs reg) = cs" "ar_reg (request_refused c r h out am cs reg) = reg"
  by (simp_all add: request_refused_def Let_def)

lemma am_updates [simp]:
  "am_activeChallenges (RecordFailure d n am) = am_activeChallenges am"
  "am_sessionCounter (RecordFailure d n am) = am_sessionCounter am"
  "am_activeChallenges (RecordSuccess d am) = am_activeChallenges am"
  "am_sessionCounter (RecordSuccess d am) = am_sessionCounter am"
  "am_sessionCounter (consume d ch am) = am_sessionCounter am"
  "am_rateLimits (consume d ch am) = am_rateLimits am"
  "am_activeChallenges (consume d ch am) = (am_activeChallenges am)(d := Some (ch\<lparr>ac_isConsumed := True\<rparr>))"
  by (simp_all add: RecordFailure_def RecordSuccess_def consume_def Let_def)

lemma auth_IsRateLimited_frame:
  assumes "auth_IsRateLimited d n am = (b, am')"
  shows "am_activeChallenges am' = am_activeChallenges am" "am_sessionCounter am' = am_sessionCounter am"
    "d' \<noteq> d \<Longrightarrow> am_rateLimits am' d' = am_rateLimits am d'" "b \<Longrightarrow> am' = am"
  using assms by (auto simp: auth_IsRateLimited_def split: option.splits if_splits)

lemma response_message_Inr:
  "response_message p = Inr (m, sig) \<longleftrightarrow>
     p = SerializeSignedMessage m @ sig \<and> signed_message_ok m \<and> length sig = P1363_SIGNATURE_SIZE"
proof
  assume "response_message p = Inr (m, sig)"
  then have d: "DeserializeSignedMessage (Some (take CANONICAL_SIGNED_MESSAGE_SIZE p)) = Some m"
      "sig = drop CANONICAL_SIGNED_MESSAGE_SIZE p" "length sig = P1363_SIGNATURE_SIZE"
    by (auto simp: response_message_def Let_def split: if_splits option.splits)
  then show "p = SerializeSignedMessage m @ sig \<and> signed_message_ok m \<and> length sig = P1363_SIGNATURE_SIZE"
    using append_take_drop_id [of CANONICAL_SIGNED_MESSAGE_SIZE p] by (simp add: DeserializeSignedMessage_iff)
next
  assume r: "p = SerializeSignedMessage m @ sig \<and> signed_message_ok m \<and> length sig = P1363_SIGNATURE_SIZE"
  then have len: "length (SerializeSignedMessage m) = CANONICAL_SIGNED_MESSAGE_SIZE"
    by (simp add: length_SerializeSignedMessage signed_message_ok_def)
  from r have "DeserializeSignedMessage (Some (SerializeSignedMessage m)) = Some m"
    by (simp add: DeserializeSignedMessage_iff)
  with r len show "response_message p = Inr (m, sig)"
    by (simp add: response_message_def)
qed

definition fresh :: "u64 \<Rightarrow> ActiveChallenge \<Rightarrow> bool" where
  "fresh nowMs ch \<longleftrightarrow> unat (ac_createdAtMs ch) \<le> unat nowMs \<and> unat nowMs - unat (ac_createdAtMs ch) \<le> 30000"

lemma fresh_iff:
  "fresh nowMs ch \<longleftrightarrow>
     \<not> (nowMs < ac_createdAtMs ch \<or> nowMs - ac_createdAtMs ch > CHALLENGE_TTL_SECONDS * 1000)"
  by (auto simp: fresh_def CHALLENGE_TTL_SECONDS_def word_less_nat_alt not_less word_le_nat_alt unat_sub)

lemma response_challenge_cases:
  obtains (none) "am_activeChallenges am d = None" "response_challenge n d m am = (Some (AR_REPLAY_DETECTED, ''NO_ACTIVE_CHALLENGE''), am)"
  | (used) ch where "am_activeChallenges am d = Some ch" "ac_isConsumed ch"
      "response_challenge n d m am = (Some (AR_REPLAY_DETECTED, ''CHALLENGE_ALREADY_CONSUMED''), am)"
  | (bad) ch code reason where "am_activeChallenges am d = Some ch" "\<not> ac_isConsumed ch"
      "\<not> (fresh n ch \<and> sm_SessionID m = ac_sessionId ch \<and> sm_Nonce m = ac_nonce ch)"
      "code \<in> {AR_CHALLENGE_EXPIRED, AR_CHALLENGE_MISMATCH}"
      "response_challenge n d m am = (Some (code, reason), consume d ch am)"
  | (match) ch where "am_activeChallenges am d = Some ch" "\<not> ac_isConsumed ch"
      "fresh n ch" "sm_SessionID m = ac_sessionId ch" "sm_Nonce m = ac_nonce ch"
      "response_challenge n d m am = (None, consume d ch am)"
proof (cases "am_activeChallenges am d")
  case None
  then show thesis by (intro none) (simp_all add: response_challenge_def)
next
  case (Some ch)
  show thesis
  proof (cases "ac_isConsumed ch")
    case True
    with Some show thesis by (intro used) (simp_all add: response_challenge_def)
  next
    case False
    show thesis
    proof (cases "fresh n ch \<and> sm_SessionID m = ac_sessionId ch \<and> sm_Nonce m = ac_nonce ch")
      case True
      with Some False show thesis
        by (intro match) (simp_all add: response_challenge_def fresh_iff)
    next
      case no: False
      with Some False show thesis
        by (cases "fresh n ch"; cases "sm_SessionID m = ac_sessionId ch")
          (auto intro: bad simp: response_challenge_def fresh_iff)
    qed
  qed
qed

text \<open>The outcomes of a response from a known device that is not limited.\<close>

lemma response_known_device:
  assumes ok: "HandleAuthResponse api cng ft n h p am cs reg = Some r" and rm: "response_message p = Inr (m, sig)"
    and lim: "auth_IsRateLimited (DeviceIdToString (sm_DeviceIdentity m)) n am = (False, am1)"
    and dev: "response_device api reg (DeviceIdToString (sm_DeviceIdentity m)) = Some (Inr rec)"
  obtains (failed) am2 where "ar_code r \<notin> {AR_SUCCESS, AR_INVALID_PAYLOAD, AR_RATE_LIMITED}"
      "ar_am r = RecordFailure (DeviceIdToString (sm_DeviceIdentity m)) n am2"
      "am2 = am1 \<or> (\<exists>ch. am_activeChallenges am (DeviceIdToString (sm_DeviceIdentity m)) = Some ch \<and>
         am2 = consume (DeviceIdToString (sm_DeviceIdentity m)) ch am1)"
  | (success) ch where "am_activeChallenges am (DeviceIdToString (sm_DeviceIdentity m)) = Some ch" "\<not> ac_isConsumed ch" "fresh n ch"
      "sm_SessionID m = ac_sessionId ch" "sm_Nonce m = ac_nonce ch"
      "VerifyCanonicalSignedMessage cng (dr_publicKey rec) m sig cs = Some (True, ar_crypto r)"
      "ar_code r = AR_SUCCESS" "fh_MessageType (ar_header r) = opcode MT_AUTH_SUCCESS"
      "ar_am r = RecordSuccess (DeviceIdToString (sm_DeviceIdentity m)) (consume (DeviceIdToString (sm_DeviceIdentity m)) ch am1)"
proof -
  let ?d = "DeviceIdToString (sm_DeviceIdentity m)"
  note fr = auth_IsRateLimited_frame [OF lim]
  show thesis
  proof (cases rule: response_challenge_cases [of am1 ?d n m])
    case none
    with ok rm lim dev show thesis
      by (intro failed [of am1]) (auto simp: HandleAuthResponse_def Let_def)
  next
    case used
    with ok rm lim dev show thesis
      by (intro failed [of am1]) (auto simp: HandleAuthResponse_def Let_def)
  next
    case (bad ch code reason)
    with ok rm lim dev fr(1) show thesis
      by (intro failed [of "consume ?d ch am1"]) (auto simp: HandleAuthResponse_def Let_def)
  next
    case (match ch)
    obtain v cs' where v: "VerifyCanonicalSignedMessage cng (dr_publicKey rec) m sig cs = Some (v, cs')"
      using ok rm lim dev match by (auto simp: HandleAuthResponse_def response_verify_def Let_def split: bind_splits)
    show thesis
    proof (cases v)
      case True
      with ok rm lim dev match v fr(1) show thesis
        by (intro success [of ch]) (auto simp: HandleAuthResponse_def response_verify_def response_header_def Let_def)
    next
      case False
      with ok rm lim dev match v fr(1) show thesis
        by (intro failed [of "consume ?d ch am1"]) (auto simp: HandleAuthResponse_def response_verify_def Let_def)
    qed
  qed
qed

text \<open>Every outcome of a response, with the state it leaves.\<close>

lemma HandleAuthResponse_cases:
  assumes "HandleAuthResponse api cng ft n h p am cs reg = Some r"
  obtains (invalid) "\<exists>reason. response_message p = Inl reason" "ar_code r = AR_INVALID_PAYLOAD" "ar_am r = am"
  | (limited) m sig where "response_message p = Inr (m, sig)"
      "auth_IsRateLimited (DeviceIdToString (sm_DeviceIdentity m)) n am = (True, am)"
      "ar_code r = AR_RATE_LIMITED" "ar_am r = am"
  | (failed) m sig am1 am2 where "response_message p = Inr (m, sig)"
      "auth_IsRateLimited (DeviceIdToString (sm_DeviceIdentity m)) n am = (False, am1)"
      "ar_code r \<notin> {AR_SUCCESS, AR_INVALID_PAYLOAD, AR_RATE_LIMITED}"
      "ar_am r = RecordFailure (DeviceIdToString (sm_DeviceIdentity m)) n am2"
      "am2 = am1 \<or> (\<exists>ch. am_activeChallenges am (DeviceIdToString (sm_DeviceIdentity m)) = Some ch \<and>
         am2 = consume (DeviceIdToString (sm_DeviceIdentity m)) ch am1)"
  | (success) m sig am1 rec ch where "response_message p = Inr (m, sig)"
      "auth_IsRateLimited (DeviceIdToString (sm_DeviceIdentity m)) n am = (False, am1)"
      "ReadDeviceRecord api reg (DeviceIdToString (sm_DeviceIdentity m)) DeviceRecord_init = Some (ERROR_SUCCESS, rec)"
      "dr_pairStatus rec = kStatusActive" "dr_publicKey rec \<noteq> []"
      "am_activeChallenges am (DeviceIdToString (sm_DeviceIdentity m)) = Some ch" "\<not> ac_isConsumed ch" "fresh n ch"
      "sm_SessionID m = ac_sessionId ch" "sm_Nonce m = ac_nonce ch"
      "VerifyCanonicalSignedMessage cng (dr_publicKey rec) m sig cs = Some (True, ar_crypto r)"
      "ar_code r = AR_SUCCESS" "fh_MessageType (ar_header r) = opcode MT_AUTH_SUCCESS"
      "ar_am r = RecordSuccess (DeviceIdToString (sm_DeviceIdentity m))
         (consume (DeviceIdToString (sm_DeviceIdentity m)) ch am1)"
proof (cases "response_message p")
  case (Inl reason)
  with assms show thesis by (intro invalid) (auto simp: HandleAuthResponse_def Let_def)
next
  case (Inr ms)
  obtain m sig where ms: "ms = (m, sig)" by (cases ms)
  note rm = Inr [unfolded ms]
  let ?d = "DeviceIdToString (sm_DeviceIdentity m)"
  obtain b am1 where lim: "auth_IsRateLimited ?d n am = (b, am1)" by fastforce
  note fr = auth_IsRateLimited_frame [OF lim]
  show thesis
  proof (cases b)
    case True
    with fr(4) have "am1 = am" by blast
    with True lim rm assms show thesis
      by (intro limited [of m sig]) (auto simp: HandleAuthResponse_def Let_def)
  next
    case False
    obtain dev where dev: "response_device api reg ?d = Some dev"
      using assms rm lim False by (auto simp: HandleAuthResponse_def Let_def split: bind_splits)
    show thesis
    proof (cases dev)
      case (Inl e)
      obtain code reason where e: "e = (code, reason)" by (cases e)
      have "code \<in> {AR_UNKNOWN_DEVICE, AR_DEVICE_REVOKED, AR_MISSING_PUBLIC_KEY}"
        using dev Inl e by (auto simp: response_device_def split: bind_splits if_splits)
      with assms rm lim False dev Inl e show thesis
        by (intro failed [of m sig am1 am1]) (auto simp: HandleAuthResponse_def Let_def)
    next
      case dev_ok: (Inr rec)
      have rec: "ReadDeviceRecord api reg ?d DeviceRecord_init = Some (ERROR_SUCCESS, rec)"
        "dr_pairStatus rec = kStatusActive" "dr_publicKey rec \<noteq> []"
        using dev dev_ok by (auto simp: response_device_def split: bind_splits if_splits)
      from lim False have lim': "auth_IsRateLimited ?d n am = (False, am1)" by simp
      from dev dev_ok have "response_device api reg ?d = Some (Inr rec)" by simp
      from assms rm lim' this show thesis
        by (cases rule: response_known_device) (use rm lim' rec in \<open>blast intro: failed success\<close>)+
    qed
  qed
qed

lemma HandleAuthRequest_cases:
  assumes "HandleAuthRequest api cng n dev h out am cs reg = Some r"
  obtains (limited) "auth_IsRateLimited (DeviceIdToString dev) n am = (True, am)" "ar_code r = AR_RATE_LIMITED" "ar_am r = am"
  | (refused) am1 where "auth_IsRateLimited (DeviceIdToString dev) n am = (False, am1)" "ar_code r \<noteq> AR_SUCCESS"
      "ar_am r = am1 \<or> ar_am r = am1\<lparr>am_sessionCounter := am_sessionCounter am1 + 1\<rparr>"
  | (issued) am1 nonce rec where "auth_IsRateLimited (DeviceIdToString dev) n am = (False, am1)" "ar_code r = AR_SUCCESS"
      "ReadDeviceRecord api reg (DeviceIdToString dev) DeviceRecord_init = Some (ERROR_SUCCESS, rec)"
      "dr_pairStatus rec = kStatusActive" "dr_publicKey rec \<noteq> []" "fst (GenerateRandomBytes cng 32 cs) = Some nonce"
      "ar_am r = am1\<lparr>am_sessionCounter := am_sessionCounter am1 + 1,
         am_activeChallenges := (am_activeChallenges am1)(DeviceIdToString dev := Some
           \<lparr>ac_deviceId = dev, ac_sessionId = am_sessionCounter am1, ac_nonce = nonce, ac_createdAtMs = n, ac_isConsumed = False\<rparr>)\<rparr>"
proof -
  obtain b am1 where lim: "auth_IsRateLimited (DeviceIdToString dev) n am = (b, am1)" by fastforce
  note fr = auth_IsRateLimited_frame [OF lim]
  show thesis
  proof (cases b)
    case True
    with fr(4) lim assms show thesis
      by (intro limited) (auto simp: HandleAuthRequest_def Let_def)
  next
    case False
    obtain res rec where rd: "ReadDeviceRecord api reg (DeviceIdToString dev) DeviceRecord_init = Some (res, rec)"
      using assms lim False by (auto simp: HandleAuthRequest_def Let_def split: bind_splits)
    show thesis
    proof (cases "res = ERROR_SUCCESS \<and> dr_pairStatus rec = kStatusActive \<and> dr_publicKey rec \<noteq> []")
      case True
      then have r: "r = issue_challenge cng n dev h out am1 cs reg"
        using assms lim False rd by (auto simp: HandleAuthRequest_def Let_def)
      obtain nc cs' where g: "GenerateRandomBytes cng 32 cs = (nc, cs')" by fastforce
      show thesis
      proof (cases nc)
        case None
        with r g lim False show thesis
          by (intro refused [of am1]) (auto simp: issue_challenge_def Let_def)
      next
        case (Some nonce)
        with r g lim False rd True show thesis
          by (intro issued [of am1 rec nonce]) (auto simp: issue_challenge_def Let_def)
      qed
    next
      case no: False
      with assms lim False rd show thesis
        by (intro refused [of am1]) (auto simp: HandleAuthRequest_def Let_def split: if_splits)
    qed
  qed
qed

text \<open>C4: authentication succeeds only when every check passed: the payload is a canonical message followed by a 64-byte
  signature, the device it names is registered, active and has a key, the device was issued a challenge that
  is unused and at most 30 seconds old and whose session and nonce the message carries, and the signature
  verifies under the registered key. The challenge is used up.\<close>

theorem auth_success_sound:
  assumes "HandleAuthResponse api cng ft n h p am cs reg = Some r" "ar_code r = AR_SUCCESS"
  shows "\<exists>m sig rec ch. p = SerializeSignedMessage m @ sig \<and> signed_message_ok m \<and> length sig = P1363_SIGNATURE_SIZE \<and>
    ReadDeviceRecord api reg (DeviceIdToString (sm_DeviceIdentity m)) DeviceRecord_init = Some (ERROR_SUCCESS, rec) \<and>
    dr_pairStatus rec = kStatusActive \<and> dr_publicKey rec \<noteq> [] \<and>
    am_activeChallenges am (DeviceIdToString (sm_DeviceIdentity m)) = Some ch \<and> \<not> ac_isConsumed ch \<and>
    unat (ac_createdAtMs ch) \<le> unat n \<and> unat n - unat (ac_createdAtMs ch) \<le> 30000 \<and>
    sm_SessionID m = ac_sessionId ch \<and> sm_Nonce m = ac_nonce ch \<and>
    VerifyCanonicalSignedMessage cng (dr_publicKey rec) m sig cs = Some (True, ar_crypto r) \<and>
    am_activeChallenges (ar_am r) (DeviceIdToString (sm_DeviceIdentity m)) = Some (ch\<lparr>ac_isConsumed := True\<rparr>) \<and>
    fh_MessageType (ar_header r) = opcode MT_AUTH_SUCCESS"
  using assms(1)
proof (cases rule: HandleAuthResponse_cases)
  case (success m sig am1 rec ch)
  from success(1) have "p = SerializeSignedMessage m @ sig" "signed_message_ok m" "length sig = P1363_SIGNATURE_SIZE"
    by (simp_all add: response_message_Inr)
  moreover have "am_activeChallenges (ar_am r) (DeviceIdToString (sm_DeviceIdentity m)) = Some (ch\<lparr>ac_isConsumed := True\<rparr>)"
    by (simp add: success)
  ultimately show ?thesis
    using success by (auto simp: fresh_def)
qed (use assms(2) in auto)

section \<open>Runs of the manager\<close>

text \<open>
  The calls of one service lifetime: requests, responses, a new server identity, and changes that other components
  make to the registry and the crypto state in between.
\<close>

datatype 'w auth_op =
    OpAuthRequest cng_api u64 DeviceId FrameHeader FrameHeader
  | OpAuthResponse cng_api FILETIME u64 FrameHeader bytes
  | OpServerIdentity bytes
  | OpElsewhere crypto_state "'w reg_state"

type_synonym 'w auth_state = "AuthenticationManager \<times> crypto_state \<times> 'w reg_state"

fun auth_exec :: "'w reg_api \<Rightarrow> 'w auth_op \<Rightarrow> 'w auth_state \<Rightarrow> (AuthResultCode option \<times> 'w auth_state) option" where
  "auth_exec api (OpAuthRequest cng n dev h out) (am, cs, reg) =
     map_option (\<lambda>r. (Some (ar_code r), ar_am r, ar_crypto r, ar_reg r)) (HandleAuthRequest api cng n dev h out am cs reg)"
| "auth_exec api (OpAuthResponse cng ft n h p) (am, cs, reg) =
     map_option (\<lambda>r. (Some (ar_code r), ar_am r, ar_crypto r, ar_reg r)) (HandleAuthResponse api cng ft n h p am cs reg)"
| "auth_exec api (OpServerIdentity sid) (am, cs, reg) = Some (None, SetServerIdentity sid am, cs, reg)"
| "auth_exec api (OpElsewhere cs' reg') (am, cs, reg) = Some (None, am, cs', reg')"

definition auth_step :: "'w reg_api \<Rightarrow> 'w auth_state \<Rightarrow> 'w auth_op \<times> AuthResultCode option \<Rightarrow> 'w auth_state \<Rightarrow> bool" where
  "auth_step api st e st' \<longleftrightarrow> auth_exec api (fst e) st = Some (snd e, st')"

text \<open>The session number a response carries.\<close>

definition resp_session :: "bytes \<Rightarrow> u64" where
  "resp_session p = (case response_message p of Inl _ \<Rightarrow> 0 | Inr (m, _) \<Rightarrow> sm_SessionID m)"

text \<open>The sessions that succeeded in a history.\<close>

fun success_session :: "'w auth_op \<times> AuthResultCode option \<Rightarrow> u64 list" where
  "success_session (OpAuthResponse _ _ _ _ p, Some AR_SUCCESS) = [resp_session p]"
| "success_session _ = []"

definition succeeded :: "('w auth_op \<times> AuthResultCode option) list \<Rightarrow> u64 list" where
  "succeeded es = concat (map success_session es)"

text \<open>
  The bookkeeping invariant, over the history \<open>es\<close>: session numbers are below the counter, which counts requests;
  the challenges of two devices have different numbers; a session that succeeded is consumed wherever it is
  still stored; no session succeeded twice; and an unused challenge was issued by a request of its device.
\<close>

definition auth_inv :: "('w auth_op \<times> AuthResultCode option) list \<Rightarrow> AuthenticationManager \<Rightarrow> bool" where
  "auth_inv es am \<longleftrightarrow>
     unat (am_sessionCounter am) \<le> Suc (length es) \<and>
     (\<forall>d ch. am_activeChallenges am d = Some ch \<longrightarrow> unat (ac_sessionId ch) < unat (am_sessionCounter am)) \<and>
     (\<forall>d ch d' ch'. am_activeChallenges am d = Some ch \<longrightarrow> am_activeChallenges am d' = Some ch' \<longrightarrow>
        ac_sessionId ch = ac_sessionId ch' \<longrightarrow> d = d') \<and>
     (\<forall>k\<in>set (succeeded es). unat k < unat (am_sessionCounter am)) \<and>
     (\<forall>d ch. am_activeChallenges am d = Some ch \<longrightarrow> ac_sessionId ch \<in> set (succeeded es) \<longrightarrow> ac_isConsumed ch) \<and>
     distinct (succeeded es)"

lemma auth_inv_new: "auth_inv [] AuthenticationManager_new"
  by (simp add: auth_inv_def AuthenticationManager_new_def succeeded_def)

lemma succeeded_snoc [simp]: "succeeded (es @ [e]) = succeeded es @ success_session e"
  by (simp add: succeeded_def)

text \<open>Steps that only consume challenges, or do not touch them, keep the invariant.\<close>

lemma auth_inv_consuming:
  assumes "auth_inv es am" "success_session e = []"
    and "am_sessionCounter am' = am_sessionCounter am"
    and "\<And>d ch'. am_activeChallenges am' d = Some ch' \<Longrightarrow>
      \<exists>ch. am_activeChallenges am d = Some ch \<and> ac_sessionId ch' = ac_sessionId ch \<and> (ac_isConsumed ch \<longrightarrow> ac_isConsumed ch')"
  shows "auth_inv (es @ [e]) am'"
proof -
  have inj: "d = d'" if h: "am_activeChallenges am' d = Some c" "am_activeChallenges am' d' = Some c'" "ac_sessionId c = ac_sessionId c'"
    for d c d' c'
  proof -
    obtain a where "am_activeChallenges am d = Some a" "ac_sessionId c = ac_sessionId a"
      using assms(4) [OF h(1)] by blast
    moreover obtain a' where "am_activeChallenges am d' = Some a'" "ac_sessionId c' = ac_sessionId a'"
      using assms(4) [OF h(2)] by blast
    ultimately show ?thesis
      using assms(1) h(3) unfolding auth_inv_def by metis
  qed
  have "unat (ac_sessionId c) < unat (am_sessionCounter am')" if "am_activeChallenges am' d = Some c" for d c
    using assms(1,3) assms(4) [OF that] unfolding auth_inv_def by metis
  moreover have "ac_isConsumed c" if "am_activeChallenges am' d = Some c" "ac_sessionId c \<in> set (succeeded es)" for d c
    using assms(1) assms(4) [OF that(1)] that(2) unfolding auth_inv_def by metis
  ultimately show ?thesis
    using assms(1,2,3) inj unfolding auth_inv_def by auto
qed

lemma auth_inv_issue:
  assumes inv: "auth_inv es am" and "success_session e = []" and len: "length es < 2 ^ 64 - 2"
    and "am_sessionCounter am' = am_sessionCounter am + 1"
    and "am_activeChallenges am' = am_activeChallenges am \<or>
      am_activeChallenges am' = (am_activeChallenges am)(d := Some ch)"
    and "ac_sessionId ch = am_sessionCounter am" "\<not> ac_isConsumed ch"
  shows "auth_inv (es @ [e]) am'"
proof -
  have "unat (am_sessionCounter am) \<le> Suc (length es)" using inv by (simp add: auth_inv_def)
  with len have "Suc (unat (am_sessionCounter am)) < 2 ^ LENGTH(64)" by simp
  then have "unat (am_sessionCounter am + 1) = Suc (unat (am_sessionCounter am))"
    by (simp add: unat_word_ariths)
  moreover have "am_sessionCounter am \<notin> set (succeeded es)"
    using inv unfolding auth_inv_def by blast
  moreover have "ac_sessionId c \<noteq> am_sessionCounter am" if "am_activeChallenges am d' = Some c" for d' c
    using inv that unfolding auth_inv_def by (metis less_irrefl)
  ultimately show ?thesis
    using assms unfolding auth_inv_def by (auto simp: less_Suc_eq split: if_splits)
qed

lemma auth_inv_success:
  assumes inv: "auth_inv es am" and e: "success_session e = [ac_sessionId ch]"
    and ch: "am_activeChallenges am d = Some ch" "\<not> ac_isConsumed ch"
    and cnt: "am_sessionCounter am' = am_sessionCounter am"
    and am': "am_activeChallenges am' = (am_activeChallenges am)(d := Some (ch\<lparr>ac_isConsumed := True\<rparr>))"
  shows "auth_inv (es @ [e]) am'"
proof -
  have new: "ac_sessionId ch \<notin> set (succeeded es)"
    using inv ch unfolding auth_inv_def by blast
  have old: "\<exists>a. am_activeChallenges am d' = Some a \<and> ac_sessionId c = ac_sessionId a \<and> (ac_isConsumed a \<longrightarrow> ac_isConsumed c) \<and>
      (d' = d \<longrightarrow> ac_isConsumed c)"
    if "am_activeChallenges am' d' = Some c" for d' c
    using that ch(1) am' by (auto split: if_splits)
  have inj: "d1 = d2" if "am_activeChallenges am' d1 = Some c1" "am_activeChallenges am' d2 = Some c2"
      "ac_sessionId c1 = ac_sessionId c2" for d1 d2 c1 c2
    using inv old [OF that(1)] old [OF that(2)] that(3) unfolding auth_inv_def by metis
  have below: "unat (ac_sessionId c) < unat (am_sessionCounter am')" if "am_activeChallenges am' d' = Some c" for d' c
    using inv old [OF that] cnt unfolding auth_inv_def by metis
  have used: "ac_isConsumed c" if "am_activeChallenges am' d' = Some c" "ac_sessionId c \<in> set (succeeded (es @ [e]))" for d' c
  proof (cases "ac_sessionId c = ac_sessionId ch")
    case True
    then have "d' = d"
      using inv old [OF that(1)] ch(1) unfolding auth_inv_def by metis
    then show ?thesis using old [OF that(1)] by blast
  next
    case False
    with that(2) e have "ac_sessionId c \<in> set (succeeded es)" by simp
    then show ?thesis
      using inv old [OF that(1)] unfolding auth_inv_def by metis
  qed
  have "unat (am_sessionCounter am') \<le> Suc (length (es @ [e]))" "distinct (succeeded (es @ [e]))"
    "\<forall>k\<in>set (succeeded (es @ [e])). unat k < unat (am_sessionCounter am')"
    using inv new e cnt ch(1) unfolding auth_inv_def by auto
  with inj below used show ?thesis
    unfolding auth_inv_def by blast
qed

lemma auth_request_inv:
  assumes inv: "auth_inv es am" and len: "length es < 2 ^ 64 - 2" and e: "success_session e = []"
    and r: "HandleAuthRequest api cng n dev h out am cs reg = Some r"
  shows "auth_inv (es @ [e]) (ar_am r)"
  using r
proof (cases rule: HandleAuthRequest_cases)
  case limited
  with e inv show ?thesis by (intro auth_inv_consuming) auto
next
  case (refused am1)
  note fr = auth_IsRateLimited_frame [OF refused(1)]
  show ?thesis
  proof (cases "ar_am r = am1")
    case True
    with e inv fr show ?thesis by (intro auth_inv_consuming) auto
  next
    case False
    with refused(3) fr show ?thesis
      by (intro auth_inv_issue [OF inv e len, where ch = "\<lparr>ac_deviceId = [], ac_sessionId = am_sessionCounter am,
          ac_nonce = [], ac_createdAtMs = 0, ac_isConsumed = False\<rparr>"]) auto
  qed
next
  case (issued am1 nonce rec)
  note fr = auth_IsRateLimited_frame [OF issued(1)]
  with issued show ?thesis
    by (intro auth_inv_issue [OF inv e len, where d = "DeviceIdToString dev" and
        ch = "\<lparr>ac_deviceId = dev, ac_sessionId = am_sessionCounter am1, ac_nonce = nonce, ac_createdAtMs = n, ac_isConsumed = False\<rparr>"])
      auto
qed

lemma auth_response_inv:
  assumes inv: "auth_inv es am" and r: "HandleAuthResponse api cng ft n h p am cs reg = Some r"
    and e: "ar_code r \<noteq> AR_SUCCESS \<Longrightarrow> success_session e = []"
    and s: "\<And>m sig. response_message p = Inr (m, sig) \<Longrightarrow> ar_code r = AR_SUCCESS \<Longrightarrow> success_session e = [sm_SessionID m]"
  shows "auth_inv (es @ [e]) (ar_am r)"
  using r
proof (cases rule: HandleAuthResponse_cases)
  case invalid
  with e inv show ?thesis by (intro auth_inv_consuming) auto
next
  case (limited m sig)
  with e inv show ?thesis by (intro auth_inv_consuming) auto
next
  case (failed m sig am1 am2)
  note fr = auth_IsRateLimited_frame [OF failed(2)]
  have "success_session e = []" using failed(3) e by auto
  with inv fr failed(4,5) show ?thesis
    by (intro auth_inv_consuming [OF inv]) (auto split: if_splits)
next
  case (success m sig am1 rec ch)
  note fr = auth_IsRateLimited_frame [OF success(2)]
  have "success_session e = [ac_sessionId ch]" using s success by simp
  with fr success show ?thesis
    by (intro auth_inv_success [OF inv, where d = "DeviceIdToString (sm_DeviceIdentity m)" and ch = ch]) auto
qed

lemma auth_step_inv:
  assumes inv: "auth_inv es am" and len: "length es < 2 ^ 64 - 2"
    and step: "auth_step api (am, cs, reg) e (am', cs', reg')"
  shows "auth_inv (es @ [e]) am'"
proof (cases "fst e")
  case (OpAuthRequest cng n dev h out)
  then have "success_session e = []" by (cases e) simp
  with OpAuthRequest show ?thesis
    using step by (auto simp: auth_step_def intro: auth_request_inv [OF inv len])
next
  case (OpAuthResponse cng ft n h p)
  then obtain r where r: "HandleAuthResponse api cng ft n h p am cs reg = Some r" "ar_am r = am'" "snd e = Some (ar_code r)"
    using step by (auto simp: auth_step_def)
  have "ar_code r \<noteq> AR_SUCCESS \<Longrightarrow> success_session e = []"
    using OpAuthResponse r(3) by (cases e; cases "ar_code r") auto
  moreover have "success_session e = [sm_SessionID m]" if "response_message p = Inr (m, sig)" "ar_code r = AR_SUCCESS" for m sig
    using OpAuthResponse r(3) that by (cases e) (simp add: resp_session_def)
  ultimately show ?thesis
    using auth_response_inv [OF inv r(1)] r(2) by blast
next
  case (OpServerIdentity sid)
  with step inv show ?thesis
    by (intro auth_inv_consuming [OF inv]) (cases e; auto simp: auth_step_def SetServerIdentity_def)+
next
  case (OpElsewhere cs2 reg2)
  with step inv show ?thesis
    by (intro auth_inv_consuming [OF inv]) (cases e; auto simp: auth_step_def)+
qed

lemma auth_run_inv:
  "run (auth_step api) (AuthenticationManager_new, cs0, reg0) es (am, cs, reg) \<Longrightarrow> length es < 2 ^ 64 - 1 \<Longrightarrow> auth_inv es am"
proof (induction es arbitrary: am cs reg rule: rev_induct)
  case Nil
  then show ?case by (auto simp: auth_inv_new)
next
  case (snoc e es)
  then obtain am0 cs1 reg1 where "run (auth_step api) (AuthenticationManager_new, cs0, reg0) es (am0, cs1, reg1)"
      "auth_step api (am0, cs1, reg1) e (am, cs, reg)"
    by (auto simp: run_append)
  with snoc show ?case
    by (intro auth_step_inv [of es am0]) auto
qed

text \<open>C1: no replay. In any history of the service (shorter than the 64-bit session counter), two successful
  authentications never carry the same session number; in particular no response is accepted twice.\<close>

theorem auth_no_replay:
  assumes "run (auth_step api) (AuthenticationManager_new, cs0, reg0) es st" "length es < 2 ^ 64 - 1"
    and "i < j" "j < length es"
    and "es ! i = (OpAuthResponse c1 f1 n1 h1 p1, Some AR_SUCCESS)" "es ! j = (OpAuthResponse c2 f2 n2 h2 p2, Some AR_SUCCESS)"
  shows "resp_session p1 \<noteq> resp_session p2 \<and> p1 \<noteq> p2"
proof -
  obtain am cs reg where st: "st = (am, cs, reg)" by (cases st)
  have d: "distinct (succeeded es)"
    using auth_run_inv [of api cs0 reg0 es am cs reg] assms(1,2) st by (simp add: auth_inv_def)
  have es: "es = take i es @ es ! i # drop (Suc i) es"
    using assms(3,4) by (simp add: id_take_nth_drop)
  have "resp_session p1 \<notin> set (succeeded (drop (Suc i) es))"
    using d unfolding succeeded_def by (subst (asm) es) (auto simp: assms(5))
  moreover have "es ! j = drop (Suc i) es ! (j - Suc i)" "j - Suc i < length (drop (Suc i) es)"
    using assms(3,4) by auto
  then have "es ! j \<in> set (drop (Suc i) es)"
    by (metis nth_mem)
  then have "resp_session p2 \<in> set (succeeded (drop (Suc i) es))"
    unfolding succeeded_def using assms(6) by force
  ultimately show ?thesis by auto
qed

text \<open>Where an active challenge comes from.\<close>

definition issued_by :: "('w auth_op \<times> AuthResultCode option) list \<Rightarrow> string \<Rightarrow> ActiveChallenge \<Rightarrow> bool" where
  "issued_by es d ch \<longleftrightarrow> (\<exists>es1 cng dev h out es2 cs.
     es = es1 @ (OpAuthRequest cng (ac_createdAtMs ch) dev h out, Some AR_SUCCESS) # es2 \<and> d = DeviceIdToString dev \<and>
     fst (GenerateRandomBytes cng 32 cs) = Some (ac_nonce ch))"

lemma issued_by_extend: "issued_by es d ch \<Longrightarrow> issued_by (es @ [e]) d ch"
  unfolding issued_by_def by (metis append.assoc append_Cons)

lemma issued_by_consumed [simp]: "issued_by es d (ch\<lparr>ac_isConsumed := b\<rparr>) = issued_by es d ch"
  by (simp add: issued_by_def)

lemma auth_request_challenges:
  assumes r: "HandleAuthRequest api cng n dev h out am cs reg = Some r" and "am_activeChallenges (ar_am r) d = Some ch'"
  shows "am_activeChallenges am d = Some ch' \<or> issued_by [(OpAuthRequest cng n dev h out, Some (ar_code r))] d ch'"
  using r
proof (cases rule: HandleAuthRequest_cases)
  case limited
  with assms(2) show ?thesis by auto
next
  case (refused am1)
  with assms(2) auth_IsRateLimited_frame [OF refused(1)] show ?thesis by auto
next
  case (issued am1 nonce rec)
  note fr = auth_IsRateLimited_frame [OF issued(1)]
  show ?thesis
  proof (cases "d = DeviceIdToString dev")
    case True
    then have "issued_by [(OpAuthRequest cng n dev h out, Some (ar_code r))] d ch'"
      using issued assms(2) unfolding issued_by_def
      by (intro exI [of _ "[]"] exI [of _ cng] exI [of _ dev] exI [of _ h] exI [of _ out] exI [of _ "[]"] exI [of _ cs]) auto
    then show ?thesis by blast
  next
    case False
    with issued assms(2) fr show ?thesis by auto
  qed
qed

lemma auth_step_challenges:
  assumes step: "auth_step api (am, cs, reg) e (am', cs', reg')" and "am_activeChallenges am' d = Some ch'"
  shows "(\<exists>ch. am_activeChallenges am d = Some ch \<and> (ch' = ch \<or> ch' = ch\<lparr>ac_isConsumed := True\<rparr>)) \<or> issued_by [e] d ch'"
proof (cases "fst e")
  case (OpAuthRequest cng n dev h out)
  then obtain r where r: "HandleAuthRequest api cng n dev h out am cs reg = Some r" "ar_am r = am'" "e = (OpAuthRequest cng n dev h out, Some (ar_code r))"
    using step by (cases e) (auto simp: auth_step_def)
  from auth_request_challenges [OF r(1), of d ch'] r assms(2) show ?thesis by auto
next
  case (OpAuthResponse cng ft n h p)
  then obtain r where r: "HandleAuthResponse api cng ft n h p am cs reg = Some r" "ar_am r = am'"
    using step by (auto simp: auth_step_def)
  from r(1) show ?thesis
  proof (cases rule: HandleAuthResponse_cases)
    case (failed m sig am1 am2)
    with r assms(2) auth_IsRateLimited_frame [OF failed(2)] show ?thesis
      by (auto split: if_splits)
  next
    case (success m sig am1 rec ch)
    with r assms(2) auth_IsRateLimited_frame [OF success(2)] show ?thesis
      by (auto split: if_splits)
  qed (use r assms(2) in auto)
qed (use step assms(2) in \<open>auto simp: auth_step_def SetServerIdentity_def\<close>)

lemma challenge_issued:
  "run (auth_step api) (AuthenticationManager_new, cs0, reg0) es (am, cs, reg) \<Longrightarrow>
   am_activeChallenges am d = Some ch \<Longrightarrow> issued_by es d ch"
proof (induction es arbitrary: am cs reg ch rule: rev_induct)
  case Nil
  then show ?case by (auto simp: AuthenticationManager_new_def)
next
  case (snoc e es)
  then obtain am0 cs1 reg1 where run: "run (auth_step api) (AuthenticationManager_new, cs0, reg0) es (am0, cs1, reg1)"
      and step: "auth_step api (am0, cs1, reg1) e (am, cs, reg)"
    by (auto simp: run_append)
  from auth_step_challenges [OF step snoc.prems(2)] show ?case
  proof (elim disjE exE conjE)
    assume "issued_by [e] d ch"
    then show ?thesis
      unfolding issued_by_def by (metis append.assoc)
  qed (use snoc.IH [OF run] issued_by_extend [of es] in auto)
qed

text \<open>Freshness. Every success answers a challenge that this manager issued to this device: the history contains a
  granted request of the device, at most 30 seconds old, whose random nonce the signed message carries.\<close>

theorem auth_answers_issued_challenge:
  assumes "run (auth_step api) (AuthenticationManager_new, cs0, reg0) es (am, cs, reg)"
    and "HandleAuthResponse api cng ft n h p am cs reg = Some r" "ar_code r = AR_SUCCESS"
  shows "\<exists>m sig es1 cng0 t dev h0 out es2 cs1. response_message p = Inr (m, sig) \<and>
    es = es1 @ (OpAuthRequest cng0 t dev h0 out, Some AR_SUCCESS) # es2 \<and>
    DeviceIdToString dev = DeviceIdToString (sm_DeviceIdentity m) \<and>
    unat t \<le> unat n \<and> unat n - unat t \<le> 30000 \<and>
    fst (GenerateRandomBytes cng0 32 cs1) = Some (sm_Nonce m)"
  using assms(2)
proof (cases rule: HandleAuthResponse_cases)
  case (success m sig am1 rec ch)
  from challenge_issued [OF assms(1) success(6)] obtain es1 cng0 dev h0 out es2 cs1 where
    "es = es1 @ (OpAuthRequest cng0 (ac_createdAtMs ch) dev h0 out, Some AR_SUCCESS) # es2"
    "DeviceIdToString (sm_DeviceIdentity m) = DeviceIdToString dev" "fst (GenerateRandomBytes cng0 32 cs1) = Some (ac_nonce ch)"
    unfolding issued_by_def by blast
  with success show ?thesis unfolding fresh_def by metis
qed (use assms(3) in auto)

section \<open>Lockout\<close>

lemma limited_iff:
  "fst (auth_IsRateLimited d n am) \<longleftrightarrow> (\<exists>l. am_rateLimits am d = Some l \<and> n < rl_lockoutUntilMs l)"
  by (auto simp: auth_IsRateLimited_def split: option.splits)

text \<open>The device a response names, if it names one.\<close>

definition resp_device :: "bytes \<Rightarrow> string option" where
  "resp_device p = (case response_message p of Inl _ \<Rightarrow> None | Inr (m, _) \<Rightarrow> Some (DeviceIdToString (sm_DeviceIdentity m)))"

definition counted_failure :: "AuthResultCode \<Rightarrow> bool" where
  "counted_failure c \<longleftrightarrow> c \<notin> {AR_SUCCESS, AR_INVALID_PAYLOAD, AR_RATE_LIMITED}"

lemma failure_counted:
  assumes "HandleAuthResponse api cng ft n h p am cs reg = Some r" "counted_failure (ar_code r)" "resp_device p = Some d"
    and l: "l = (case am_rateLimits am d of None \<Rightarrow> \<lparr>rl_failedCount = 0, rl_lockoutUntilMs = 0\<rparr> | Some l \<Rightarrow> l)"
    and "rl_lockoutUntilMs l = 0"
  shows "am_rateLimits (ar_am r) d = Some (if rl_failedCount l + 1 \<ge> MAX_FAILED_ATTEMPTS
     then \<lparr>rl_failedCount = rl_failedCount l + 1, rl_lockoutUntilMs = n + LOCKOUT_DURATION_SEC * 1000\<rparr>
     else \<lparr>rl_failedCount = rl_failedCount l + 1, rl_lockoutUntilMs = 0\<rparr>)"
  using assms(1)
proof (cases rule: HandleAuthResponse_cases)
  case (failed m sig am1 am2)
  have d: "d = DeviceIdToString (sm_DeviceIdentity m)"
    using assms(3) failed(1) by (simp add: resp_device_def)
  have "am_rateLimits am2 d = am_rateLimits am d"
    using failed(2,5) assms(5) l by (auto simp: d auth_IsRateLimited_def split: option.splits if_splits)
  then show ?thesis
    using assms(5) unfolding failed(4) d [symmetric] l RecordFailure_def
    by (auto simp: Let_def split: option.splits)
qed (use assms(2) in \<open>auto simp: counted_failure_def\<close>)

text \<open>C19: three failures lock a device out. After three successive failed responses of a device without a recorded
  failure before, every request and every response of it is refused as rate-limited, without effect on the
  manager, until 15 minutes after the third failure. The failures may be any time apart and of any kind that \<^verbatim>\<open>RecordFailure\<close> is called for, an
  unknown or inactive device and a missing, replayed or expired challenge as well as a wrong signature. This is more than
  \<^verbatim>\<open>docs/SECURITY.md\<close> describes, which has the block only after three failed signature validations within 60 seconds.\<close>

theorem lockout_after_three_failures:
  assumes "am_rateLimits am d = None"
    and "HandleAuthResponse api cng1 f1 t1 h1 p1 am cs1 reg1 = Some r1" "resp_device p1 = Some d" "counted_failure (ar_code r1)"
    and "HandleAuthResponse api cng2 f2 t2 h2 p2 (ar_am r1) cs2 reg2 = Some r2" "resp_device p2 = Some d" "counted_failure (ar_code r2)"
    and "HandleAuthResponse api cng3 f3 t3 h3 p3 (ar_am r2) cs3 reg3 = Some r3" "resp_device p3 = Some d" "counted_failure (ar_code r3)"
    and "n < t3 + LOCKOUT_DURATION_SEC * 1000"
    and "DeviceIdToString dev = d" "resp_device p = Some d"
  shows "HandleAuthRequest api cng n dev h out (ar_am r3) cs reg =
      Some (request_refused AR_RATE_LIMITED ''RATE_LIMITED'' h out (ar_am r3) cs reg) \<and>
    HandleAuthResponse api cng ft n h p (ar_am r3) cs reg =
      Some (response_failed AR_RATE_LIMITED ''RATE_LIMITED'' h (ar_am r3) cs reg)"
proof -
  have 1: "am_rateLimits (ar_am r1) d = Some \<lparr>rl_failedCount = 1, rl_lockoutUntilMs = 0\<rparr>"
    using failure_counted [OF assms(2,4,3) refl] assms(1) by (simp add: MAX_FAILED_ATTEMPTS_def)
  have 2: "am_rateLimits (ar_am r2) d = Some \<lparr>rl_failedCount = 2, rl_lockoutUntilMs = 0\<rparr>"
    using failure_counted [OF assms(5,7,6) refl] 1 by (simp add: MAX_FAILED_ATTEMPTS_def)
  have 3: "am_rateLimits (ar_am r3) d = Some \<lparr>rl_failedCount = 3, rl_lockoutUntilMs = t3 + LOCKOUT_DURATION_SEC * 1000\<rparr>"
    using failure_counted [OF assms(8,10,9) refl] 2 by (simp add: MAX_FAILED_ATTEMPTS_def)
  then have lim: "auth_IsRateLimited d n (ar_am r3) = (True, ar_am r3)"
    using assms(11) by (simp add: auth_IsRateLimited_def)
  obtain m sig where "response_message p = Inr (m, sig)" "d = DeviceIdToString (sm_DeviceIdentity m)"
    using assms(13) by (auto simp: resp_device_def split: sum.splits)
  then show ?thesis
    using lim assms(12) by (simp add: HandleAuthRequest_def HandleAuthResponse_def)
qed

section \<open>A concrete authentication\<close>

definition demo_record :: DeviceRecord where
  "demo_record = sample_record\<lparr>dr_publicKey := replicate 64 3\<rparr>"

definition demo_reg :: "sim_world reg_state" where
  "demo_reg = snd (WriteDeviceRecord sim_api demo_record sample_state)"

definition demo_dev :: string where
  "demo_dev = DeviceIdToString (dr_deviceId demo_record)"

definition demo_msg :: "MessageType \<Rightarrow> u64 \<Rightarrow> SignedMessage" where
  "demo_msg op k = SignedMessage_init\<lparr>sm_DeviceIdentity := dr_deviceId demo_record, sm_Operation := opcode op,
     sm_SessionID := k, sm_Nonce := replicate 32 9\<rparr>"

definition demo_payload :: "MessageType \<Rightarrow> u64 \<Rightarrow> bytes" where
  "demo_payload op k = SerializeSignedMessage (demo_msg op k) @ replicate 64 7"

lemma demo_read: "ReadDeviceRecord sim_api demo_reg demo_dev DeviceRecord_init = Some (ERROR_SUCCESS, demo_record)"
proof -
  have "storable demo_record"
    using storable_sample by (simp add: storable_def demo_record_def)
  moreover have "WriteDeviceRecord sim_api demo_record sample_state = (ERROR_SUCCESS, demo_reg)"
    by (simp add: prod_eq_iff sim_write demo_reg_def)
  ultimately show ?thesis
    unfolding demo_dev_def by (intro read_after_write [OF sim_laws sim_available]) (simp_all add: DeviceRecord_init_def)
qed

lemma demo_message: "op \<noteq> MT_UNKNOWN \<Longrightarrow> response_message (demo_payload op k) = Inr (demo_msg op k, replicate 64 7)"
  by (simp add: response_message_Inr demo_payload_def P1363_SIGNATURE_SIZE_def signed_message_ok_def signed_message_wf_def
      demo_msg_def SignedMessage_init_def demo_record_def sample_record_def)

text \<open>A request and its response, from any state in which the device has no failures.\<close>

abbreviation demo_challenge :: "u64 \<Rightarrow> ActiveChallenge" where
  "demo_challenge n \<equiv> \<lparr>ac_deviceId = dr_deviceId demo_record, ac_sessionId = n, ac_nonce = replicate 32 9,
    ac_createdAtMs = 1000, ac_isConsumed = False\<rparr>"

definition demo_issued :: "AuthenticationManager \<Rightarrow> AuthenticationManager" where
  "demo_issued am = am\<lparr>am_sessionCounter := am_sessionCounter am + 1,
    am_activeChallenges := (am_activeChallenges am)(demo_dev := Some (demo_challenge (am_sessionCounter am)))\<rparr>"

lemma demo_facts:
  "DeviceIdToString (dr_deviceId demo_record) = demo_dev" "dr_pairStatus demo_record = kStatusActive" "dr_publicKey demo_record = replicate 64 3"
  by (simp_all add: demo_dev_def demo_record_def sample_record_def)

lemma demo_unlimited: "am_rateLimits am demo_dev = None \<Longrightarrow> auth_IsRateLimited demo_dev n am = (False, am)"
  by (simp add: auth_IsRateLimited_def)

lemma demo_request:
  assumes "am_rateLimits am demo_dev = None"
  shows "\<exists>r. HandleAuthRequest sim_api demo_cng 1000 (dr_deviceId demo_record) h FrameHeader_init am cs demo_reg = Some r \<and>
    ar_code r = AR_SUCCESS \<and> ar_am r = demo_issued am \<and> ar_crypto r = snd (GenerateRandomBytes demo_cng 32 cs) \<and> ar_reg r = demo_reg"
proof -
  obtain cs1 where "GenerateRandomBytes demo_cng 32 cs = (Some (replicate 32 9), cs1)"
    using demo_random [of cs] by (metis prod.collapse)
  with demo_unlimited [OF assms] show ?thesis
    by (simp add: HandleAuthRequest_def demo_facts demo_read issue_challenge_def demo_issued_def Let_def)
qed

lemma demo_response:
  assumes "am_rateLimits am demo_dev = None" "op \<noteq> MT_UNKNOWN"
  shows "\<exists>r. HandleAuthResponse sim_api demo_cng FILETIME_zero 2000 h (demo_payload op (am_sessionCounter am)) (demo_issued am) cs
      demo_reg = Some r \<and> ar_code r = AR_SUCCESS \<and>
    ar_am r = RecordSuccess demo_dev (consume demo_dev (demo_challenge (am_sessionCounter am)) (demo_issued am))"
proof -
  let ?m = "demo_msg op (am_sessionCounter am)"
  have m: "sm_DeviceIdentity ?m = dr_deviceId demo_record" "sm_SessionID ?m = am_sessionCounter am"
    "sm_Nonce ?m = replicate 32 9" "signed_message_wf ?m"
    by (simp_all add: demo_msg_def signed_message_wf_def SignedMessage_init_def demo_record_def sample_record_def)
  obtain cs2 where v: "VerifyCanonicalSignedMessage demo_cng (replicate 64 3) ?m (replicate 64 7) cs = Some (True, cs2)"
    using demo_verify [OF m(4)] by blast
  have lim: "am_rateLimits (demo_issued am) demo_dev = None" using assms(1) by (simp add: demo_issued_def)
  have dv: "response_device sim_api demo_reg demo_dev = Some (Inr demo_record)"
    by (simp add: response_device_def demo_read demo_facts)
  have chal: "response_challenge 2000 demo_dev ?m (demo_issued am) = (None, consume demo_dev (demo_challenge (am_sessionCounter am)) (demo_issued am))"
    by (simp add: response_challenge_def demo_issued_def m CHALLENGE_TTL_SECONDS_def)
  show ?thesis
    using v demo_unlimited [OF lim] dv chal
    by (simp add: HandleAuthResponse_def demo_message [OF assms(2)] m demo_facts response_verify_def Let_def)
qed

lemma demo_round:
  assumes "am_rateLimits am demo_dev = None" "op \<noteq> MT_UNKNOWN"
  defines "es \<equiv> [(OpAuthRequest demo_cng 1000 (dr_deviceId demo_record) FrameHeader_init FrameHeader_init, Some AR_SUCCESS),
     (OpAuthResponse demo_cng FILETIME_zero 2000 FrameHeader_init (demo_payload op (am_sessionCounter am)), Some AR_SUCCESS)]"
  obtains am1 cs1 am2 cs2 reg2 r where
    "run (auth_step sim_api) (am, cs, demo_reg) [es ! 0] (am1, cs1, demo_reg)"
    "HandleAuthResponse sim_api demo_cng FILETIME_zero 2000 FrameHeader_init (demo_payload op (am_sessionCounter am)) am1 cs1 demo_reg = Some r"
    "ar_code r = AR_SUCCESS"
    "run (auth_step sim_api) (am, cs, demo_reg) es (am2, cs2, reg2)" "am_rateLimits am2 demo_dev = None"
    "am_sessionCounter am2 = am_sessionCounter am + 1"
proof -
  let ?cs = "snd (GenerateRandomBytes demo_cng 32 cs)"
  have run1: "run (auth_step sim_api) (am, cs, demo_reg) [es ! 0] (demo_issued am, ?cs, demo_reg)"
    using demo_request [OF assms(1), of FrameHeader_init cs] by (auto simp: es_def auth_step_def)
  obtain r where r: "HandleAuthResponse sim_api demo_cng FILETIME_zero 2000 FrameHeader_init (demo_payload op (am_sessionCounter am))
      (demo_issued am) ?cs demo_reg = Some r" "ar_code r = AR_SUCCESS"
    "ar_am r = RecordSuccess demo_dev (consume demo_dev (demo_challenge (am_sessionCounter am)) (demo_issued am))"
    using demo_response [OF assms(1,2)] by blast
  have "run (auth_step sim_api) (am, cs, demo_reg) es (ar_am r, ar_crypto r, ar_reg r)"
    using run1 r(1,2) by (auto simp: es_def auth_step_def)
  moreover have "am_rateLimits (ar_am r) demo_dev = None" "am_sessionCounter (ar_am r) = am_sessionCounter am + 1"
    by (simp_all add: r(3) RecordSuccess_def demo_issued_def)
  ultimately show thesis
    using run1 r(1,2) that by blast
qed

lemma new_unlimited: "am_rateLimits AuthenticationManager_new d = None" "am_sessionCounter AuthenticationManager_new = 1"
  by (simp_all add: AuthenticationManager_new_def)

theorem auth_success_sound_witness:
  "\<exists>am cs r. HandleAuthResponse sim_api demo_cng FILETIME_zero 2000 FrameHeader_init (demo_payload MT_AUTH_RESPONSE 1) am cs demo_reg = Some r \<and>
     fh_MessageType (ar_header r) = opcode MT_AUTH_SUCCESS"
proof -
  obtain am cs r where "HandleAuthResponse sim_api demo_cng FILETIME_zero 2000 FrameHeader_init (demo_payload MT_AUTH_RESPONSE 1) am cs demo_reg = Some r"
      "ar_code r = AR_SUCCESS"
    by (rule demo_round [of AuthenticationManager_new MT_AUTH_RESPONSE crypto_state_init]) (auto simp: new_unlimited)
  with auth_success_sound [OF this] show ?thesis by blast
qed

theorem auth_answers_issued_challenge_witness:
  "\<exists>m sig. response_message (demo_payload MT_AUTH_RESPONSE 1) = Inr (m, sig) \<and> sm_Nonce m = replicate 32 9"
proof -
  obtain am1 cs1 r where "run (auth_step sim_api) (AuthenticationManager_new, crypto_state_init, demo_reg)
      [(OpAuthRequest demo_cng 1000 (dr_deviceId demo_record) FrameHeader_init FrameHeader_init, Some AR_SUCCESS)] (am1, cs1, demo_reg)"
    "HandleAuthResponse sim_api demo_cng FILETIME_zero 2000 FrameHeader_init (demo_payload MT_AUTH_RESPONSE 1) am1 cs1 demo_reg = Some r"
    "ar_code r = AR_SUCCESS"
    by (rule demo_round [of AuthenticationManager_new MT_AUTH_RESPONSE crypto_state_init]) (auto simp: new_unlimited)
  from auth_answers_issued_challenge [OF this] show ?thesis
    by (auto simp: Cons_eq_append_conv demo_random)
qed

theorem auth_no_replay_witness:
  "\<exists>p1 p2 st es. run (auth_step sim_api) (AuthenticationManager_new, crypto_state_init, demo_reg) es st \<and>
     (OpAuthResponse demo_cng FILETIME_zero 2000 FrameHeader_init p1, Some AR_SUCCESS) \<in> set es \<and>
     (OpAuthResponse demo_cng FILETIME_zero 2000 FrameHeader_init p2, Some AR_SUCCESS) \<in> set es \<and> p1 \<noteq> p2"
proof -
  let ?req = "(OpAuthRequest demo_cng 1000 (dr_deviceId demo_record) FrameHeader_init FrameHeader_init, Some AR_SUCCESS)"
  let ?res = "\<lambda>k. (OpAuthResponse demo_cng FILETIME_zero 2000 FrameHeader_init (demo_payload MT_AUTH_RESPONSE k), Some AR_SUCCESS)"
  obtain am2 cs2 reg2 where 1: "run (auth_step sim_api) (AuthenticationManager_new, crypto_state_init, demo_reg) [?req, ?res 1] (am2, cs2, reg2)"
      "am_rateLimits am2 demo_dev = None" "am_sessionCounter am2 = 2"
    by (rule demo_round [of AuthenticationManager_new MT_AUTH_RESPONSE crypto_state_init]) (auto simp: new_unlimited)
  obtain st where 2: "run (auth_step sim_api) (am2, cs2, demo_reg) [?req, ?res 2] st"
    by (rule demo_round [OF 1(2), of MT_AUTH_RESPONSE cs2]) (simp_all add: 1(3) del: run_Cons_iff)
  let ?es = "[?req, ?res 1] @ (OpElsewhere cs2 demo_reg, None) # [?req, ?res 2]"
  have "run (auth_step sim_api) (am2, cs2, reg2) ((OpElsewhere cs2 demo_reg, None) # [?req, ?res 2]) st"
    by (rule run_Cons [where s' = "(am2, cs2, demo_reg)"]) (simp add: auth_step_def, rule 2)
  with 1(1) have run: "run (auth_step sim_api) (AuthenticationManager_new, crypto_state_init, demo_reg) ?es st"
    unfolding run_append by blast
  from auth_no_replay [OF this, of 1 4 demo_cng FILETIME_zero 2000 FrameHeader_init "demo_payload MT_AUTH_RESPONSE 1"
      demo_cng FILETIME_zero 2000 FrameHeader_init "demo_payload MT_AUTH_RESPONSE 2"]
  have "demo_payload MT_AUTH_RESPONSE 1 \<noteq> demo_payload MT_AUTH_RESPONSE 2"
    by (simp del: run_Cons_iff)
  with run show ?thesis
    by (intro exI [of _ "demo_payload MT_AUTH_RESPONSE 1"] exI [of _ "demo_payload MT_AUTH_RESPONSE 2"] exI [of _ st]
        exI [of _ ?es]) (simp del: run_Cons_iff)
qed

text \<open>The handler does not look at the operation the message was signed for: a message that a device signed as a lock
  request for a pending challenge authenticates it just as an authentication response does.\<close>

theorem auth_ignores_operation:
  "\<exists>am cs r. HandleAuthResponse sim_api demo_cng FILETIME_zero 2000 FrameHeader_init (demo_payload MT_LOCK_REQUEST 1) am cs demo_reg = Some r \<and>
     ar_code r = AR_SUCCESS"
proof -
  obtain am cs r where "HandleAuthResponse sim_api demo_cng FILETIME_zero 2000 FrameHeader_init (demo_payload MT_LOCK_REQUEST 1) am cs demo_reg = Some r"
      "ar_code r = AR_SUCCESS"
    by (rule demo_round [of AuthenticationManager_new MT_LOCK_REQUEST crypto_state_init]) (auto simp: new_unlimited)
  then show ?thesis by blast
qed

theorem lockout_after_three_failures_witness:
  "\<exists>am. am_rateLimits am demo_dev \<noteq> None \<and>
     HandleAuthResponse sim_api demo_cng FILETIME_zero 5000 FrameHeader_init (demo_payload MT_AUTH_RESPONSE 1) am crypto_state_init demo_reg =
     Some (response_failed AR_RATE_LIMITED ''RATE_LIMITED'' FrameHeader_init am crypto_state_init demo_reg)"
proof -
  have un: "ReadDeviceRecord sim_api sample_state demo_dev DeviceRecord_init = Some (ERROR_FILE_NOT_FOUND, DeviceRecord_init)"
    by (simp add: ReadDeviceRecord_def sim_api_def sample_state_def win32_consts)
  have dev: "DeviceIdToString (sm_DeviceIdentity (demo_msg MT_AUTH_RESPONSE 1)) = demo_dev"
    by (simp add: demo_msg_def demo_dev_def)
  let ?go = "\<lambda>am. HandleAuthResponse sim_api demo_cng FILETIME_zero 1000 FrameHeader_init (demo_payload MT_AUTH_RESPONSE 1) am crypto_state_init sample_state"
  have step: "\<exists>r. ?go am = Some r \<and> counted_failure (ar_code r) \<and> ar_am r = RecordFailure demo_dev 1000 am"
    if "auth_IsRateLimited demo_dev 1000 am = (False, am)" for am
    using that un
    by (simp add: HandleAuthResponse_def demo_message dev response_device_def win32_consts counted_failure_def)
  have d: "resp_device (demo_payload MT_AUTH_RESPONSE 1) = Some demo_dev"
    by (simp add: resp_device_def demo_message dev)
  obtain r1 where r1: "?go AuthenticationManager_new = Some r1" "counted_failure (ar_code r1)"
      "ar_am r1 = RecordFailure demo_dev 1000 AuthenticationManager_new"
    using step [of AuthenticationManager_new] by (auto simp: auth_IsRateLimited_def new_unlimited)
  obtain r2 where r2: "?go (ar_am r1) = Some r2" "counted_failure (ar_code r2)" "ar_am r2 = RecordFailure demo_dev 1000 (ar_am r1)"
    using step [of "ar_am r1"]
    by (auto simp: auth_IsRateLimited_def r1(3) RecordFailure_def new_unlimited MAX_FAILED_ATTEMPTS_def)
  obtain r3 where r3: "?go (ar_am r2) = Some r3" "counted_failure (ar_code r3)" "ar_am r3 = RecordFailure demo_dev 1000 (ar_am r2)"
    using step [of "ar_am r2"]
    by (auto simp: auth_IsRateLimited_def r2(3) r1(3) RecordFailure_def new_unlimited MAX_FAILED_ATTEMPTS_def)
  have "am_rateLimits (ar_am r3) demo_dev \<noteq> None"
    by (simp add: r3(3) RecordFailure_def Let_def)
  moreover have "(5000 :: u64) < 1000 + LOCKOUT_DURATION_SEC * 1000"
    by (simp add: LOCKOUT_DURATION_SEC_def)
  ultimately show ?thesis
    using lockout_after_three_failures [OF new_unlimited(1) r1(1) d r1(2) r2(1) d r2(2) r3(1) d r3(2) _ _ d, of 5000
        "dr_deviceId demo_record"] by (auto simp: demo_dev_def)
qed

end
