(* ===== verification/ChallengeSpec.thy ===== *)
theory ChallengeSpec
  imports Auth
begin

text \<open>
  The contract of the authentication manager as a small machine: per device at most one open challenge, known by its session number.
  It is issued, and then either accepted once or dropped. The manager of theory Auth refines it, so that what holds
  of all histories of the small machine holds of the manager's.
\<close>

section \<open>The abstract machine\<close>

datatype chal_event = ChIssue string u64 | ChAccept string u64 | ChDrop string | ChIdle

inductive chal_step :: "(string \<Rightarrow> u64 option) \<Rightarrow> chal_event \<Rightarrow> (string \<Rightarrow> u64 option) \<Rightarrow> bool" where
  issue: "chal_step c (ChIssue d k) (c(d := Some k))"
| accept: "c d = Some k \<Longrightarrow> chal_step c (ChAccept d k) (c(d := None))"
| drop: "chal_step c (ChDrop d) (c(d := None))"
| idle: "chal_step c ChIdle c"

inductive_simps chal_step_simps [simp]:
  "chal_step c (ChIssue d k) c'" "chal_step c (ChAccept d k) c'" "chal_step c (ChDrop d) c'" "chal_step c ChIdle c'"

fun issues_to :: "string \<Rightarrow> chal_event \<Rightarrow> bool" where
  "issues_to d (ChIssue d' k) \<longleftrightarrow> d' = d"
| "issues_to d _ \<longleftrightarrow> False"

fun accepts_from :: "string \<Rightarrow> chal_event \<Rightarrow> bool" where
  "accepts_from d (ChAccept d' k) \<longleftrightarrow> d' = d"
| "accepts_from d _ \<longleftrightarrow> False"

text \<open>A device is accepted no more often than it was issued a challenge; an open one is not yet spent.\<close>

lemma accepts_le_issues:
  "run chal_step c ls c' \<Longrightarrow>
     length (filter (accepts_from d) ls) + (if c' d = None then 0 else 1) \<le>
     length (filter (issues_to d) ls) + (if c d = None then 0 else 1)"
proof (induction rule: run.induct)
  case (run_Cons s e s' es s'')
  then show ?case by (cases e) (auto split: if_splits)
qed simp

section \<open>The manager refines it\<close>

definition open_challenge :: "AuthenticationManager \<Rightarrow> string \<Rightarrow> u64 option" where
  "open_challenge am d = (case am_activeChallenges am d of
     None \<Rightarrow> None | Some ch \<Rightarrow> if ac_isConsumed ch then None else Some (ac_sessionId ch))"

definition open_challenges :: "'w auth_state \<Rightarrow> string \<Rightarrow> u64 option" where
  "open_challenges st = open_challenge (fst st)"

text \<open>
  What a call of the manager with its result means to the machine: a granted request issues, a successful response accepts the
  session it names, a failed response may drop the challenge of its own device, and nothing else touches one.
\<close>

fun chal_view :: "'w auth_op \<times> AuthResultCode option \<Rightarrow> chal_event \<Rightarrow> bool" where
  "chal_view (OpAuthRequest cng n dev h out, Some AR_SUCCESS) l \<longleftrightarrow> (\<exists>k. l = ChIssue (DeviceIdToString dev) k)"
| "chal_view (OpAuthResponse cng ft n h p, Some AR_SUCCESS) l \<longleftrightarrow> (\<exists>d. resp_device p = Some d \<and> l = ChAccept d (resp_session p))"
| "chal_view (OpAuthResponse cng ft n h p, _) l \<longleftrightarrow> l = ChIdle \<or> (\<exists>d. resp_device p = Some d \<and> l = ChDrop d)"
| "chal_view _ l \<longleftrightarrow> l = ChIdle"

lemma open_challenge_frame:
  "auth_IsRateLimited d n am = (b, am') \<Longrightarrow> open_challenge am' = open_challenge am"
  "open_challenge (RecordFailure d n am) = open_challenge am"
  "open_challenge (RecordSuccess d am) = open_challenge am"
  "open_challenge (consume d ch am) = (open_challenge am)(d := None)"
  "open_challenge (SetServerIdentity sid am) = open_challenge am"
  "open_challenge (am\<lparr>am_sessionCounter := k\<rparr>) = open_challenge am"
  using auth_IsRateLimited_frame(1) [of d n am b am']
  by (auto simp: open_challenge_def SetServerIdentity_def)

lemma request_refines:
  assumes "HandleAuthRequest api cng n dev h out am cs reg = Some r"
  shows "\<exists>l. chal_view (OpAuthRequest cng n dev h out, Some (ar_code r)) l \<and> chal_step (open_challenge am) l (open_challenge (ar_am r))"
  using assms
proof (cases rule: HandleAuthRequest_cases)
  case limited
  then show ?thesis by (intro exI [of _ ChIdle]) simp
next
  case (refused am1)
  then have "chal_view (OpAuthRequest cng n dev h out, Some (ar_code r)) ChIdle" by (cases "ar_code r") simp_all
  moreover have "open_challenge (ar_am r) = open_challenge am"
    using refused(3) open_challenge_frame(1) [OF refused(1)] by (auto simp: open_challenge_frame(6))
  ultimately show ?thesis by (intro exI [of _ ChIdle]) simp
next
  case (issued am1 nonce rec)
  have "open_challenge (ar_am r) = (open_challenge am1)(DeviceIdToString dev := Some (am_sessionCounter am1))"
    by (auto simp: issued(7) open_challenge_def)
  then show ?thesis
    using issued(2) open_challenge_frame(1) [OF issued(1)] by (intro exI [of _ "ChIssue (DeviceIdToString dev) (am_sessionCounter am1)"]) simp
qed

lemma response_refines:
  assumes "HandleAuthResponse api cng ft n h p am cs reg = Some r"
  shows "\<exists>l. chal_view (OpAuthResponse cng ft n h p, Some (ar_code r)) l \<and> chal_step (open_challenge am) l (open_challenge (ar_am r))"
  using assms
proof (cases rule: HandleAuthResponse_cases)
  case invalid
  then show ?thesis by (intro exI [of _ ChIdle]) simp
next
  case (limited m sig)
  then show ?thesis by (intro exI [of _ ChIdle]) simp
next
  case (failed m sig am1 am2)
  let ?d = "DeviceIdToString (sm_DeviceIdentity m)"
  have "resp_device p = Some ?d" by (simp add: resp_device_def failed(1))
  then have v: "chal_view (OpAuthResponse cng ft n h p, Some (ar_code r)) l \<longleftrightarrow> l = ChIdle \<or> l = ChDrop ?d" for l
    using failed(3) by (cases "ar_code r") auto
  have "open_challenge (ar_am r) = open_challenge am \<or> open_challenge (ar_am r) = (open_challenge am)(?d := None)"
    using failed(4,5) open_challenge_frame(1) [OF failed(2)] by (auto simp: open_challenge_frame)
  then show ?thesis
    using v by (metis chal_step.drop chal_step.idle)
next
  case (success m sig am1 rec ch)
  let ?d = "DeviceIdToString (sm_DeviceIdentity m)"
  have "resp_device p = Some ?d" "resp_session p = ac_sessionId ch"
    by (simp_all add: resp_device_def resp_session_def success)
  moreover have "open_challenge am ?d = Some (ac_sessionId ch)"
    by (simp add: open_challenge_def success)
  moreover have "open_challenge (ar_am r) = (open_challenge am)(?d := None)"
    using open_challenge_frame(1) [OF success(2)] by (simp add: success open_challenge_frame)
  ultimately show ?thesis
    using success(12) by (intro exI [of _ "ChAccept ?d (ac_sessionId ch)"]) simp
qed

interpretation auth_chal: refinement "auth_step api" chal_step open_challenges chal_view
proof
  fix s t :: "'a auth_state" and e
  assume st: "auth_step api s e t"
  obtain op res where e: "e = (op, res)" by (cases e)
  obtain am cs reg where s: "s = (am, cs, reg)" by (cases s)
  show "\<exists>l. chal_view e l \<and> chal_step (open_challenges s) l (open_challenges t)"
  proof (cases op)
    case (OpAuthRequest cng n dev h out)
    with st e s show ?thesis
      by (auto simp: auth_step_def open_challenges_def dest!: request_refines)
  next
    case (OpAuthResponse cng ft n h p)
    with st e s show ?thesis
      by (auto simp: auth_step_def open_challenges_def dest!: response_refines)
  next
    case (OpServerIdentity sid)
    with st e s show ?thesis
      by (intro exI [of _ ChIdle]) (auto simp: auth_step_def open_challenges_def open_challenge_frame)
  next
    case (OpElsewhere cs' reg')
    with st e s show ?thesis
      by (intro exI [of _ ChIdle]) (auto simp: auth_step_def open_challenges_def)
  qed
qed

section \<open>Counting\<close>

fun challenge_issued :: "string \<Rightarrow> 'w auth_op \<times> AuthResultCode option \<Rightarrow> bool" where
  "challenge_issued d (OpAuthRequest cng n dev h out, Some AR_SUCCESS) \<longleftrightarrow> DeviceIdToString dev = d"
| "challenge_issued d _ \<longleftrightarrow> False"

fun device_accepted :: "string \<Rightarrow> 'w auth_op \<times> AuthResultCode option \<Rightarrow> bool" where
  "device_accepted d (OpAuthResponse cng ft n h p, Some AR_SUCCESS) \<longleftrightarrow> resp_device p = Some d"
| "device_accepted d _ \<longleftrightarrow> False"

lemma view_counts:
  assumes "chal_view e l"
  shows "issues_to d l \<longleftrightarrow> challenge_issued d e" "accepts_from d l \<longleftrightarrow> device_accepted d e"
  using assms by (cases "(e, l)" rule: chal_view.cases; auto)+

lemma filter_counts:
  "list_all2 chal_view es ls \<Longrightarrow> length (filter (issues_to d) ls) = length (filter (challenge_issued d) es)"
  "list_all2 chal_view es ls \<Longrightarrow> length (filter (accepts_from d) ls) = length (filter (device_accepted d) es)"
  by (induction rule: list_all2_induct) (auto simp: view_counts)

text \<open>A challenge is worth one authentication. In every history of the manager, a device has been authenticated at most as often
  as it has been issued a challenge, whatever the order of the calls and whatever else happens to the registry and the
  crypto state in between.\<close>

theorem successes_within_challenges:
  assumes "run (auth_step api) (AuthenticationManager_new, cs, reg) es st"
  shows "length (filter (device_accepted d) es) \<le> length (filter (challenge_issued d) es)"
proof -
  obtain ls where ls: "list_all2 chal_view es ls"
    "run chal_step (open_challenges (AuthenticationManager_new, cs, reg)) ls (open_challenges st)"
    using auth_chal.run_refines [OF assms] by blast
  have "open_challenges (AuthenticationManager_new, cs, reg) d = None"
    by (simp add: open_challenges_def open_challenge_def AuthenticationManager_new_def)
  with accepts_le_issues [OF ls(2), of d] show ?thesis
    by (simp add: filter_counts [OF ls(1)])
qed

theorem successes_within_challenges_witness:
  "\<exists>es st. run (auth_step sim_api) (AuthenticationManager_new, crypto_state_init, demo_reg) es st \<and>
     length (filter (device_accepted demo_dev) es) = 1 \<and> length (filter (device_accepted demo_dev) es) \<le> length (filter (challenge_issued demo_dev) es)"
proof -
  obtain am2 cs2 reg2 where r: "run (auth_step sim_api) (AuthenticationManager_new, crypto_state_init, demo_reg)
      [(OpAuthRequest demo_cng 1000 (dr_deviceId demo_record) FrameHeader_init FrameHeader_init, Some AR_SUCCESS),
       (OpAuthResponse demo_cng FILETIME_zero 2000 FrameHeader_init (demo_payload MT_AUTH_RESPONSE 1), Some AR_SUCCESS)] (am2, cs2, reg2)"
    by (rule demo_round [of AuthenticationManager_new MT_AUTH_RESPONSE crypto_state_init]) (auto simp: new_unlimited)
  have "resp_device (demo_payload MT_AUTH_RESPONSE 1) = Some demo_dev"
    by (simp add: resp_device_def demo_message demo_dev_def demo_msg_def)
  with r successes_within_challenges [OF r, of demo_dev] show ?thesis
    by (intro exI conjI) (assumption, simp_all)
qed

end
