(* ===== verification/Tls.thy ===== *)
theory Tls
  imports Prelude
begin

text \<open>
  \<^verbatim>\<open>windows/network/TlsContext.h/.cpp\<close>: the server side of a TLS connection over SChannel. SChannel and the certificate
  services are the argument \<open>sch\<close>; a security context is a value of type \<open>'c\<close> that the calls update. What is
  modelled is the policy around them: credential fallbacks, the version check after the handshake, and when
  encryption and decryption are refused.
\<close>

section \<open>SChannel and the certificate services\<close>

definition SEC_E_OK :: u32 where "SEC_E_OK = 0"
definition SEC_I_CONTINUE_NEEDED :: u32 where "SEC_I_CONTINUE_NEEDED = 0x00090312"
definition SEC_I_COMPLETE_NEEDED :: u32 where "SEC_I_COMPLETE_NEEDED = 0x00090313"
definition SEC_I_COMPLETE_AND_CONTINUE :: u32 where "SEC_I_COMPLETE_AND_CONTINUE = 0x00090314"
definition SEC_I_CONTEXT_EXPIRED :: u32 where "SEC_I_CONTEXT_EXPIRED = 0x00090317"
definition SEC_E_INCOMPLETE_MESSAGE :: u32 where "SEC_E_INCOMPLETE_MESSAGE = 0x80090318"
definition SEC_E_ALGORITHM_MISMATCH :: u32 where "SEC_E_ALGORITHM_MISMATCH = 0x80090331"
definition SEC_E_UNSUPPORTED_PRE_SHAREDKEY :: u32 where "SEC_E_UNSUPPORTED_PRE_SHAREDKEY = 0x8009034E"
definition SP_PROT_TLS1_3_SERVER :: u32 where "SP_PROT_TLS1_3_SERVER = 0x2000"
definition SP_PROT_TLS1_2_SERVER :: u32 where "SP_PROT_TLS1_2_SERVER = 0x0800"
definition SCH_CRED_MANUAL_CRED_VALIDATION :: u32 where "SCH_CRED_MANUAL_CRED_VALIDATION = 0x0008"
definition SCH_CRED_NO_DEFAULT_CREDS :: u32 where "SCH_CRED_NO_DEFAULT_CREDS = 0x0010"
definition SCH_CRED_REVOCATION_CHECK_END_CERT :: u32 where "SCH_CRED_REVOCATION_CHECK_END_CERT = 0x0100"

lemmas sec_consts =
  SEC_E_OK_def SEC_I_CONTINUE_NEEDED_def SEC_I_COMPLETE_NEEDED_def SEC_I_COMPLETE_AND_CONTINUE_def
  SEC_I_CONTEXT_EXPIRED_def SEC_E_INCOMPLETE_MESSAGE_def SEC_E_ALGORITHM_MISMATCH_def
  SEC_E_UNSUPPORTED_PRE_SHAREDKEY_def SP_PROT_TLS1_3_SERVER_def SP_PROT_TLS1_2_SERVER_def

datatype sec_buffer = SB_DATA bytes | SB_EXTRA nat | SB_OTHER

text \<open>
  Certificates, providers and credential handles are numbers, 0 is null. \<open>sc_acquire\<close> gets the direction (inbound or
  not), the enabled protocols, the certificate and the flags; \<open>sc_accept\<close> the credentials, the context so far
  and the token, and answers status, context, token to send and the count of unused bytes; \<open>sc_encrypt\<close> works
  on a header, a plaintext and a trailer size and answers the buffer and the summed sizes.
\<close>

record 'c sch_api =
  ce_find :: "wstring \<Rightarrow> nat option"
  ce_crypt32 :: bool
  ce_procs :: bool
  ce_provider :: "nat \<Rightarrow> nat option"
  ce_name :: "wstring \<Rightarrow> bytes option"
  ce_selfsign :: "nat \<Rightarrow> bytes \<Rightarrow> nat"
  sc_acquire :: "bool \<Rightarrow> u32 \<Rightarrow> nat \<Rightarrow> u32 \<Rightarrow> u32 \<times> nat"
  sc_accept :: "nat \<Rightarrow> 'c option \<Rightarrow> bytes \<Rightarrow> u32 \<times> 'c \<times> bytes \<times> nat option"
  sc_conninfo :: "'c \<Rightarrow> u32 option"
  sc_sizes :: "'c \<Rightarrow> (nat \<times> nat) option"
  sc_encrypt :: "'c \<Rightarrow> nat \<Rightarrow> bytes \<Rightarrow> nat \<Rightarrow> u32 \<times> 'c \<times> bytes \<times> nat"
  sc_decrypt :: "'c \<Rightarrow> bytes \<Rightarrow> u32 \<times> 'c \<times> sec_buffer list"

section \<open>The context\<close>

datatype TlsStatus =
    TLS_SUCCESS | TLS_CONTINUE_NEEDED | TLS_INCOMPLETE_DATA | TLS_HANDSHAKE_FAILED
  | TLS_PROTOCOL_VERSION_REJECTED | TLS_CLOSED | TLS_ERROR_GENERAL

record TlsConfig =
  EnableTls13 :: bool
  EnableTls12 :: bool
  RequireClientCert :: bool
  CertificateSubject :: wstring

definition TlsConfig_default :: TlsConfig where
  "TlsConfig_default = \<lparr>EnableTls13 = True, EnableTls12 = False, RequireClientCert = False,
     CertificateSubject = wide ''CN=MobileFingerprintUnlock''\<rparr>"

record 'c TlsContext =
  t_config :: TlsConfig
  t_hCreds :: nat
  t_hContext :: "'c option"
  t_pCertContext :: nat
  t_credsInitialized :: bool
  t_contextInitialized :: bool
  t_handshakeComplete :: bool
  t_streamSizes :: "nat \<times> nat"

definition TlsContext_new :: "TlsConfig \<Rightarrow> 'c TlsContext" where
  "TlsContext_new config = \<lparr>t_config = config, t_hCreds = 0, t_hContext = None, t_pCertContext = 0,
     t_credsInitialized = False, t_contextInitialized = False, t_handshakeComplete = False, t_streamSizes = (0, 0)\<rparr>"

definition Tls_Reset :: "'c TlsContext \<Rightarrow> 'c TlsContext" where
  "Tls_Reset t =
     (let t = (if t_contextInitialized t then t\<lparr>t_hContext := None, t_contextInitialized := False\<rparr> else t)
      in t\<lparr>t_handshakeComplete := False, t_streamSizes := (0, 0)\<rparr>)"

definition TlsContext_delete :: "'c TlsContext \<Rightarrow> 'c TlsContext" where
  "TlsContext_delete t = (Tls_Reset t)\<lparr>t_credsInitialized := False, t_pCertContext := 0\<rparr>"

text \<open>The provider of the key container: opened, else created, else an anonymous one.\<close>

definition acquire_provider :: "'c sch_api \<Rightarrow> nat" where
  "acquire_provider sch =
     (case ce_provider sch 0 of Some h \<Rightarrow> h
      | None \<Rightarrow> (case ce_provider sch 1 of Some h \<Rightarrow> h
          | None \<Rightarrow> (case ce_provider sch 2 of Some h \<Rightarrow> h | None \<Rightarrow> 0)))"

definition EnsureServerCertificate :: "'c sch_api \<Rightarrow> 'c TlsContext \<Rightarrow> bool \<times> 'c TlsContext" where
  "EnsureServerCertificate sch t =
     (if t_pCertContext t \<noteq> 0 then (True, t)
      else
        let t = (case ce_find sch (c_str (CertificateSubject (t_config t))) of None \<Rightarrow> t | Some c \<Rightarrow> t\<lparr>t_pCertContext := c\<rparr>) in
        if t_pCertContext t \<noteq> 0 then (True, t)
        else if \<not> ce_crypt32 sch then (False, t)
        else
          let t = (if ce_procs sch
                   then (case ce_name sch (c_str (CertificateSubject (t_config t))) of
                       None \<Rightarrow> t
                     | Some nameBuf \<Rightarrow> t\<lparr>t_pCertContext := ce_selfsign sch (acquire_provider sch) nameBuf\<rparr>)
                   else t)
          in (t_pCertContext t \<noteq> 0, t))"

text \<open>The three attempts: with the protocol mask, with none, and as a client with none.\<close>

definition acquire_credentials :: "'c sch_api \<Rightarrow> u32 \<Rightarrow> nat \<Rightarrow> u32 \<Rightarrow> u32 \<times> nat" where
  "acquire_credentials sch enabledProtocols cert flags =
     (if fst (sc_acquire sch True enabledProtocols cert flags) = SEC_E_OK
      then sc_acquire sch True enabledProtocols cert flags
      else if fst (sc_acquire sch True 0 cert flags) = SEC_E_OK then sc_acquire sch True 0 cert flags
      else sc_acquire sch False 0 cert flags)"

definition InitializeServerCredentials :: "'c sch_api \<Rightarrow> 'c TlsContext \<Rightarrow> bool \<times> 'c TlsContext" where
  "InitializeServerCredentials sch t =
     (if t_credsInitialized t then (True, t)
      else
        let t = snd (EnsureServerCertificate sch t);
            enabledProtocols = (if EnableTls13 (t_config t) then SP_PROT_TLS1_3_SERVER else 0) OR
              (if EnableTls12 (t_config t) then SP_PROT_TLS1_2_SERVER else 0);
            flags = SCH_CRED_NO_DEFAULT_CREDS OR SCH_CRED_REVOCATION_CHECK_END_CERT OR
              (if \<not> RequireClientCert (t_config t) then SCH_CRED_MANUAL_CRED_VALIDATION else 0);
            (status, h) = acquire_credentials sch enabledProtocols (t_pCertContext t) flags
        in (status = SEC_E_OK, t\<lparr>t_hCreds := h, t_credsInitialized := (status = SEC_E_OK)\<rparr>))"

text \<open>The completion of a handshake, and the query of the stream sizes, which may fail.\<close>

definition handshake_done :: "'c sch_api \<Rightarrow> 'c \<Rightarrow> 'c TlsContext \<Rightarrow> 'c TlsContext" where
  "handshake_done sch ctx t = t\<lparr>t_handshakeComplete := True,
     t_streamSizes := (case sc_sizes sch ctx of None \<Rightarrow> t_streamSizes t | Some s \<Rightarrow> s)\<rparr>"

text \<open>The handshake step answers its status, the token to send and the number of consumed bytes; SChannel reports at
  most the input as unused.\<close>

definition AcceptHandshake ::
  "'c sch_api \<Rightarrow> bytes \<Rightarrow> 'c TlsContext \<Rightarrow> TlsStatus \<times> bytes \<times> nat \<times> 'c TlsContext" where
  "AcceptHandshake sch inData t =
     (let (ok, t) = InitializeServerCredentials sch t in
      if \<not> ok then (TLS_ERROR_GENERAL, [], 0, t)
      else
        let (status, ctx, outData, extra) =
              sc_accept sch (t_hCreds t) (if t_contextInitialized t then t_hContext t else None) inData;
            consumed = (case extra of None \<Rightarrow> length inData | Some n \<Rightarrow> length inData - n);
            t = t\<lparr>t_hContext := Some ctx, t_contextInitialized := True\<rparr>
        in if status = SEC_E_OK then
             (case sc_conninfo sch ctx of
                Some dwProtocol \<Rightarrow>
                  if \<not> EnableTls12 (t_config t) \<and> dwProtocol < 0x2000
                  then (TLS_PROTOCOL_VERSION_REJECTED, outData, consumed, t)
                  else (TLS_SUCCESS, outData, consumed, handshake_done sch ctx t)
              | None \<Rightarrow> (TLS_SUCCESS, outData, consumed, handshake_done sch ctx t))
           else if status = SEC_I_CONTINUE_NEEDED \<or> status = SEC_I_COMPLETE_NEEDED \<or> status = SEC_I_COMPLETE_AND_CONTINUE
           then (TLS_CONTINUE_NEEDED, outData, consumed, t)
           else if status = SEC_E_INCOMPLETE_MESSAGE then (TLS_INCOMPLETE_DATA, outData, consumed, t)
           else if status = SEC_E_UNSUPPORTED_PRE_SHAREDKEY \<or> status = SEC_E_ALGORITHM_MISMATCH
           then (TLS_PROTOCOL_VERSION_REJECTED, outData, consumed, t)
           else (TLS_HANDSHAKE_FAILED, outData, consumed, t))"

text \<open>\<^verbatim>\<open>vector::resize\<close> to the summed sizes keeps a prefix of the buffer or pads it with zeros.\<close>

definition EncryptPayload :: "'c sch_api \<Rightarrow> bytes \<Rightarrow> 'c TlsContext \<Rightarrow> TlsStatus \<times> bytes \<times> 'c TlsContext" where
  "EncryptPayload sch plainData t =
     (case (t_handshakeComplete t, t_hContext t) of
        (True, Some ctx) \<Rightarrow>
          let t = (if fst (t_streamSizes t) = 0
                   then t\<lparr>t_streamSizes := (case sc_sizes sch ctx of None \<Rightarrow> t_streamSizes t | Some s \<Rightarrow> s)\<rparr> else t);
              (status, ctx', buf, n) = sc_encrypt sch ctx (fst (t_streamSizes t)) plainData (snd (t_streamSizes t));
              t = t\<lparr>t_hContext := Some ctx'\<rparr>
          in if status = SEC_E_OK then (TLS_SUCCESS, take n buf @ replicate (n - length buf) 0, t)
             else (TLS_ERROR_GENERAL, buf, t)
      | _ \<Rightarrow> (TLS_ERROR_GENERAL, [], t))"

fun first_data :: "sec_buffer list \<Rightarrow> bytes" where
  "first_data [] = []"
| "first_data (SB_DATA d # bs) = (if d \<noteq> [] then d else first_data bs)"
| "first_data (_ # bs) = first_data bs"

fun extra_bytes :: "sec_buffer list \<Rightarrow> nat" where
  "extra_bytes [] = 0"
| "extra_bytes (SB_EXTRA n # bs) = n"
| "extra_bytes (_ # bs) = extra_bytes bs"

text \<open>Decryption answers its status, the plaintext and the number of consumed bytes.\<close>

definition DecryptPayload ::
  "'c sch_api \<Rightarrow> bytes \<Rightarrow> 'c TlsContext \<Rightarrow> TlsStatus \<times> bytes \<times> nat \<times> 'c TlsContext" where
  "DecryptPayload sch encryptedData t =
     (case (t_handshakeComplete t, t_hContext t) of
        (True, Some ctx) \<Rightarrow>
          let (status, ctx', buffers) = sc_decrypt sch ctx encryptedData;
              consumed = length encryptedData - extra_bytes buffers;
              t = t\<lparr>t_hContext := Some ctx'\<rparr>
          in if status = SEC_E_OK then (TLS_SUCCESS, first_data buffers, consumed, t)
             else if status = SEC_E_INCOMPLETE_MESSAGE then (TLS_INCOMPLETE_DATA, [], consumed, t)
             else if status = SEC_I_CONTEXT_EXPIRED then (TLS_CLOSED, [], consumed, t)
             else (TLS_ERROR_GENERAL, [], consumed, t)
      | _ \<Rightarrow> (TLS_ERROR_GENERAL, [], 0, t))"

section \<open>Properties\<close>

definition tls_inv :: "'c TlsContext \<Rightarrow> bool" where
  "tls_inv t \<longleftrightarrow> (t_contextInitialized t \<longleftrightarrow> t_hContext t \<noteq> None) \<and> (t_handshakeComplete t \<longrightarrow> t_contextInitialized t)"

lemma tls_inv_new [simp]: "tls_inv (TlsContext_new c)"
  by (simp add: tls_inv_def TlsContext_new_def)

lemma EnsureServerCertificate_frame:
  "t_config (snd (EnsureServerCertificate sch t)) = t_config t"
  "t_handshakeComplete (snd (EnsureServerCertificate sch t)) = t_handshakeComplete t"
  "t_hContext (snd (EnsureServerCertificate sch t)) = t_hContext t"
  "t_contextInitialized (snd (EnsureServerCertificate sch t)) = t_contextInitialized t"
  "t_streamSizes (snd (EnsureServerCertificate sch t)) = t_streamSizes t"
  by (simp_all add: EnsureServerCertificate_def Let_def split: option.split)

lemma InitializeServerCredentials_shape:
  "\<exists>h ok. InitializeServerCredentials sch t = (True, t) \<and> t_credsInitialized t \<or>
     InitializeServerCredentials sch t = (ok, (snd (EnsureServerCertificate sch t))\<lparr>t_hCreds := h, t_credsInitialized := ok\<rparr>)"
  unfolding InitializeServerCredentials_def Let_def case_prod_unfold by (cases "t_credsInitialized t") auto

lemma InitializeServerCredentials_frame:
  assumes "InitializeServerCredentials sch t = (ok, t')"
  shows "t_config t' = t_config t" "t_handshakeComplete t' = t_handshakeComplete t" "t_hContext t' = t_hContext t"
    "t_contextInitialized t' = t_contextInitialized t" "t_streamSizes t' = t_streamSizes t" "ok \<longleftrightarrow> t_credsInitialized t'"
  using assms InitializeServerCredentials_shape [of sch t] by (auto simp: EnsureServerCertificate_frame)

text \<open>
  The outcome of a handshake step whose credentials are in place, as a function of the status and the negotiated
  protocol: the reference against which the code's nested tests are compared.
\<close>

definition handshake_verdict :: "bool \<Rightarrow> u32 \<Rightarrow> u32 option \<Rightarrow> TlsStatus" where
  "handshake_verdict tls12 status proto =
     (if status = SEC_E_OK
      then (if \<not> tls12 \<and> (\<exists>p\<in>set_option proto. p < SP_PROT_TLS1_3_SERVER) then TLS_PROTOCOL_VERSION_REJECTED else TLS_SUCCESS)
      else if status \<in> {SEC_I_CONTINUE_NEEDED, SEC_I_COMPLETE_NEEDED, SEC_I_COMPLETE_AND_CONTINUE} then TLS_CONTINUE_NEEDED
      else if status = SEC_E_INCOMPLETE_MESSAGE then TLS_INCOMPLETE_DATA
      else if status \<in> {SEC_E_UNSUPPORTED_PRE_SHAREDKEY, SEC_E_ALGORITHM_MISMATCH} then TLS_PROTOCOL_VERSION_REJECTED
      else TLS_HANDSHAKE_FAILED)"

lemma verdict_eq_SUCCESS: "status \<noteq> SEC_E_OK \<Longrightarrow> handshake_verdict b status p \<noteq> TLS_SUCCESS"
  by (simp add: handshake_verdict_def)

lemma AcceptHandshake_eq:
  assumes "InitializeServerCredentials sch t = (True, t1)"
    and "sc_accept sch (t_hCreds t1) (if t_contextInitialized t1 then t_hContext t1 else None) inData = (status, ctx, tok, extra)"
  defines "t2 \<equiv> t1\<lparr>t_hContext := Some ctx, t_contextInitialized := True\<rparr>"
    and "v \<equiv> handshake_verdict (EnableTls12 (t_config t1)) status (sc_conninfo sch ctx)"
  shows "AcceptHandshake sch inData t =
    (v, tok, (case extra of None \<Rightarrow> length inData | Some n \<Rightarrow> length inData - n),
     if v = TLS_SUCCESS then handshake_done sch ctx t2 else t2)"
proof (cases "status = SEC_E_OK")
  case True
  then show ?thesis
    by (cases "sc_conninfo sch ctx")
      (simp_all add: AcceptHandshake_def assms(1,2) v_def t2_def handshake_verdict_def SP_PROT_TLS1_3_SERVER_def Let_def)
next
  case False
  then have "v \<noteq> TLS_SUCCESS" by (simp add: v_def verdict_eq_SUCCESS)
  with False show ?thesis
    by (simp add: AcceptHandshake_def assms(1,2) v_def t2_def handshake_verdict_def Let_def)
qed

lemma AcceptHandshake_cases:
  assumes "InitializeServerCredentials sch t = (ok, t1)"
    and "sc_accept sch (t_hCreds t1) (if t_contextInitialized t then t_hContext t else None) inData = (status, ctx, tok, extra)"
    and "AcceptHandshake sch inData t = (st, outData, consumed, t')"
  shows "\<not> ok \<Longrightarrow> st = TLS_ERROR_GENERAL \<and> outData = [] \<and> t' = t1"
    and "ok \<Longrightarrow> st = handshake_verdict (EnableTls12 (t_config t)) status (sc_conninfo sch ctx) \<and> outData = tok \<and>
           t_hContext t' = Some ctx \<and> t_contextInitialized t' \<and> t_config t' = t_config t \<and>
           (t_handshakeComplete t' \<longleftrightarrow> t_handshakeComplete t \<or> st = TLS_SUCCESS)"
proof -
  note frame = InitializeServerCredentials_frame [OF assms(1)]
  show "\<not> ok \<Longrightarrow> st = TLS_ERROR_GENERAL \<and> outData = [] \<and> t' = t1"
    using assms(1,3) by (simp add: AcceptHandshake_def)
  assume ok: "ok"
  show "st = handshake_verdict (EnableTls12 (t_config t)) status (sc_conninfo sch ctx) \<and> outData = tok \<and>
           t_hContext t' = Some ctx \<and> t_contextInitialized t' \<and> t_config t' = t_config t \<and>
           (t_handshakeComplete t' \<longleftrightarrow> t_handshakeComplete t \<or> st = TLS_SUCCESS)"
    using AcceptHandshake_eq [of sch t t1 inData status ctx tok extra] ok assms frame(1,2,3,4)
    by (auto simp: handshake_done_def)
qed

lemma AcceptHandshake_inv: "tls_inv t \<Longrightarrow> tls_inv (snd (snd (snd (AcceptHandshake sch d t))))"
proof -
  assume t: "tls_inv t"
  obtain ok t1 where i: "InitializeServerCredentials sch t = (ok, t1)" by (metis surj_pair)
  obtain status ctx tok extra where
    a: "sc_accept sch (t_hCreds t1) (if t_contextInitialized t then t_hContext t else None) d = (status, ctx, tok, extra)"
    by (metis surj_pair)
  obtain st outData consumed t' where h: "AcceptHandshake sch d t = (st, outData, consumed, t')" by (metis surj_pair)
  show ?thesis
    using t InitializeServerCredentials_frame [OF i] AcceptHandshake_cases [OF i a h] h
    by (cases ok) (auto simp: tls_inv_def)
qed

lemma EncryptPayload_inv: "tls_inv t \<Longrightarrow> tls_inv (snd (snd (EncryptPayload sch d t)))"
  by (auto simp: EncryptPayload_def tls_inv_def Let_def split: bool.split option.split prod.split)

lemma DecryptPayload_inv: "tls_inv t \<Longrightarrow> tls_inv (snd (snd (snd (DecryptPayload sch d t))))"
  by (auto simp: DecryptPayload_def tls_inv_def Let_def split: bool.split option.split prod.split)

lemma Reset_inv: "tls_inv t \<Longrightarrow> tls_inv (Tls_Reset t) \<and> \<not> t_handshakeComplete (Tls_Reset t)"
  by (auto simp: Tls_Reset_def tls_inv_def Let_def)

section \<open>The life of a context\<close>

text \<open>The calls on a context, and the machine whose events are a call with the status it answered.\<close>

datatype tls_op = TAccept bytes | TEncrypt bytes | TDecrypt bytes | TReset

fun tls_exec :: "'c sch_api \<Rightarrow> tls_op \<Rightarrow> 'c TlsContext \<Rightarrow> TlsStatus \<times> 'c TlsContext" where
  "tls_exec sch (TAccept d) t = (case AcceptHandshake sch d t of (st, _, _, t') \<Rightarrow> (st, t'))"
| "tls_exec sch (TEncrypt d) t = (case EncryptPayload sch d t of (st, _, t') \<Rightarrow> (st, t'))"
| "tls_exec sch (TDecrypt d) t = (case DecryptPayload sch d t of (st, _, _, t') \<Rightarrow> (st, t'))"
| "tls_exec sch TReset t = (TLS_SUCCESS, Tls_Reset t)"

definition tls_step :: "'c sch_api \<Rightarrow> 'c TlsContext \<Rightarrow> tls_op \<times> TlsStatus \<Rightarrow> 'c TlsContext \<Rightarrow> bool" where
  "tls_step sch t e t' \<longleftrightarrow> tls_exec sch (fst e) t = (snd e, t')"

text \<open>Whether the last handshake success of a history is not followed by a reset.\<close>

fun completed :: "bool \<Rightarrow> (tls_op \<times> TlsStatus) list \<Rightarrow> bool" where
  "completed b [] = b"
| "completed b ((TAccept _, TLS_SUCCESS) # es) = completed True es"
| "completed b ((TReset, _) # es) = completed False es"
| "completed b (_ # es) = completed b es"

lemma tls_exec_inv: "tls_inv t \<Longrightarrow> tls_exec sch op t = (st, t') \<Longrightarrow> tls_inv t'"
  using AcceptHandshake_inv [of t sch] EncryptPayload_inv [of t sch] DecryptPayload_inv [of t sch] Reset_inv [of t]
  by (cases op) (auto simp: case_prod_unfold)

interpretation tls_machine: invariant_machine "tls_step sch" tls_inv
  by unfold_locales (auto simp: tls_step_def intro: tls_exec_inv)

lemma AcceptHandshake_complete:
  assumes "AcceptHandshake sch d t = (st, rest)"
  shows "t_handshakeComplete (snd (snd rest)) \<longleftrightarrow> t_handshakeComplete t \<or> st = TLS_SUCCESS"
proof -
  obtain ok t1 where i: "InitializeServerCredentials sch t = (ok, t1)" by (metis surj_pair)
  obtain status ctx tok extra where
    a: "sc_accept sch (t_hCreds t1) (if t_contextInitialized t then t_hContext t else None) d = (status, ctx, tok, extra)"
    by (metis surj_pair)
  obtain outData consumed t' where r: "rest = (outData, consumed, t')" by (metis surj_pair)
  show ?thesis
    using InitializeServerCredentials_frame [OF i] AcceptHandshake_cases [OF i a assms [unfolded r]] r
    by (cases ok) auto
qed

lemma tls_exec_complete:
  "tls_exec sch op t = (st, t') \<Longrightarrow> t_handshakeComplete t' = completed (t_handshakeComplete t) [(op, st)]"
proof (cases op)
  case (TAccept d)
  moreover assume "tls_exec sch op t = (st, t')"
  ultimately show ?thesis
    by (cases st) (auto split: prod.splits dest: AcceptHandshake_complete)
qed (auto simp: EncryptPayload_def DecryptPayload_def Tls_Reset_def Let_def split: prod.splits option.splits bool.splits if_splits)

lemma completed_Cons: "completed b (e # es) = completed (completed b [e]) es"
  by (cases e; cases "fst e"; cases "snd e") auto

lemma run_complete:
  "run (tls_step sch) t es t' \<Longrightarrow> t_handshakeComplete t' = completed (t_handshakeComplete t) es"
proof (induction rule: run.induct)
  case (run_Cons s e s' es s'')
  then show ?case
    using tls_exec_complete [of sch "fst e" s "snd e" s'] by (simp add: tls_step_def completed_Cons [of _ e es])
qed simp

fun is_data :: "tls_op \<Rightarrow> bool" where
  "is_data (TEncrypt _) = True"
| "is_data (TDecrypt _) = True"
| "is_data _ = False"

lemma data_needs_complete: "tls_exec sch op t = (st, t') \<Longrightarrow> is_data op \<Longrightarrow> st \<noteq> TLS_ERROR_GENERAL \<Longrightarrow> t_handshakeComplete t"
  by (cases op) (auto simp: EncryptPayload_def DecryptPayload_def split: bool.splits)

section \<open>Properties of the policy\<close>

text \<open>C36: a handshake step answers success exactly when the credentials could be acquired, SChannel reports the context
  as established and, TLS 1.2 being disabled, the negotiated protocol is TLS 1.3 or could not be queried. So a
  downgraded connection is rejected whenever the protocol is known, and accepted when the query fails.
\<close>

theorem tls_version_policy:
  "fst (AcceptHandshake sch inData t) = TLS_SUCCESS \<longleftrightarrow>
     (\<exists>t1 ctx tok extra. InitializeServerCredentials sch t = (True, t1) \<and>
        sc_accept sch (t_hCreds t1) (if t_contextInitialized t then t_hContext t else None) inData = (SEC_E_OK, ctx, tok, extra) \<and>
        (EnableTls12 (t_config t) \<or> sc_conninfo sch ctx = None \<or>
         (\<exists>p. sc_conninfo sch ctx = Some p \<and> SP_PROT_TLS1_3_SERVER \<le> p)))"
proof -
  obtain ok t1 where i: "InitializeServerCredentials sch t = (ok, t1)" by (metis surj_pair)
  obtain status ctx tok extra where
    a: "sc_accept sch (t_hCreds t1) (if t_contextInitialized t then t_hContext t else None) inData = (status, ctx, tok, extra)"
    by (metis surj_pair)
  obtain st outData consumed t' where h: "AcceptHandshake sch inData t = (st, outData, consumed, t')" by (metis surj_pair)
  have "st = TLS_SUCCESS \<longleftrightarrow> ok \<and> status = SEC_E_OK \<and>
      (EnableTls12 (t_config t) \<or> sc_conninfo sch ctx = None \<or> (\<exists>p. sc_conninfo sch ctx = Some p \<and> SP_PROT_TLS1_3_SERVER \<le> p))"
    using AcceptHandshake_cases [OF i a h]
    by (cases ok; cases "sc_conninfo sch ctx") (auto simp: handshake_verdict_def not_less)
  then show ?thesis
    using i a h by auto
qed

text \<open>C35: in the life of a context, application data is encrypted or decrypted only after a handshake step that answered
  success and that no reset followed; before it every such call answers the general error.
\<close>

theorem tls_data_after_handshake:
  assumes "run (tls_step sch) (TlsContext_new cfg) (es @ [(op, st)]) t" "is_data op" "st \<noteq> TLS_ERROR_GENERAL"
  shows "completed False es"
proof -
  from assms(1) obtain u where "run (tls_step sch) (TlsContext_new cfg) es u" "tls_exec sch op u = (st, t)"
    by (auto simp: run_append tls_step_def)
  then show ?thesis
    using run_complete [of sch "TlsContext_new cfg" es u] data_needs_complete [of sch op u st t] assms(2,3)
    by (simp add: TlsContext_new_def)
qed

text \<open>A SChannel that establishes TLS 1.3 at the second token and passes data through.\<close>

definition demo_sch :: "nat sch_api" where
  "demo_sch = \<lparr>ce_find = \<lambda>_. Some 1, ce_crypt32 = True, ce_procs = True, ce_provider = \<lambda>_. Some 1, ce_name = \<lambda>_. None,
     ce_selfsign = \<lambda>_ _. 0, sc_acquire = \<lambda>_ _ _ _. (SEC_E_OK, 7),
     sc_accept = \<lambda>_ c _. (case c of None \<Rightarrow> (SEC_I_CONTINUE_NEEDED, 1, [0x16], None) | Some n \<Rightarrow> (SEC_E_OK, Suc n, [], None)),
     sc_conninfo = \<lambda>_. Some 0x2000, sc_sizes = \<lambda>_. Some (5, 16),
     sc_encrypt = \<lambda>c h d t. (SEC_E_OK, c, d, length d), sc_decrypt = \<lambda>c d. (SEC_E_OK, c, [SB_DATA d])\<rparr>"

theorem tls_data_after_handshake_witness:
  "completed False [(TDecrypt [1], TLS_ERROR_GENERAL), (TAccept [0x16], TLS_CONTINUE_NEEDED), (TAccept [0x16], TLS_SUCCESS)]"
  by (rule tls_data_after_handshake [where sch = demo_sch and cfg = TlsConfig_default and op = "TDecrypt [7]" and st = TLS_SUCCESS])
    (simp_all add: tls_step_def demo_sch_def DecryptPayload_def AcceptHandshake_def InitializeServerCredentials_def
      EnsureServerCertificate_def acquire_credentials_def handshake_done_def TlsContext_new_def TlsConfig_default_def sec_consts)

end
