(* ===== verification/Network.thy ===== *)
theory Network
  imports Protocol Tls
begin

text \<open>
  \<^verbatim>\<open>windows/network/NetworkEngine.h/.cpp\<close>: the TCP server. A session object is shared between the client map and
  its worker thread, so sessions live in a store \<open>ne_objs\<close> and the map is the list \<open>ne_clients\<close> of the
  identifiers it holds (client identifiers come from a 64-bit counter and name the object). Winsock's answers and the tick
  count are inputs; what the engine does to sockets and the frames it hands to the callback are outputs, in order.
  The operations interleave at the granularity of one iteration of a thread's loop, which for a last iteration includes the end of the
  worker; in the program a worker reads, closes and clears its socket without the lock, and theory SocketThreads
  takes the threads apart at these accesses. A frame callback is taken to
  run after the iteration that produced it, which decrypts before it delivers and does not touch the
  TLS context again.
\<close>

section \<open>State\<close>

datatype ConnectionState = DISCONNECTED | TCP_CONNECTING | TLS_HANDSHAKE | ACTIVE_SESSION | RECONNECTING | ERROR_STATE

record 'c ClientSession =
  cs_ClientId :: u64
  cs_Socket :: "nat option"
  cs_ClientIp :: string
  cs_ClientPort :: u16
  cs_State :: ConnectionState
  cs_ConnectTimestampMs :: u32
  cs_LastActiveTimestampMs :: u32
  cs_Tls :: "'c TlsContext"
  cs_ReceiveBuffer :: bytes

record RateLimitEntry =
  FirstAttemptMs :: u32
  AttemptCount :: u32
  BlockedUntilMs :: u32

record 'c NetworkEngine =
  ne_port :: u16
  ne_listenSocket :: "nat option"
  ne_isRunning :: bool
  ne_nextClientId :: u64
  ne_callback :: bool
  ne_clients :: "u64 list"
  ne_objs :: "u64 \<Rightarrow> 'c ClientSession option"
  ne_rateLimits :: "string \<Rightarrow> RateLimitEntry option"
  ne_hAcceptThread :: "nat option"
  ne_hMaintenanceThread :: "nat option"

datatype net_out =
    NShutdown nat | NClose nat | NSend nat bytes | NFrame u64 FrameHeader bytes | NLogRateLimit string

definition NetworkEngine_new :: "u16 \<Rightarrow> 'c NetworkEngine" where
  "NetworkEngine_new port = \<lparr>ne_port = port, ne_listenSocket = None, ne_isRunning = False, ne_nextClientId = 1,
     ne_callback = False, ne_clients = [], ne_objs = \<lambda>_. None, ne_rateLimits = \<lambda>_. None,
     ne_hAcceptThread = None, ne_hMaintenanceThread = None\<rparr>"

definition put_obj :: "u64 \<Rightarrow> 'c ClientSession \<Rightarrow> 'c NetworkEngine \<Rightarrow> 'c NetworkEngine" where
  "put_obj i s e = e\<lparr>ne_objs := (ne_objs e)(i := Some s)\<rparr>"

section \<open>The rate limiter\<close>

definition CheckRateLimit :: "u32 \<Rightarrow> string \<Rightarrow> 'c NetworkEngine \<Rightarrow> bool \<times> 'c NetworkEngine" where
  "CheckRateLimit now ip e =
     (let put = (\<lambda>entry. e\<lparr>ne_rateLimits := (ne_rateLimits e)(ip := Some entry)\<rparr>) in
      case ne_rateLimits e ip of
        None \<Rightarrow> (True, put \<lparr>FirstAttemptMs = now, AttemptCount = 1, BlockedUntilMs = 0\<rparr>)
      | Some entry \<Rightarrow>
          if BlockedUntilMs entry > now then (False, e)
          else if now - FirstAttemptMs entry > 60000
          then (True, put \<lparr>FirstAttemptMs = now, AttemptCount = 1, BlockedUntilMs = 0\<rparr>)
          else
            let entry = entry\<lparr>AttemptCount := AttemptCount entry + 1\<rparr> in
            if AttemptCount entry > 5 then (False, put (entry\<lparr>BlockedUntilMs := now + 900000\<rparr>))
            else (True, put entry))"

section \<open>Start and stop\<close>

text \<open>What Winsock and the system answer to a start: the socket, the results of bind and listen, the thread handles.\<close>

record start_env =
  se_socket :: "nat option"
  se_bind :: bool
  se_listen :: bool
  se_accept_thread :: "nat option"
  se_maintenance_thread :: "nat option"

definition Net_Start :: "start_env \<Rightarrow> bool \<Rightarrow> 'c NetworkEngine \<Rightarrow> bool \<times> net_out list \<times> 'c NetworkEngine" where
  "Net_Start env callback e =
     (if ne_isRunning e then (False, [], e)
      else
        let e = e\<lparr>ne_callback := callback, ne_listenSocket := se_socket env\<rparr> in
        case se_socket env of
          None \<Rightarrow> (False, [], e)
        | Some s \<Rightarrow>
            if \<not> se_bind env then (False, [NClose s], e\<lparr>ne_listenSocket := None\<rparr>)
            else if \<not> se_listen env then (False, [NClose s], e\<lparr>ne_listenSocket := None\<rparr>)
            else (se_accept_thread env \<noteq> None, [],
                  e\<lparr>ne_isRunning := True, ne_hAcceptThread := se_accept_thread env,
                    ne_hMaintenanceThread := se_maintenance_thread env\<rparr>))"

fun stop_clients :: "u64 list \<Rightarrow> 'c NetworkEngine \<Rightarrow> net_out list \<times> 'c NetworkEngine" where
  "stop_clients [] e = ([], e)"
| "stop_clients (i # is) e =
     (case ne_objs e i of
        None \<Rightarrow> stop_clients is e
      | Some s \<Rightarrow>
          (case cs_Socket s of
             None \<Rightarrow> stop_clients is e
           | Some k \<Rightarrow>
               let (outs, e') = stop_clients is (put_obj i (s\<lparr>cs_Socket := None, cs_State := DISCONNECTED\<rparr>) e)
               in (NShutdown k # NClose k # outs, e')))"

definition Net_Stop :: "'c NetworkEngine \<Rightarrow> net_out list \<times> 'c NetworkEngine" where
  "Net_Stop e =
     (if \<not> ne_isRunning e then ([], e)
      else
        let listen_outs = (case ne_listenSocket e of None \<Rightarrow> [] | Some s \<Rightarrow> [NClose s]);
            e = e\<lparr>ne_isRunning := False, ne_listenSocket := None\<rparr>;
            (outs, e) = stop_clients (ne_clients e) e
        in (listen_outs @ outs, e\<lparr>ne_clients := [], ne_hAcceptThread := None, ne_hMaintenanceThread := None\<rparr>))"

section \<open>Accepting clients\<close>

definition new_client :: "u64 \<Rightarrow> nat \<Rightarrow> string \<Rightarrow> u16 \<Rightarrow> u32 \<Rightarrow> u32 \<Rightarrow> 'c ClientSession" where
  "new_client clientId clientSock clientIp clientPort t1 t2 =
     \<lparr>cs_ClientId = clientId, cs_Socket = Some clientSock, cs_ClientIp = clientIp,
      cs_ClientPort = clientPort, cs_State = TCP_CONNECTING, cs_ConnectTimestampMs = t1,
      cs_LastActiveTimestampMs = t2, cs_Tls = TlsContext_new TlsConfig_default, cs_ReceiveBuffer = []\<rparr>"

text \<open>
  One iteration of the accept loop. \<open>acc\<close> is the accepted socket with the client's address and port;
  \<open>t0\<close>, \<open>t1\<close>, \<open>t2\<close> are the tick counts read by the rate limiter and for the two time stamps;
  \<open>thread\<close> says whether the worker thread could be created. Without it the socket is closed but the session stays
  in the map with that socket.
\<close>

definition accept_iter ::
  "(nat \<times> string option \<times> u16) option \<Rightarrow> u32 \<Rightarrow> u32 \<Rightarrow> u32 \<Rightarrow> bool \<Rightarrow> 'c NetworkEngine \<Rightarrow> net_out list \<times> 'c NetworkEngine" where
  "accept_iter acc t0 t1 t2 thread e =
     (if \<not> ne_isRunning e then ([], e)
      else case acc of
        None \<Rightarrow> ([], e)
      | Some (clientSock, ipStr, clientPort) \<Rightarrow>
          let clientIp = (case ipStr of None \<Rightarrow> ''127.0.0.1'' | Some ip \<Rightarrow> ip);
              (allowed, e) = CheckRateLimit t0 clientIp e
          in if \<not> allowed then ([NLogRateLimit clientIp, NClose clientSock], e)
             else
               let clientId = ne_nextClientId e;
                   session = new_client clientId clientSock clientIp clientPort t1 t2;
                   e = (put_obj clientId session e)\<lparr>ne_nextClientId := clientId + 1, ne_clients := List.insert clientId (ne_clients e)\<rparr>
               in (if thread then [] else [NClose clientSock], e))"

section \<open>The worker of a client\<close>

text \<open>
  The frames at the front of the receive buffer: the complete ones with their payloads, the bytes left, and whether the
  connection is dropped.
\<close>

function extract_frames :: "bytes \<Rightarrow> (FrameHeader \<times> bytes) list \<times> bytes \<times> bool" where
  "extract_frames buf =
     (if length buf < FRAME_HEADER_SIZE then ([], buf, False)
      else case DeserializeFrameHeader (Some buf) of
        None \<Rightarrow> ([], buf, True)
      | Some header \<Rightarrow>
          if fh_PayloadLength header > MAX_PAYLOAD_SIZE then ([], buf, True)
          else
            let totalMessageLen = FRAME_HEADER_SIZE + unat (fh_PayloadLength header) in
            if length buf < totalMessageLen then ([], buf, False)
            else
              let payload = drop FRAME_HEADER_SIZE (take totalMessageLen buf);
                  (fs, rest, dropped) = extract_frames (drop totalMessageLen buf)
              in ((header, payload) # fs, rest, dropped))"
  by pat_completeness auto
termination
  by (relation "measure length") (auto simp: FRAME_HEADER_SIZE_def)

declare extract_frames.simps [simp del]

text \<open>The result of \<^verbatim>\<open>recv\<close>: bytes, or none with the thread's last error (also after an orderly close).\<close>

datatype recv_result = RecvData bytes | RecvNone u32

definition WSAETIMEDOUT :: u32 where "WSAETIMEDOUT = 10060"

definition detect_transport :: "bytes \<Rightarrow> 'c ClientSession \<Rightarrow> 'c ClientSession" where
  "detect_transport rawBuffer s =
     (if cs_State s = TCP_CONNECTING
      then (if hd rawBuffer = 0x16 then s\<lparr>cs_State := TLS_HANDSHAKE\<rparr>
            else if hd rawBuffer = 0x4D then s\<lparr>cs_State := ACTIVE_SESSION\<rparr> else s)
      else s)"

definition worker_handshake :: "'c sch_api \<Rightarrow> bytes \<Rightarrow> 'c ClientSession \<Rightarrow> net_out list \<times> 'c ClientSession \<times> bool" where
  "worker_handshake sch rawBuffer s =
     (let (status, outTls, _, tls) = AcceptHandshake sch rawBuffer (cs_Tls s);
          outs = (case cs_Socket s of None \<Rightarrow> [] | Some k \<Rightarrow> if outTls \<noteq> [] then [NSend k outTls] else []);
          s = s\<lparr>cs_Tls := tls\<rparr>
      in if status = TLS_SUCCESS then (outs, s\<lparr>cs_State := ACTIVE_SESSION\<rparr>, True)
         else if status = TLS_CONTINUE_NEEDED \<or> status = TLS_INCOMPLETE_DATA then (outs, s, True)
         else (outs, s, False))"

definition receive_bytes :: "'c sch_api \<Rightarrow> bytes \<Rightarrow> 'c ClientSession \<Rightarrow> 'c ClientSession" where
  "receive_bytes sch rawBuffer s =
     (if t_handshakeComplete (cs_Tls s)
      then
        let (decStatus, plainData, _, tls) = DecryptPayload sch rawBuffer (cs_Tls s);
            s = s\<lparr>cs_Tls := tls\<rparr>
        in if decStatus = TLS_SUCCESS \<and> plainData \<noteq> []
           then s\<lparr>cs_ReceiveBuffer := cs_ReceiveBuffer s @ plainData\<rparr> else s
      else s\<lparr>cs_ReceiveBuffer := cs_ReceiveBuffer s @ rawBuffer\<rparr>)"

text \<open>One iteration of the loop: what it sends and delivers, the session, and whether the loop goes on.\<close>

definition worker_iter ::
  "'c sch_api \<Rightarrow> bool \<Rightarrow> u64 \<Rightarrow> recv_result \<Rightarrow> u32 \<Rightarrow> 'c ClientSession \<Rightarrow> net_out list \<times> 'c ClientSession \<times> bool" where
  "worker_iter sch callback clientId r now s =
     (case r of
        RecvNone err \<Rightarrow>
          if err = WSAETIMEDOUT then ([], s, \<not> (now - cs_LastActiveTimestampMs s > 30000))
          else ([], s, False)
      | RecvData rawBuffer \<Rightarrow>
          let s = detect_transport rawBuffer (s\<lparr>cs_LastActiveTimestampMs := now\<rparr>) in
          if cs_State s = TLS_HANDSHAKE then worker_handshake sch rawBuffer s
          else if cs_State s = ACTIVE_SESSION then
            let s = receive_bytes sch rawBuffer s;
                (frames, rest, dropped) = extract_frames (cs_ReceiveBuffer s);
                outs = (if callback then map (\<lambda>(h, p). NFrame clientId h p) frames else []);
                s = s\<lparr>cs_ReceiveBuffer := rest, cs_Socket := (if dropped then None else cs_Socket s)\<rparr>
            in (outs, s, cs_Socket s \<noteq> None)
          else ([], s, True))"

definition worker_exit :: "u64 \<Rightarrow> 'c ClientSession \<Rightarrow> 'c NetworkEngine \<Rightarrow> net_out list \<times> 'c NetworkEngine" where
  "worker_exit clientId s e =
     ((case cs_Socket s of None \<Rightarrow> [] | Some k \<Rightarrow> [NClose k]),
      (put_obj clientId (s\<lparr>cs_State := DISCONNECTED, cs_Socket := None\<rparr>) e)\<lparr>ne_clients := removeAll clientId (ne_clients e)\<rparr>)"

text \<open>The start of a worker: it ends at once when its session has left the map.\<close>

definition worker_start :: "u64 \<Rightarrow> 'c NetworkEngine \<Rightarrow> 'c NetworkEngine" where
  "worker_start clientId e =
     (if clientId \<in> set (ne_clients e)
      then (case ne_objs e clientId of None \<Rightarrow> e | Some s \<Rightarrow> put_obj clientId (s\<lparr>cs_State := TCP_CONNECTING\<rparr>) e)
      else e)"

definition worker_loop ::
  "'c sch_api \<Rightarrow> u64 \<Rightarrow> recv_result \<Rightarrow> u32 \<Rightarrow> 'c NetworkEngine \<Rightarrow> net_out list \<times> 'c NetworkEngine" where
  "worker_loop sch clientId r now e =
     (case ne_objs e clientId of
        None \<Rightarrow> ([], e)
      | Some s \<Rightarrow>
          if ne_isRunning e \<and> cs_Socket s \<noteq> None
          then
            let (outs, s, continue) = worker_iter sch (ne_callback e) clientId r now s in
            if continue then (outs, put_obj clientId s e)
            else (let (outs', e) = worker_exit clientId s e in (outs @ outs', e))
          else worker_exit clientId s e)"

section \<open>Sending and housekeeping\<close>

text \<open>\<open>snt k bs\<close> is what \<^verbatim>\<open>send\<close> answers: the number of bytes taken, or -1.\<close>

definition SendFrame ::
  "'c sch_api \<Rightarrow> (nat \<Rightarrow> bytes \<Rightarrow> int) \<Rightarrow> u64 \<Rightarrow> FrameHeader \<Rightarrow> bytes \<Rightarrow> 'c NetworkEngine \<Rightarrow> bool \<times> net_out list \<times> 'c NetworkEngine" where
  "SendFrame sch snt clientId header payload e =
     (case (if clientId \<in> set (ne_clients e) then ne_objs e clientId else None) of
        None \<Rightarrow> (False, [], e)
      | Some s \<Rightarrow>
          (case cs_Socket s of
             None \<Rightarrow> (False, [], e)
           | Some k \<Rightarrow>
               let fullFrame = SerializeFrameHeader header @ payload in
               if t_handshakeComplete (cs_Tls s)
               then
                 let (status, encrypted, tls) = EncryptPayload sch fullFrame (cs_Tls s);
                     e = put_obj clientId (s\<lparr>cs_Tls := tls\<rparr>) e
                 in if status = TLS_SUCCESS then (snt k encrypted = int (length encrypted), [NSend k encrypted], e)
                    else (False, [], e)
               else (snt k fullFrame = int (length fullFrame), [NSend k fullFrame], e)))"

fun send_all ::
  "'c sch_api \<Rightarrow> (nat \<Rightarrow> bytes \<Rightarrow> int) \<Rightarrow> u64 list \<Rightarrow> FrameHeader \<Rightarrow> bytes \<Rightarrow> 'c NetworkEngine \<Rightarrow> net_out list \<times> 'c NetworkEngine" where
  "send_all sch snt [] header payload e = ([], e)"
| "send_all sch snt (i # is) header payload e =
     (let (_, outs, e) = SendFrame sch snt i header payload e;
          (outs', e) = send_all sch snt is header payload e
      in (outs @ outs', e))"

definition BroadcastFrame ::
  "'c sch_api \<Rightarrow> (nat \<Rightarrow> bytes \<Rightarrow> int) \<Rightarrow> FrameHeader \<Rightarrow> bytes \<Rightarrow> 'c NetworkEngine \<Rightarrow> net_out list \<times> 'c NetworkEngine" where
  "BroadcastFrame sch snt header payload e =
     (let clientIds = filter (\<lambda>i. case ne_objs e i of None \<Rightarrow> False | Some s \<Rightarrow> cs_State s = ACTIVE_SESSION) (ne_clients e)
      in send_all sch snt clientIds header payload e)"

fun cleanup_loop :: "u32 \<Rightarrow> u64 list \<Rightarrow> 'c NetworkEngine \<Rightarrow> nat list \<times> 'c NetworkEngine" where
  "cleanup_loop now [] e = ([], e)"
| "cleanup_loop now (i # is) e =
     (case ne_objs e i of
        None \<Rightarrow> cleanup_loop now is e
      | Some s \<Rightarrow>
          if now - cs_LastActiveTimestampMs s > 30000
          then
            let (staleSockets, e') = cleanup_loop now is ((put_obj i (s\<lparr>cs_Socket := None\<rparr>) e)\<lparr>ne_clients := removeAll i (ne_clients e)\<rparr>)
            in ((case cs_Socket s of None \<Rightarrow> staleSockets | Some k \<Rightarrow> k # staleSockets), e')
          else cleanup_loop now is e)"

definition CleanupStaleSessions :: "u32 \<Rightarrow> 'c NetworkEngine \<Rightarrow> net_out list \<times> 'c NetworkEngine" where
  "CleanupStaleSessions now e =
     (let (staleSockets, e) = cleanup_loop now (ne_clients e) e in (map NClose staleSockets, e))"

definition GetActiveClientCount :: "'c NetworkEngine \<Rightarrow> size_t" where
  "GetActiveClientCount e = of_nat (length (ne_clients e))"

lemma put_obj_sel [simp]:
  "ne_objs (put_obj i s e) = (ne_objs e)(i := Some s)"
  "ne_clients (put_obj i s e) = ne_clients e"
  "ne_isRunning (put_obj i s e) = ne_isRunning e"
  "ne_callback (put_obj i s e) = ne_callback e"
  "ne_listenSocket (put_obj i s e) = ne_listenSocket e"
  "ne_rateLimits (put_obj i s e) = ne_rateLimits e"
  "ne_nextClientId (put_obj i s e) = ne_nextClientId e"
  by (simp_all add: put_obj_def)

lemma put_obj_put_obj [simp]: "put_obj i s (put_obj i s' e) = put_obj i s e"
  by (simp add: put_obj_def)

lemma worker_exit_put_obj [simp]: "worker_exit i s (put_obj i s' e) = worker_exit i s e"
  by (simp add: worker_exit_def)

section \<open>Frame extraction\<close>

lemma extract_short: "length buf < FRAME_HEADER_SIZE \<Longrightarrow> extract_frames buf = ([], buf, False)"
  by (simp add: extract_frames.simps)

lemma Deserialize_append:
  "FRAME_HEADER_SIZE \<le> length a \<Longrightarrow> DeserializeFrameHeader (Some (a @ b)) = DeserializeFrameHeader (Some a)"
  using frame_codec.dec_prefix [of "a @ b"] frame_codec.dec_prefix [of a] by simp

lemma header_payload_bound: "DeserializeFrameHeader (Some buf) = Some h \<Longrightarrow> \<not> MAX_PAYLOAD_SIZE < fh_PayloadLength h"
  using frame_codec.dec_sound [of buf h] by (simp add: frame_header_ok_def not_less)

lemma extract_frame:
  assumes "DeserializeFrameHeader (Some buf) = Some h" "FRAME_HEADER_SIZE + unat (fh_PayloadLength h) \<le> length buf"
  shows "extract_frames buf =
    (case extract_frames (drop (FRAME_HEADER_SIZE + unat (fh_PayloadLength h)) buf) of
       (fs, r, d) \<Rightarrow> ((h, drop FRAME_HEADER_SIZE (take (FRAME_HEADER_SIZE + unat (fh_PayloadLength h)) buf)) # fs, r, d))"
  using assms header_payload_bound [OF assms(1)] by (subst extract_frames.simps) (simp add: Let_def)

text \<open>Extraction of a longer buffer continues where the extraction of its front stopped.\<close>

lemma extract_append:
  "extract_frames (a @ b) =
     (case extract_frames a of (fs, r, d) \<Rightarrow>
        if d then (fs, r @ b, True) else (case extract_frames (r @ b) of (fs', r', d') \<Rightarrow> (fs @ fs', r', d')))"
proof (induction a rule: extract_frames.induct)
  case (1 buf)
  show ?case
  proof (cases "length buf < FRAME_HEADER_SIZE")
    case True
    then show ?thesis by (simp add: extract_short split: prod.split)
  next
    case len: False
    then have des: "DeserializeFrameHeader (Some (buf @ b)) = DeserializeFrameHeader (Some buf)"
      by (simp add: Deserialize_append)
    show ?thesis
    proof (cases "DeserializeFrameHeader (Some buf)")
      case None
      then show ?thesis using len des by (simp add: extract_frames.simps)
    next
      case (Some h)
      note bound = header_payload_bound [OF Some]
      let ?n = "FRAME_HEADER_SIZE + unat (fh_PayloadLength h)"
      show ?thesis
      proof (cases "length buf < ?n")
        case True
        then have "extract_frames buf = ([], buf, False)"
          using len Some bound by (simp add: extract_frames.simps)
        then show ?thesis by (simp split: prod.split)
      next
        case False
        then show ?thesis
          using "1.IH" [OF len Some bound refl False] Some des extract_frame [of buf h] extract_frame [of "buf @ b" h]
          by (simp split: prod.split)
      qed
    qed
  qed
qed

lemma extract_rest: "extract_frames buf = (fs, r, False) \<Longrightarrow> extract_frames r = ([], r, False)"
  using extract_append [of buf "[]"] by (auto split: prod.splits)

definition encode_frame :: "FrameHeader \<times> bytes \<Rightarrow> bytes" where
  "encode_frame f = SerializeFrameHeader (fst f) @ snd f"

definition frame_ok :: "FrameHeader \<times> bytes \<Rightarrow> bool" where
  "frame_ok f \<longleftrightarrow> frame_header_ok (fst f) \<and> unat (fh_PayloadLength (fst f)) = length (snd f)"

lemma extract_encoded:
  "list_all frame_ok fs \<Longrightarrow> extract_frames (concat (map encode_frame fs)) = (fs, [], False)"
proof (induction fs)
  case Nil
  then show ?case by (simp add: extract_short FRAME_HEADER_SIZE_def)
next
  case (Cons f fs)
  let ?rest = "snd f @ concat (map encode_frame fs)"
  from Cons.prems have ok: "frame_header_ok (fst f)" "unat (fh_PayloadLength (fst f)) = length (snd f)"
    by (simp_all add: frame_ok_def)
  have "DeserializeFrameHeader (Some (SerializeFrameHeader (fst f) @ ?rest)) = Some (fst f)"
    by (rule frame_codec.dec_append) (rule ok(1))
  from extract_frame [OF this] show ?case
    using Cons ok by (simp add: encode_frame_def [of f])
qed

section \<open>Stream reassembly\<close>

text \<open>The iterations of one worker on a sequence of receive results with their tick counts.\<close>

fun worker_run :: "'c sch_api \<Rightarrow> u64 \<Rightarrow> (recv_result \<times> u32) list \<Rightarrow> 'c NetworkEngine \<Rightarrow> net_out list \<times> 'c NetworkEngine" where
  "worker_run sch i [] e = ([], e)"
| "worker_run sch i ((r, now) # rs) e =
     (let (outs, e) = worker_loop sch i r now e; (outs', e) = worker_run sch i rs e in (outs @ outs', e))"

definition plain_session :: "'c ClientSession \<Rightarrow> bool" where
  "plain_session s \<longleftrightarrow> cs_State s = ACTIVE_SESSION \<and> \<not> t_handshakeComplete (cs_Tls s) \<and> cs_Socket s \<noteq> None"

abbreviation frame_outs :: "u64 \<Rightarrow> (FrameHeader \<times> bytes) list \<Rightarrow> net_out list" where
  "frame_outs i fs \<equiv> map (\<lambda>(h, p). NFrame i h p) fs"

lemma worker_iter_plain:
  assumes "plain_session s" "extract_frames (cs_ReceiveBuffer s @ c) = (fs, r, d)"
  shows "worker_iter sch True i (RecvData c) now s =
    (frame_outs i fs, s\<lparr>cs_LastActiveTimestampMs := now, cs_ReceiveBuffer := r, cs_Socket := if d then None else cs_Socket s\<rparr>, \<not> d)"
  using assms by (simp add: worker_iter_def plain_session_def detect_transport_def receive_bytes_def Let_def)

text \<open>A worker whose session has lost its socket does nothing visible.\<close>

lemma worker_run_closed:
  assumes "ne_objs e i = Some s" "cs_Socket s = None"
  shows "fst (worker_run sch i rs e) = []"
  using assms
proof (induction rs arbitrary: e s)
  case (Cons x rs)
  obtain r now where "x = (r, now)" by (cases x)
  with Cons show ?case
    by (auto simp: worker_loop_def worker_exit_def put_obj_def split: prod.split)
qed simp

definition data_events :: "(bytes \<times> u32) list \<Rightarrow> (recv_result \<times> u32) list" where
  "data_events cs = map (\<lambda>(c, now). (RecvData c, now)) cs"

lemma worker_run_plain:
  assumes "ne_isRunning e" "ne_callback e" "ne_objs e i = Some s" "plain_session s"
    and "extract_frames (cs_ReceiveBuffer s) = ([], cs_ReceiveBuffer s, False)"
  shows "fst (worker_run sch i (data_events cs) e) =
    frame_outs i (fst (extract_frames (cs_ReceiveBuffer s @ concat (map fst cs))))"
  using assms
proof (induction cs arbitrary: e s)
  case Nil
  then show ?case by (simp add: data_events_def)
next
  case (Cons x cs)
  obtain c now where x: "x = (c, now)" by (cases x)
  obtain fs r d where ex: "extract_frames (cs_ReceiveBuffer s @ c) = (fs, r, d)" by (metis surj_pair)
  define s' where "s' = s\<lparr>cs_LastActiveTimestampMs := now, cs_ReceiveBuffer := r, cs_Socket := if d then None else cs_Socket s\<rparr>"
  have iter: "worker_iter sch True i (RecvData c) now s = (frame_outs i fs, s', \<not> d)"
    using worker_iter_plain [OF Cons.prems(4) ex] by (simp add: s'_def)
  have total: "extract_frames (cs_ReceiveBuffer s @ concat (map fst (x # cs))) =
      (if d then (fs, r @ concat (map fst cs), True)
       else (case extract_frames (r @ concat (map fst cs)) of (fs', r', d') \<Rightarrow> (fs @ fs', r', d')))"
    using extract_append [of "cs_ReceiveBuffer s @ c" "concat (map fst cs)"] ex x by simp
  show ?case
  proof (cases d)
    case True
    then have "worker_loop sch i (RecvData c) now e = (frame_outs i fs, snd (worker_exit i s' e))"
      using Cons.prems iter by (simp add: worker_loop_def plain_session_def worker_exit_def s'_def)
    moreover have "fst (worker_run sch i (data_events cs) (snd (worker_exit i s' e))) = []"
      by (rule worker_run_closed [where s = "s'\<lparr>cs_State := DISCONNECTED, cs_Socket := None\<rparr>"])
        (simp_all add: worker_exit_def put_obj_def)
    ultimately show ?thesis
      using total True x by (simp add: data_events_def case_prod_unfold)
  next
    case False
    then have "worker_loop sch i (RecvData c) now e = (frame_outs i fs, put_obj i s' e)"
      using Cons.prems iter by (simp add: worker_loop_def plain_session_def)
    moreover have "fst (worker_run sch i (data_events cs) (put_obj i s' e)) =
        frame_outs i (fst (extract_frames (cs_ReceiveBuffer s' @ concat (map fst cs))))"
      by (rule Cons.IH)
        (use Cons.prems False extract_rest [of "cs_ReceiveBuffer s @ c" fs r] ex in \<open>auto simp: put_obj_def plain_session_def s'_def\<close>)
    ultimately show ?thesis
      using total False x by (simp add: data_events_def case_prod_unfold s'_def)
  qed
qed

lemma encode_frame_first: "encode_frame f \<noteq> []" "frame_ok f \<Longrightarrow> hd (encode_frame f) = 0x4D"
proof -
  have "length (encode_frame f) \<noteq> 0"
    by (simp add: encode_frame_def FRAME_HEADER_SIZE_def)
  then show "encode_frame f \<noteq> []" by simp
  assume "frame_ok f"
  then have "fh_Magic (fst f) = PROTOCOL_MAGIC"
    by (simp add: frame_ok_def frame_header_ok_def)
  moreover have "rev (to_le 2 PROTOCOL_MAGIC) = [0x4D, 0x55]"
    by code_simp
  ultimately show "hd (encode_frame f) = 0x4D"
    by (simp add: encode_frame_def SerializeFrameHeader_big_endian)
qed

text \<open>A first chunk that begins with the frame magic makes the session active without TLS.\<close>

lemma worker_loop_magic:
  assumes "ne_objs e i = Some s" "cs_State s = TCP_CONNECTING" "hd c = 0x4D" "ne_isRunning e" "cs_Socket s \<noteq> None"
  shows "worker_loop sch i (RecvData c) now e =
    worker_loop sch i (RecvData c) now (put_obj i (s\<lparr>cs_State := ACTIVE_SESSION\<rparr>) e)"
proof -
  have "worker_iter sch b i (RecvData c) now s = worker_iter sch b i (RecvData c) now (s\<lparr>cs_State := ACTIVE_SESSION\<rparr>)" for b
    using assms by (cases s) (simp add: worker_iter_def detect_transport_def Let_def)
  then show ?thesis
    using assms by (simp add: worker_loop_def case_prod_unfold Let_def)
qed

lemma hd_concat_Cons: "xs \<noteq> [] \<Longrightarrow> hd (concat (xs # xss)) = hd xs"
  by simp

text \<open>C13: a fresh session that is sent complete frames, split into chunks in any way by the network, delivers exactly
  these frames in order to the callback, without any TLS handshake.
\<close>

theorem network_reassembly:
  assumes "ne_isRunning e" "ne_callback e" "ne_objs e i = Some s"
    and "cs_State s = TCP_CONNECTING" "cs_ReceiveBuffer s = []" "\<not> t_handshakeComplete (cs_Tls s)" "cs_Socket s \<noteq> None"
    and "list_all frame_ok fs" "concat (map fst cs) = concat (map encode_frame fs)" "\<forall>c\<in>set cs. fst c \<noteq> []"
  shows "fst (worker_run sch i (data_events cs) e) = frame_outs i fs"
proof (cases cs)
  case Nil
  then have "fs = []" using assms(9) encode_frame_first(1) by (cases fs) auto
  then show ?thesis using Nil by (simp add: data_events_def)
next
  case (Cons x cs')
  obtain c now where x: "x = (c, now)" by (cases x)
  let ?s = "s\<lparr>cs_State := ACTIVE_SESSION\<rparr>"
  have c: "c \<noteq> []" using assms(10) Cons x by simp
  then obtain f fs' where fs: "fs = f # fs'" using assms(9) Cons x by (cases fs) auto
  have "hd c = hd (concat (map fst cs))" using c Cons x by simp
  also have "\<dots> = hd (encode_frame f)" using assms(9) fs encode_frame_first(1) [of f] by simp
  also have "\<dots> = 0x4D" using assms(8) fs encode_frame_first(2) by simp
  finally have magic: "hd c = 0x4D" .
  have "worker_run sch i (data_events cs) e = worker_run sch i (data_events cs) (put_obj i ?s e)"
    using worker_loop_magic [OF assms(3,4) magic assms(1,7), of sch now] Cons x by (simp add: data_events_def)
  also have "fst \<dots> = frame_outs i (fst (extract_frames (cs_ReceiveBuffer ?s @ concat (map fst cs))))"
    by (rule worker_run_plain) (use assms in \<open>auto simp: put_obj_def plain_session_def extract_short FRAME_HEADER_SIZE_def\<close>)
  finally show ?thesis
    using assms(5,9) extract_encoded [OF assms(8)] by simp
qed

definition sample_engine :: "nat NetworkEngine" where
  "sample_engine = snd (accept_iter (Some (77, Some ''10.0.0.9'', 5000)) 1000 1000 1000 True
     (snd (snd (Net_Start \<lparr>se_socket = Some 5, se_bind = True, se_listen = True, se_accept_thread = Some 1,
        se_maintenance_thread = Some 2\<rparr> True (NetworkEngine_new 8443)))))"

definition ping_frame :: "FrameHeader \<times> bytes" where
  "ping_frame = (FrameHeader_init\<lparr>fh_MessageType := opcode MT_PING, fh_PayloadLength := 3\<rparr>, [1, 2, 3])"

theorem network_reassembly_witness:
  "fst (worker_run demo_sch 1
      (data_events [(take 10 (encode_frame ping_frame), 2000), (drop 10 (encode_frame ping_frame) @ encode_frame ping_frame, 2001)])
      sample_engine)
   = [NFrame 1 (fst ping_frame) [1, 2, 3], NFrame 1 (fst ping_frame) [1, 2, 3]]"
proof -
  have len: "length (encode_frame ping_frame) = 27" by (simp add: encode_frame_def ping_frame_def FRAME_HEADER_SIZE_def)
  have "list_all frame_ok [ping_frame, ping_frame]" by code_simp
  moreover have "take 10 (encode_frame ping_frame) \<noteq> []" "drop 10 (encode_frame ping_frame) \<noteq> []"
    using len by (auto simp: take_eq_Nil)
  ultimately have "fst (worker_run demo_sch 1
      (data_events [(take 10 (encode_frame ping_frame), 2000), (drop 10 (encode_frame ping_frame) @ encode_frame ping_frame, 2001)])
      sample_engine) = frame_outs 1 [ping_frame, ping_frame]"
    by (intro network_reassembly [where s = "the (ne_objs sample_engine 1)"])
      (simp_all add: sample_engine_def accept_iter_def Net_Start_def NetworkEngine_new_def CheckRateLimit_def put_obj_def new_client_def TlsContext_new_def Let_def)
  then show ?thesis by (simp add: ping_frame_def)
qed

section \<open>The rate limiter\<close>

text \<open>The verdicts on a sequence of connection attempts of one address at the given tick counts.\<close>

fun attempts :: "string \<Rightarrow> u32 list \<Rightarrow> 'c NetworkEngine \<Rightarrow> bool list \<times> 'c NetworkEngine" where
  "attempts ip [] e = ([], e)"
| "attempts ip (t # ts) e =
     (let (ok, e) = CheckRateLimit t ip e; (oks, e) = attempts ip ts e in (ok # oks, e))"

definition limit_entry :: "u32 \<Rightarrow> nat \<Rightarrow> u32 \<Rightarrow> RateLimitEntry" where
  "limit_entry t0 n b = \<lparr>FirstAttemptMs = t0, AttemptCount = of_nat n, BlockedUntilMs = b\<rparr>"

text \<open>Within the window: an unblocked address is counted up to five, then blocked.\<close>

lemma attempt_counted:
  assumes "ne_rateLimits e ip = Some (limit_entry t0 n 0)" "t - t0 \<le> 60000" "n < 5"
  shows "CheckRateLimit t ip e = (True, e\<lparr>ne_rateLimits := (ne_rateLimits e)(ip := Some (limit_entry t0 (Suc n) 0))\<rparr>)"
proof -
  have "n \<in> {0, 1, 2, 3, 4}" using assms(3) by auto
  then have "(of_nat n + 1 :: u32) \<le> 5" by auto
  then show ?thesis
    using assms by (simp add: CheckRateLimit_def limit_entry_def Let_def not_less add.commute)
qed

lemma attempt_blocks:
  assumes "ne_rateLimits e ip = Some (limit_entry t0 5 0)" "t - t0 \<le> 60000"
  shows "CheckRateLimit t ip e = (False, e\<lparr>ne_rateLimits := (ne_rateLimits e)(ip := Some (limit_entry t0 6 (t + 900000)))\<rparr>)"
  using assms by (simp add: CheckRateLimit_def limit_entry_def Let_def not_less)

lemma attempt_blocked:
  assumes "ne_rateLimits e ip = Some (limit_entry t0 n b)" "t < b"
  shows "CheckRateLimit t ip e = (False, e)"
  using assms by (simp add: CheckRateLimit_def limit_entry_def Let_def)

lemma attempts_blocked:
  "ne_rateLimits e ip = Some (limit_entry t0 n b) \<Longrightarrow> \<forall>t\<in>set ts. t < b \<Longrightarrow>
     attempts ip ts e = (replicate (length ts) False, e)"
  by (induction ts) (auto simp: attempt_blocked)

lemma window_order:
  assumes "unat (t0 :: u32) + 960000 < 2 ^ 32" "t - t0 \<le> 60000" "t' - t0 \<le> 60000"
  shows "t < t' + 900000"
proof -
  have b: "unat (u - t0) \<le> 60000" if "u - t0 \<le> 60000" for u :: u32
    using that by (simp add: word_le_nat_alt)
  have "unat u = unat t0 + unat (u - t0)" if "u - t0 \<le> 60000" for u :: u32
  proof -
    have "unat (t0 + (u - t0)) = unat t0 + unat (u - t0)"
      by (rule unat_add_lem [THEN iffD1]) (use b [OF that] assms(1) in simp)
    then show ?thesis by simp
  qed
  note e = this [OF assms(2)] this [OF assms(3)]
  have "unat (t' + 900000) = unat t' + unat (900000 :: u32)"
    by (rule unat_add_lem [THEN iffD1]) (use e(2) b [OF assms(3)] assms(1) in simp)
  then show ?thesis
    using e b [OF assms(2)] by (simp add: word_less_nat_alt)
qed

lemma attempts_window:
  assumes "ne_rateLimits e ip = Some (limit_entry t0 n 0)" "n \<le> 5"
    and "\<forall>t\<in>set ts. t - t0 \<le> 60000" "unat t0 + 960000 < 2 ^ 32"
  shows "fst (attempts ip ts e) = replicate (min (5 - n) (length ts)) True @ replicate (length ts - (5 - n)) False \<and>
    (5 - n < length ts \<longrightarrow> ne_rateLimits (snd (attempts ip ts e)) ip = Some (limit_entry t0 6 (ts ! (5 - n) + 900000)))"
  using assms(1,2,3)
proof (induction ts arbitrary: n e)
  case Nil
  then show ?case by simp
next
  case (Cons t ts)
  show ?case
  proof (cases "n < 5")
    case True
    define e1 where "e1 = e\<lparr>ne_rateLimits := (ne_rateLimits e)(ip := Some (limit_entry t0 (Suc n) 0))\<rparr>"
    have "CheckRateLimit t ip e = (True, e1)"
      using attempt_counted [of e ip t0 n t] Cons.prems True by (simp add: e1_def)
    moreover have "ne_rateLimits e1 ip = Some (limit_entry t0 (Suc n) 0)" by (simp add: e1_def)
    moreover from True have "5 - n = Suc (5 - Suc n)" by simp
    ultimately show ?thesis
      using Cons.IH [of e1 "Suc n"] Cons.prems True by (simp add: case_prod_unfold)
  next
    case False
    with Cons.prems have n: "n = 5" by simp
    define e1 where "e1 = e\<lparr>ne_rateLimits := (ne_rateLimits e)(ip := Some (limit_entry t0 6 (t + 900000)))\<rparr>"
    have "CheckRateLimit t ip e = (False, e1)"
      using attempt_blocks [of e ip t0 t] Cons.prems n by (simp add: e1_def)
    moreover have "attempts ip ts e1 = (replicate (length ts) False, e1)"
      by (rule attempts_blocked [of e1 ip t0 6 "t + 900000" ts])
        (use Cons.prems assms(4) in \<open>auto simp: e1_def intro: window_order\<close>)
    ultimately show ?thesis
      using n by (simp add: e1_def)
  qed
qed

text \<open>Of the connection attempts that an unknown address makes within a minute the first five are accepted and all
  others refused, and from the sixth on the address stays refused for 15 minutes. The tick count must not wrap meanwhile.
\<close>

theorem rate_limit_burst:
  assumes "ne_rateLimits e ip = None" "\<forall>t\<in>set ts. t - t0 \<le> 60000" "unat t0 + 960000 < 2 ^ 32"
  shows "fst (attempts ip (t0 # ts) e) = replicate (min 5 (Suc (length ts))) True @ replicate (length ts - 4) False \<and>
    (5 \<le> length ts \<longrightarrow> (\<forall>t < ts ! 4 + 900000. \<not> fst (CheckRateLimit t ip (snd (attempts ip (t0 # ts) e)))))"
proof -
  define e1 where "e1 = e\<lparr>ne_rateLimits := (ne_rateLimits e)(ip := Some (limit_entry t0 1 0))\<rparr>"
  have first: "CheckRateLimit t0 ip e = (True, e1)"
    using assms(1) by (simp add: CheckRateLimit_def e1_def limit_entry_def Let_def)
  have e1: "ne_rateLimits e1 ip = Some (limit_entry t0 1 0)" by (simp add: e1_def)
  note w = attempts_window [OF e1 _ assms(2,3), simplified]
  have "fst (attempts ip (t0 # ts) e) = replicate (min 5 (Suc (length ts))) True @ replicate (length ts - 4) False"
    using w first by (cases "length ts \<le> 4") (simp_all add: case_prod_unfold min_def numeral_eq_Suc)
  moreover have "\<not> fst (CheckRateLimit t ip (snd (attempts ip (t0 # ts) e)))" if "5 \<le> length ts" "t < ts ! 4 + 900000" for t
    using w first that attempt_blocked [of "snd (attempts ip ts e1)" ip t0 6 "ts ! 4 + 900000" t] by (simp add: case_prod_unfold)
  ultimately show ?thesis by blast
qed

theorem rate_limit_burst_witness:
  "fst (attempts ''10.0.0.9'' [100, 200, 300, 400, 500, 600, 60100] (NetworkEngine_new 8443 :: nat NetworkEngine)) =
     [True, True, True, True, True, False, False] \<and>
   \<not> fst (CheckRateLimit 900500 ''10.0.0.9'' (snd (attempts ''10.0.0.9'' [100, 200, 300, 400, 500, 600, 60100]
       (NetworkEngine_new 8443 :: nat NetworkEngine))))"
proof -
  let ?e = "NetworkEngine_new 8443 :: nat NetworkEngine" and ?ts = "[200, 300, 400, 500, 600, 60100] :: u32 list"
  have *: "fst (attempts ''10.0.0.9'' (100 # ?ts) ?e) = replicate (min 5 (Suc (length ?ts))) True @ replicate (length ?ts - 4) False \<and>
    (5 \<le> length ?ts \<longrightarrow> (\<forall>t < ?ts ! 4 + 900000. \<not> fst (CheckRateLimit t ''10.0.0.9'' (snd (attempts ''10.0.0.9'' (100 # ?ts) ?e)))))"
    by (rule rate_limit_burst) (simp_all add: NetworkEngine_new_def)
  have "5 \<le> length ?ts" "(900500 :: u32) < ?ts ! 4 + 900000" by simp_all
  moreover have "replicate (min 5 (Suc (length ?ts))) True @ replicate (length ?ts - 4) False = [True, True, True, True, True, False, False]"
    by (simp add: numeral_eq_Suc)
  ultimately show ?thesis using * by metis
qed

text \<open>Near the wrap of the tick count the block ends with the one-minute window: here after 65 seconds.\<close>

lemma rate_limit_wraps:
  "fst (attempts ip [4294067200, 4294067200, 4294067200, 4294067200, 4294067200, 4294067400, 4294132400]
     (NetworkEngine_new 8443)) = [True, True, True, True, True, False, True]"
  by (simp add: NetworkEngine_new_def CheckRateLimit_def Let_def)

section \<open>Ownership of sockets\<close>

datatype net_op =
    NOStart start_env bool | NOStop
  | NOAccept "(nat \<times> string option \<times> u16) option" u32 u32 u32 bool
  | NOWorkerStart u64 | NOWorker u64 recv_result u32
  | NOSend "nat \<Rightarrow> bytes \<Rightarrow> int" u64 FrameHeader bytes
  | NOBroadcast "nat \<Rightarrow> bytes \<Rightarrow> int" FrameHeader bytes
  | NOCleanup u32

fun net_exec :: "'c sch_api \<Rightarrow> net_op \<Rightarrow> 'c NetworkEngine \<Rightarrow> net_out list \<times> 'c NetworkEngine" where
  "net_exec sch (NOStart env cb) e = snd (Net_Start env cb e)"
| "net_exec sch NOStop e = Net_Stop e"
| "net_exec sch (NOAccept acc t0 t1 t2 thread) e = accept_iter acc t0 t1 t2 thread e"
| "net_exec sch (NOWorkerStart i) e = ([], worker_start i e)"
| "net_exec sch (NOWorker i r now) e = worker_loop sch i r now e"
| "net_exec sch (NOSend snt i h p) e = snd (SendFrame sch snt i h p e)"
| "net_exec sch (NOBroadcast snt h p) e = BroadcastFrame sch snt h p e"
| "net_exec sch (NOCleanup now) e = CleanupStaleSessions now e"

text \<open>The socket an operation obtains from the system, and those it closes.\<close>

fun obtained :: "net_op \<Rightarrow> 'c NetworkEngine \<Rightarrow> nat list" where
  "obtained (NOStart env cb) e = (if ne_isRunning e then [] else case se_socket env of None \<Rightarrow> [] | Some s \<Rightarrow> [s])"
| "obtained (NOAccept acc t0 t1 t2 thread) e =
     (if ne_isRunning e then (case acc of None \<Rightarrow> [] | Some a \<Rightarrow> [fst a]) else [])"
| "obtained _ e = []"

fun closes :: "net_out list \<Rightarrow> nat list" where
  "closes [] = []"
| "closes (NClose k # os) = k # closes os"
| "closes (_ # os) = closes os"

lemma closes_append [simp]: "closes (os @ ps) = closes os @ closes ps"
  by (induction os rule: closes.induct) simp_all

lemma closes_frames [simp]: "closes (frame_outs i fs) = []"
  by (induction fs) auto

lemma closes_frames' [simp]: "closes (map (\<lambda>p. NFrame i (fst p) (snd p)) fs) = []"
  by (induction fs) auto

lemma closes_map_NClose [simp]: "closes (map NClose ks) = ks"
  by (induction ks) simp_all

fun thread_created :: "net_op \<Rightarrow> bool" where
  "thread_created (NOAccept acc t0 t1 t2 thread) = thread"
| "thread_created _ = True"

text \<open>
  The steps, with the set of sockets the process has open: an obtained socket is not open before, a worker thread can
  always be created, and each operation runs as a whole.
\<close>

inductive net_step :: "'c sch_api \<Rightarrow> 'c NetworkEngine \<times> nat set \<Rightarrow> net_op \<times> nat list \<times> net_out list \<Rightarrow> 'c NetworkEngine \<times> nat set \<Rightarrow> bool"
  for sch :: "'c sch_api" where
  "net_exec sch op e = (outs, e') \<Longrightarrow> set (obtained op e) \<inter> opn = {} \<Longrightarrow>
   thread_created op \<Longrightarrow>
   net_step sch (e, opn) (op, obtained op e, outs) (e', (opn \<union> set (obtained op e)) - set (closes outs))"

inductive_cases net_stepE: "net_step sch S ev S'"

definition sock :: "'c NetworkEngine \<Rightarrow> u64 \<Rightarrow> nat option" where
  "sock e i = Option.bind (ne_objs e i) cs_Socket"

definition sock_inj :: "'c NetworkEngine \<Rightarrow> bool" where
  "sock_inj e \<longleftrightarrow> (\<forall>i j k. sock e i = Some k \<longrightarrow> sock e j = Some k \<longrightarrow> i = j)"

definition net_inv :: "'c NetworkEngine \<times> nat set \<Rightarrow> bool" where
  "net_inv S \<longleftrightarrow> (case S of (e, opn) \<Rightarrow>
     sock_inj e \<and> ran (sock e) \<subseteq> opn \<and>
     (case ne_listenSocket e of None \<Rightarrow> True | Some k \<Rightarrow> k \<in> opn \<and> k \<notin> ran (sock e) \<and> ne_isRunning e))"

lemma sock_put_obj [simp]: "sock (put_obj i s e) = (sock e)(i := cs_Socket s)"
  by (auto simp: sock_def)

lemma sock_upd [simp]:
  "sock (e\<lparr>ne_clients := c\<rparr>) = sock e" "sock (e\<lparr>ne_listenSocket := l\<rparr>) = sock e" "sock (e\<lparr>ne_isRunning := r\<rparr>) = sock e"
  "sock (e\<lparr>ne_callback := b\<rparr>) = sock e" "sock (e\<lparr>ne_nextClientId := n\<rparr>) = sock e" "sock (e\<lparr>ne_rateLimits := m\<rparr>) = sock e"
  "sock (e\<lparr>ne_hAcceptThread := h\<rparr>) = sock e" "sock (e\<lparr>ne_hMaintenanceThread := h\<rparr>) = sock e"
  by (auto simp: sock_def)

text \<open>What every operation but the accepting and starting ones does: it closes sockets it held and gives up the holds.\<close>

definition releases :: "net_out list \<Rightarrow> 'c NetworkEngine \<Rightarrow> 'c NetworkEngine \<Rightarrow> bool" where
  "releases outs e e' \<longleftrightarrow> distinct (closes outs) \<and> set (closes outs) \<subseteq> ran (sock e) - ran (sock e') \<and>
     (\<forall>i. sock e' i = sock e i \<or> sock e' i = None) \<and>
     ne_listenSocket e' = ne_listenSocket e \<and> ne_isRunning e' = ne_isRunning e"

lemma releases_refl [simp]: "closes outs = [] \<Longrightarrow> sock e' = sock e \<Longrightarrow> ne_listenSocket e' = ne_listenSocket e \<Longrightarrow>
    ne_isRunning e' = ne_isRunning e \<Longrightarrow> releases outs e e'"
  by (simp add: releases_def)

lemma releases_ran: "releases outs e e' \<Longrightarrow> ran (sock e') \<subseteq> ran (sock e)"
proof
  fix k
  assume r: "releases outs e e'" and "k \<in> ran (sock e')"
  then obtain i where i: "sock e' i = Some k" by (auto simp: ran_def)
  with r have "sock e i = Some k" by (metis releases_def option.distinct(1))
  then show "k \<in> ran (sock e)" by (rule ranI)
qed

lemma releases_inj: "releases outs e e' \<Longrightarrow> sock_inj e \<Longrightarrow> sock_inj e'"
  unfolding releases_def sock_inj_def by (metis option.distinct(1))

lemma releases_trans:
  assumes "releases o1 e e'" "releases o2 e' e''"
  shows "releases (o1 @ o2) e e''"
proof -
  note r = assms [unfolded releases_def] releases_ran [OF assms(1)] releases_ran [OF assms(2)]
  have "distinct (closes (o1 @ o2))" "set (closes (o1 @ o2)) \<subseteq> ran (sock e) - ran (sock e'')"
    using r by auto
  moreover have "\<forall>i. sock e'' i = sock e i \<or> sock e'' i = None"
    using r(1,2) by metis
  ultimately show ?thesis
    using r(1,2) by (simp add: releases_def)
qed

lemma releases_put:
  assumes "sock_inj e" "ne_objs e i = Some s" "cs_Socket s = Some k" "cs_Socket s' = None" "closes outs = [k]"
  shows "releases outs e (put_obj i s' e)"
proof -
  have "sock e i = Some k" using assms by (simp add: sock_def)
  then show ?thesis
    using assms by (auto simp: releases_def sock_inj_def ran_def)
qed

lemma releases_drop: "closes outs = [] \<Longrightarrow> cs_Socket s = None \<Longrightarrow> releases outs e (put_obj i s e)"
  by (simp add: releases_def)

lemma releases_keep: "closes outs = [] \<Longrightarrow> ne_objs e i = Some s \<Longrightarrow> cs_Socket s' = cs_Socket s \<Longrightarrow> releases outs e (put_obj i s' e)"
  by (rule releases_refl) (auto simp: sock_def)

lemma releases_clients [simp]: "releases outs e (e'\<lparr>ne_clients := c\<rparr>) = releases outs e e'"
  by (simp add: releases_def)

lemma stop_clients_releases: "sock_inj e \<Longrightarrow> releases (fst (stop_clients is e)) e (snd (stop_clients is e))"
proof (induction "is" e rule: stop_clients.induct)
  case (2 i "is" e)
  show ?case
  proof (cases "sock e i")
    case None
    then show ?thesis using 2 by (auto simp: sock_def split: option.split)
  next
    case (Some k)
    then obtain s where s: "ne_objs e i = Some s" "cs_Socket s = Some k" by (auto simp: sock_def split: bind_splits)
    let ?e = "put_obj i (s\<lparr>cs_Socket := None, cs_State := DISCONNECTED\<rparr>) e"
    have r: "releases [NShutdown k, NClose k] e ?e" by (rule releases_put [OF "2.prems" s]) simp_all
    from releases_trans [OF r "2.IH"(3) [OF s]] show ?thesis
      using s releases_inj [OF r "2.prems"] by (simp add: case_prod_unfold Let_def)
  qed
qed simp

lemma cleanup_loop_releases: "sock_inj e \<Longrightarrow> releases (map NClose (fst (cleanup_loop now is e))) e (snd (cleanup_loop now is e))"
proof (induction now "is" e rule: cleanup_loop.induct)
  case (2 now i "is" e)
  show ?case
  proof (cases "ne_objs e i")
    case None
    then show ?thesis using 2 by simp
  next
    case s: (Some s)
    show ?thesis
    proof (cases "30000 < now - cs_LastActiveTimestampMs s")
      case False
      then show ?thesis using 2 s by simp
    next
      case True
      let ?o = "case cs_Socket s of None \<Rightarrow> [] | Some k \<Rightarrow> [NClose k]"
      let ?e = "put_obj i (s\<lparr>cs_Socket := None\<rparr>) e\<lparr>ne_clients := removeAll i (ne_clients e)\<rparr>"
      have r: "releases ?o e ?e"
        using "2.prems" s by (auto split: option.split intro: releases_put releases_drop)
      from releases_trans [OF r "2.IH"(2) [OF s True]] show ?thesis
        using s True releases_inj [OF r "2.prems"] by (auto simp: case_prod_unfold Let_def split: option.splits)
    qed
  qed
qed simp

lemma worker_exit_releases:
  assumes "sock_inj e" "ne_objs e i = Some s0" "cs_Socket s = cs_Socket s0 \<or> cs_Socket s = None"
  shows "releases (fst (worker_exit i s e)) e (snd (worker_exit i s e))"
proof (cases "cs_Socket s")
  case None
  then show ?thesis by (simp add: worker_exit_def releases_drop)
next
  case (Some k)
  with assms(3) have "cs_Socket s0 = Some k" by simp
  with Some show ?thesis by (simp add: worker_exit_def releases_put [OF assms(1,2)])
qed

lemma worker_handshake_frame:
  "closes (fst (worker_handshake sch c s)) = [] \<and> cs_Socket (fst (snd (worker_handshake sch c s))) = cs_Socket s"
  by (auto simp: worker_handshake_def case_prod_unfold Let_def split: option.split)

lemma receive_bytes_frame: "cs_Socket (receive_bytes sch c s) = cs_Socket s"
  by (auto simp: receive_bytes_def case_prod_unfold Let_def)

lemma detect_transport_frame: "cs_Socket (detect_transport c s) = cs_Socket s"
  by (simp add: detect_transport_def)

lemma worker_iter_frame:
  assumes "worker_iter sch b i r now s = (outs, s', go)"
  shows "closes outs = [] \<and> (cs_Socket s' = cs_Socket s \<or> cs_Socket s' = None \<and> \<not> go)"
proof (cases r)
  case (RecvNone err)
  then show ?thesis using assms by (auto simp: worker_iter_def split: if_splits)
next
  case (RecvData c)
  define s1 where "s1 = detect_transport c (s\<lparr>cs_LastActiveTimestampMs := now\<rparr>)"
  have s1: "cs_Socket s1 = cs_Socket s" by (simp add: s1_def detect_transport_frame)
  have "worker_iter sch b i r now s =
      (if cs_State s1 = TLS_HANDSHAKE then worker_handshake sch c s1
       else if cs_State s1 = ACTIVE_SESSION then
         let s = receive_bytes sch c s1;
             (frames, rest, dropped) = extract_frames (cs_ReceiveBuffer s);
             outs = (if b then frame_outs i frames else []);
             s = s\<lparr>cs_ReceiveBuffer := rest, cs_Socket := (if dropped then None else cs_Socket s)\<rparr>
         in (outs, s, cs_Socket s \<noteq> None)
       else ([], s1, True))"
    using RecvData by (simp add: worker_iter_def s1_def Let_def)
  with assms s1 worker_handshake_frame [of sch c s1] show ?thesis
    by (auto simp: receive_bytes_frame Let_def case_prod_unfold split: if_splits)
qed

lemma worker_loop_releases:
  assumes "sock_inj e"
  shows "releases (fst (worker_loop sch i r now e)) e (snd (worker_loop sch i r now e))"
proof (cases "ne_objs e i")
  case None
  then show ?thesis by (simp add: worker_loop_def)
next
  case s: (Some s)
  obtain outs s' go where it: "worker_iter sch (ne_callback e) i r now s = (outs, s', go)" by (metis surj_pair)
  note f = worker_iter_frame [OF it]
  have "releases (outs @ fst (worker_exit i s' e)) e (snd (worker_exit i s' e))"
    by (rule releases_trans [of outs e e]) (use f worker_exit_releases [OF assms s, of s'] in auto)
  moreover have "releases (fst (worker_exit i s e)) e (snd (worker_exit i s e))"
    by (rule worker_exit_releases [OF assms s]) simp
  moreover have "go \<Longrightarrow> releases outs e (put_obj i s' e)"
    using f s releases_keep by blast
  ultimately show ?thesis
    using s it by (simp add: worker_loop_def case_prod_unfold Let_def)
qed

lemma SendFrame_releases: "releases (fst (snd (SendFrame sch snt i h p e))) e (snd (snd (SendFrame sch snt i h p e)))"
  by (auto simp: SendFrame_def case_prod_unfold Let_def split: option.split intro: releases_keep)

lemma send_all_releases: "releases (fst (send_all sch snt is h p e)) e (snd (send_all sch snt is h p e))"
proof (induction "is" arbitrary: e)
  case (Cons i "is")
  from releases_trans [OF SendFrame_releases Cons.IH] show ?case
    by (simp add: case_prod_unfold Let_def)
qed simp

lemma worker_start_releases: "releases [] e (worker_start i e)"
  by (auto simp: worker_start_def split: option.split intro: releases_keep)

text \<open>The operations that obtain no socket and keep the listening one.\<close>

fun session_op :: "net_op \<Rightarrow> bool" where
  "session_op (NOStart _ _) = False"
| "session_op NOStop = False"
| "session_op (NOAccept _ _ _ _ _) = False"
| "session_op _ = True"

lemma net_exec_releases:
  assumes "sock_inj e" "session_op op"
  shows "releases (fst (net_exec sch op e)) e (snd (net_exec sch op e))"
  using assms(2) worker_loop_releases [OF assms(1)] SendFrame_releases send_all_releases worker_start_releases
    cleanup_loop_releases [OF assms(1)]
  by (cases op) (auto simp: BroadcastFrame_def CleanupStaleSessions_def case_prod_unfold Let_def)

definition closes_ok :: "nat set \<Rightarrow> net_out list \<Rightarrow> bool" where
  "closes_ok opn outs \<longleftrightarrow> distinct (closes outs) \<and> set (closes outs) \<subseteq> opn"

lemma releases_inv:
  assumes "releases outs e e'" "net_inv (e, opn)"
  shows "closes_ok opn outs \<and> net_inv (e', opn - set (closes outs))"
proof -
  have "ran (sock e') \<subseteq> ran (sock e)" "sock_inj e'"
    using assms releases_ran releases_inj by (auto simp: net_inv_def)
  then show ?thesis
    using assms by (auto simp: releases_def net_inv_def closes_ok_def split: option.splits)
qed

lemma Net_Stop_inv:
  assumes "net_inv (e, opn)"
  shows "closes_ok opn (fst (Net_Stop e)) \<and> net_inv (snd (Net_Stop e), opn - set (closes (fst (Net_Stop e))))"
proof (cases "ne_isRunning e")
  case False
  then show ?thesis using assms by (simp add: Net_Stop_def closes_ok_def)
next
  case True
  let ?e = "e\<lparr>ne_isRunning := False, ne_listenSocket := None\<rparr>"
  let ?l = "case ne_listenSocket e of None \<Rightarrow> [] | Some s \<Rightarrow> [NClose s]"
  have "net_inv (?e, opn - set (closes ?l))" "closes_ok opn ?l"
    using assms by (auto simp: net_inv_def closes_ok_def sock_inj_def split: option.splits)
  moreover have "sock_inj ?e" using assms by (simp add: net_inv_def sock_inj_def)
  ultimately show ?thesis
    using releases_inv [OF stop_clients_releases [of ?e "ne_clients e"], of "opn - set (closes ?l)"] True
    by (auto simp: Net_Stop_def case_prod_unfold Let_def closes_ok_def net_inv_def sock_inj_def Diff_eq split: option.splits)
qed

lemma Net_Start_inv:
  assumes "net_inv (e, opn)" "set (obtained (NOStart env cb) e) \<inter> opn = {}"
    and "Net_Start env cb e = (ok, outs, e')"
  shows "closes_ok (opn \<union> set (obtained (NOStart env cb) e)) outs \<and>
    net_inv (e', (opn \<union> set (obtained (NOStart env cb) e)) - set (closes outs))"
  using assms
  by (auto simp: Net_Start_def net_inv_def closes_ok_def sock_inj_def Let_def split: if_splits option.splits)

lemma CheckRateLimit_frame:
  "sock (snd (CheckRateLimit t ip e)) = sock e \<and> ne_listenSocket (snd (CheckRateLimit t ip e)) = ne_listenSocket e \<and>
   ne_isRunning (snd (CheckRateLimit t ip e)) = ne_isRunning e"
  by (simp add: CheckRateLimit_def Let_def split: option.split)

lemma net_inv_hold:
  assumes "net_inv (e, opn)" "k \<notin> opn" "cs_Socket s = Some k"
  shows "net_inv (put_obj i s e, insert k opn)"
  using assms by (auto simp: net_inv_def sock_inj_def ran_def split: option.splits if_splits)

lemma net_inv_bookkeeping [simp]: "net_inv (e\<lparr>ne_nextClientId := n, ne_clients := c\<rparr>, opn) = net_inv (e, opn)"
  by (cases "ne_listenSocket e") (simp_all add: net_inv_def sock_inj_def)

lemma accept_iter_inv:
  assumes "net_inv (e, opn)" "set (obtained (NOAccept acc t0 t1 t2 True) e) \<inter> opn = {}"
    and "accept_iter acc t0 t1 t2 True e = (outs, e')"
  shows "closes_ok (opn \<union> set (obtained (NOAccept acc t0 t1 t2 True) e)) outs \<and>
    net_inv (e', (opn \<union> set (obtained (NOAccept acc t0 t1 t2 True) e)) - set (closes outs))"
proof (cases "ne_isRunning e \<and> acc \<noteq> None")
  case False
  then have "accept_iter acc t0 t1 t2 True e = ([], e)" "obtained (NOAccept acc t0 t1 t2 True) e = []"
    by (cases acc; simp add: accept_iter_def)+
  then have "outs = []" "e' = e" "obtained (NOAccept acc t0 t1 t2 True) e = []"
    using assms(3) by simp_all
  then show ?thesis using assms(1) by (simp add: closes_ok_def)
next
  case True
  then obtain k ipStr port where acc: "acc = Some (k, ipStr, port)" by (metis not_None_eq surj_pair)
  let ?ip = "case ipStr of None \<Rightarrow> ''127.0.0.1'' | Some ip \<Rightarrow> ip"
  obtain ok e1 where c: "CheckRateLimit t0 ?ip e = (ok, e1)" by (metis surj_pair)
  have e1: "net_inv (e1, opn)"
    using assms(1) CheckRateLimit_frame [of t0 ?ip e] c by (auto simp: net_inv_def sock_inj_def split: option.splits)
  have k: "k \<notin> opn" using assms(2) True acc by simp
  show ?thesis
  proof (cases ok)
    case False
    then have "outs = [NLogRateLimit ?ip, NClose k]" "e' = e1"
      using assms(3) True acc c by (simp_all add: accept_iter_def)
    then show ?thesis using e1 k True acc by (simp add: closes_ok_def)
  next
    case ok: True
    let ?s = "new_client (ne_nextClientId e1) k ?ip port t1 t2"
    have "outs = []" "e' = (put_obj (ne_nextClientId e1) ?s e1)\<lparr>ne_nextClientId := ne_nextClientId e1 + 1,
        ne_clients := List.insert (ne_nextClientId e1) (ne_clients e1)\<rparr>"
      using assms(3) True acc c ok by (simp_all add: accept_iter_def Let_def)
    then show ?thesis
      using net_inv_hold [OF e1 k, of ?s "ne_nextClientId e1"] True acc
      by (simp add: closes_ok_def new_client_def)
  qed
qed

lemma net_step_ok:
  assumes "net_step sch S (op, got, outs) S'" "net_inv S"
  shows "closes_ok (snd S \<union> set got) outs" "net_inv S'" "snd S' = (snd S \<union> set got) - set (closes outs)"
proof -
  from assms(1) obtain e opn e' where S: "S = (e, opn)" "S' = (e', (opn \<union> set got) - set (closes outs))"
    and got: "got = obtained op e"
    and ex: "net_exec sch op e = (outs, e')" and fr: "set got \<inter> opn = {}"
    and th: "thread_created op"
    by (auto elim: net_stepE)
  have inv: "net_inv (e, opn)" using assms(2) S by simp
  then have inj: "sock_inj e" by (simp add: net_inv_def)
  have "closes_ok (opn \<union> set got) outs \<and> net_inv (e', (opn \<union> set got) - set (closes outs))"
  proof (cases op)
    case (NOStart env cb)
    then show ?thesis
      using Net_Start_inv [OF inv, of env cb "fst (Net_Start env cb e)" outs e'] ex fr got by (simp add: prod_eq_iff)
  next
    case NOStop
    then show ?thesis using Net_Stop_inv [OF inv] ex got by simp
  next
    case (NOAccept acc t0 t1 t2 thread)
    with th have "op = NOAccept acc t0 t1 t2 True" by simp
    then show ?thesis using accept_iter_inv [OF inv, of acc t0 t1 t2 outs e'] ex fr got by (simp only: net_exec.simps)
  qed (use releases_inv [OF net_exec_releases [OF inj, of op sch], OF _ inv] ex got in \<open>auto simp: case_prod_unfold\<close>)
  then show "closes_ok (snd S \<union> set got) outs" "net_inv S'" "snd S' = (snd S \<union> set got) - set (closes outs)"
    using S by auto
qed

interpretation net_machine: invariant_machine "net_step sch" net_inv
proof
  show "net_inv s \<Longrightarrow> net_step sch s ev s' \<Longrightarrow> net_inv s'" for s ev s'
    using net_step_ok(2) [of sch s "fst ev" "fst (snd ev)" "snd (snd ev)" s'] by simp
qed

text \<open>The sockets open after a history of the engine: obtained from the system and not closed since.\<close>

fun open_after :: "nat set \<Rightarrow> (net_op \<times> nat list \<times> net_out list) list \<Rightarrow> nat set" where
  "open_after opn [] = opn"
| "open_after opn ((op, got, outs) # es) = open_after ((opn \<union> set got) - set (closes outs)) es"

lemma run_open_after: "run (net_step sch) S es S' \<Longrightarrow> net_inv S \<Longrightarrow> snd S' = open_after (snd S) es"
proof (induction rule: run.induct)
  case (run_Cons s ev s' es s'')
  obtain op got outs where ev: "ev = (op, got, outs)" by (metis surj_pair)
  have "net_inv s'" "snd s' = (snd s \<union> set got) - set (closes outs)"
    using net_step_ok [of sch s op got outs s'] run_Cons.hyps run_Cons.prems ev by simp_all
  then show ?case using run_Cons.IH ev by simp
qed simp

text \<open>When accepting, worker iterations, sending, housekeeping, stopping and restarting follow each other as whole steps, in any order, and
  as long as worker threads can be created, the engine closes only sockets it has open, each once. The threads can interleave within
  these steps, and then this does not hold; see theory SocketThreads.
\<close>

theorem no_double_close:
  assumes "run (net_step sch) (NetworkEngine_new port, {}) (es @ [(op, got, outs)]) S"
  shows "distinct (closes outs) \<and> set (closes outs) \<subseteq> open_after {} es \<union> set got"
proof -
  have init: "net_inv (NetworkEngine_new port, {})"
    by (auto simp: net_inv_def sock_inj_def NetworkEngine_new_def sock_def ran_def)
  from assms obtain T where T: "run (net_step sch) (NetworkEngine_new port, {}) es T" "net_step sch T (op, got, outs) S"
    by (auto simp: run_append)
  have "net_inv T" by (rule net_machine.run_inv [OF T(1) init])
  from net_step_ok(1) [OF T(2) this] run_open_after [OF T(1) init] show ?thesis
    by (simp add: closes_ok_def)
qed

text \<open>The history of \<open>sample_engine\<close>: a start and one client.\<close>

definition sample_env :: start_env where
  "sample_env = \<lparr>se_socket = Some 5, se_bind = True, se_listen = True, se_accept_thread = Some 1, se_maintenance_thread = Some 2\<rparr>"

abbreviation sample_accept :: net_op where
  "sample_accept \<equiv> NOAccept (Some (77, Some ''10.0.0.9'', 5000)) 1000 1000 1000 True"

lemma sample_run:
  "run (net_step demo_sch) (NetworkEngine_new 8443, {}) [(NOStart sample_env True, [5], []), (sample_accept, [77], [])] (sample_engine, {5, 77})"
proof -
  let ?e = "snd (snd (Net_Start sample_env True (NetworkEngine_new 8443))) :: nat NetworkEngine"
  note defs = Net_Start_def NetworkEngine_new_def sample_env_def accept_iter_def CheckRateLimit_def Let_def
  have "net_step demo_sch (NetworkEngine_new 8443, {}) (NOStart sample_env True, [5], []) (?e, {5})"
    using net_step.intros [of demo_sch "NOStart sample_env True" "NetworkEngine_new 8443" "[]" ?e "{}"] by (simp add: defs)
  moreover have "net_step demo_sch (?e, {5}) (sample_accept, [77], []) (sample_engine, {5, 77})"
  proof -
    have "net_exec demo_sch sample_accept ?e = (fst (net_exec demo_sch sample_accept ?e), sample_engine)"
      by (simp add: sample_engine_def sample_env_def)
    moreover have "fst (net_exec demo_sch sample_accept ?e) = []" "obtained sample_accept ?e = [77]"
      by (simp_all add: defs)
    ultimately show ?thesis
      using net_step.intros [of demo_sch sample_accept ?e "[]" sample_engine "{5}"] by (simp add: insert_commute del: net_exec.simps obtained.simps)
  qed
  ultimately show ?thesis by auto
qed

theorem no_double_close_witness:
  "distinct (closes [NClose 5, NShutdown 77, NClose 77]) \<and>
   set (closes [NClose 5, NShutdown 77, NClose 77]) \<subseteq>
     open_after {} [(NOStart sample_env True, [5], []), (sample_accept, [77], [])] \<union> set []"
proof (rule no_double_close)
  have outs: "fst (Net_Stop sample_engine) = [NClose 5, NShutdown 77, NClose 77]"
    by (simp add: sample_engine_def Net_Stop_def Net_Start_def NetworkEngine_new_def accept_iter_def CheckRateLimit_def
        new_client_def put_obj_def Let_def)
  have "net_step demo_sch (sample_engine, {5, 77}) (NOStop, obtained NOStop sample_engine, fst (Net_Stop sample_engine))
      (snd (Net_Stop sample_engine), ({5, 77} \<union> set (obtained NOStop sample_engine)) - set (closes (fst (Net_Stop sample_engine))))"
    by (rule net_step.intros) auto
  then have "net_step demo_sch (sample_engine, {5, 77}) (NOStop, [], [NClose 5, NShutdown 77, NClose 77]) (snd (Net_Stop sample_engine), {})"
    by (simp add: outs)
  with sample_run show "run (net_step demo_sch) (NetworkEngine_new 8443, {})
     ([(NOStart sample_env True, [5], []), (sample_accept, [77], [])] @ [(NOStop, [], [NClose 5, NShutdown 77, NClose 77])])
     (snd (Net_Stop sample_engine), {})"
    by (auto simp: run_append)
qed

text \<open>
  Two flaws of the ownership: a malformed header makes the worker forget its socket without closing it, and a session
  whose thread could not be created stays in the map with a socket that is already closed, which housekeeping closes again.
\<close>

lemma malformed_header_leaks:
  assumes "ne_isRunning e" "ne_objs e i = Some s" "plain_session s"
    and "FRAME_HEADER_SIZE \<le> length (cs_ReceiveBuffer s @ c)" "DeserializeFrameHeader (Some (cs_ReceiveBuffer s @ c)) = None"
  shows "closes (fst (worker_loop sch i (RecvData c) now e)) = []" "sock (snd (worker_loop sch i (RecvData c) now e)) i = None"
proof -
  have "extract_frames (cs_ReceiveBuffer s @ c) = ([], cs_ReceiveBuffer s @ c, True)"
    using assms(4,5) by (subst extract_frames.simps) simp
  then have "worker_loop sch i (RecvData c) now e = worker_exit i (s\<lparr>cs_LastActiveTimestampMs := now,
      cs_ReceiveBuffer := cs_ReceiveBuffer s @ c, cs_Socket := None\<rparr>) e"
    using assms(1,2,3)
    by (cases "ne_callback e") (auto simp: worker_loop_def worker_iter_def plain_session_def detect_transport_def receive_bytes_def
        Let_def worker_exit_def)
  then show "closes (fst (worker_loop sch i (RecvData c) now e)) = []" "sock (snd (worker_loop sch i (RecvData c) now e)) i = None"
    by (simp_all add: worker_exit_def)
qed

lemma thread_failure_closes_twice:
  "let (o1, e1) = accept_iter (Some (78, Some ''10.0.0.9'', 5001)) 2000 2000 2000 False sample_engine;
       (o2, e2) = CleanupStaleSessions 40000 e1
   in closes o1 = [78] \<and> 78 \<in> set (closes o2)"
  by (simp add: sample_engine_def Net_Start_def NetworkEngine_new_def accept_iter_def CheckRateLimit_def
        new_client_def put_obj_def CleanupStaleSessions_def Let_def)

end
