(* ===== verification/Lsa.thy ===== *)
theory Lsa
  imports Auth
begin

text \<open>
  \<^verbatim>\<open>windows/lsa_authentication_package\<close> and \<^verbatim>\<open>windows/authentication/LsaPackageLookup.cpp\<close>: the logon
  submission buffer, the authentication package that decides a logon inside LSASS, and the lookup of its identifier. The LSA heap is a
  count of live blocks with an oracle \<open>alloc\<close> that says whether the n-th allocation of a size succeeds; the
  account database is the argument \<open>lookup_sid\<close>. The entry points of the library are in
  \<open>LsaExports\<close>.
\<close>

section \<open>The submission buffer\<close>

definition LSA_SUBMIT_BUFFER_MAGIC :: u32 where "LSA_SUBMIT_BUFFER_MAGIC = 0x4D554C53"
definition LSA_SUBMIT_BUFFER_VERSION :: u32 where "LSA_SUBMIT_BUFFER_VERSION = 1"
definition LSA_DEVICE_ID_SIZE :: nat where "LSA_DEVICE_ID_SIZE = 16"
definition LSA_CANONICAL_MESSAGE_SIZE :: nat where "LSA_CANONICAL_MESSAGE_SIZE = 88"
definition LSA_SIGNATURE_SIZE :: nat where "LSA_SIGNATURE_SIZE = 64"

definition LSA_LOGON_BUFFER_SIZE :: nat where "LSA_LOGON_BUFFER_SIZE = 180"

lemmas lsa_consts = LSA_SUBMIT_BUFFER_MAGIC_def LSA_SUBMIT_BUFFER_VERSION_def LSA_DEVICE_ID_SIZE_def
  LSA_CANONICAL_MESSAGE_SIZE_def LSA_SIGNATURE_SIZE_def LSA_LOGON_BUFFER_SIZE_def

record LSA_LOGON_BUFFER =
  lb_Magic :: u32
  lb_Version :: u32
  lb_DeviceId :: bytes
  lb_Reserved :: u32
  lb_CanonicalMessage :: bytes
  lb_Signature :: bytes

text \<open>The packed structure in memory, in host byte order.\<close>

definition lsa_buffer_image :: "LSA_LOGON_BUFFER \<Rightarrow> bytes" where
  "lsa_buffer_image b = to_le 4 (lb_Magic b) @ to_le 4 (lb_Version b) @ lb_DeviceId b @ to_le 4 (lb_Reserved b) @
     lb_CanonicalMessage b @ lb_Signature b"

definition lsa_buffer_of_image :: "bytes \<Rightarrow> LSA_LOGON_BUFFER" where
  "lsa_buffer_of_image bs = \<lparr>lb_Magic = from_le (take 4 bs), lb_Version = from_le (take 4 (drop 4 bs)),
     lb_DeviceId = take 16 (drop 8 bs), lb_Reserved = from_le (take 4 (drop 24 bs)),
     lb_CanonicalMessage = take 88 (drop 28 bs), lb_Signature = take 64 (drop 116 bs)\<rparr>"

section \<open>Status codes and the heap\<close>

definition STATUS_SUCCESS :: u32 where "STATUS_SUCCESS = 0x00000000"
definition STATUS_UNSUCCESSFUL :: u32 where "STATUS_UNSUCCESSFUL = 0xC0000001"
definition STATUS_LOGON_FAILURE :: u32 where "STATUS_LOGON_FAILURE = 0xC000006D"
definition STATUS_ACCOUNT_RESTRICTION :: u32 where "STATUS_ACCOUNT_RESTRICTION = 0xC000006E"
definition STATUS_INVALID_PARAMETER :: u32 where "STATUS_INVALID_PARAMETER = 0xC000000D"
definition STATUS_NO_SUCH_USER :: u32 where "STATUS_NO_SUCH_USER = 0xC0000064"
definition STATUS_INSUFFICIENT_RESOURCES :: u32 where "STATUS_INSUFFICIENT_RESOURCES = 0xC000009A"
definition STATUS_BUFFER_TOO_SMALL :: u32 where "STATUS_BUFFER_TOO_SMALL = 0xC0000023"
definition STATUS_NOT_SUPPORTED :: u32 where "STATUS_NOT_SUPPORTED = 0xC00000BB"

lemmas status_consts = STATUS_SUCCESS_def STATUS_UNSUCCESSFUL_def STATUS_LOGON_FAILURE_def STATUS_ACCOUNT_RESTRICTION_def
  STATUS_INVALID_PARAMETER_def STATUS_NO_SUCH_USER_def STATUS_INSUFFICIENT_RESOURCES_def STATUS_BUFFER_TOO_SMALL_def
  STATUS_NOT_SUPPORTED_def

text \<open>
  The package: whether the dispatch table offers the LSA heap's allocation and release, the allocations made so far
  and the blocks alive. Blocks from the LSA heap and from the fallback \<^verbatim>\<open>LocalAlloc\<close> are counted together.
\<close>

record LsaPackage =
  lp_packageId :: u32
  lp_dispatchTable :: "(bool \<times> bool) option"
  lp_isInitialized :: bool
  lp_allocations :: nat
  lp_live :: int

definition LsaPackage_new :: LsaPackage where
  "LsaPackage_new = \<lparr>lp_packageId = 0, lp_dispatchTable = None, lp_isInitialized = False, lp_allocations = 0, lp_live = 0\<rparr>"

definition SetDispatchTableForTesting :: "(bool \<times> bool) option \<Rightarrow> LsaPackage \<Rightarrow> LsaPackage" where
  "SetDispatchTableForTesting dispatchTable p = p\<lparr>lp_dispatchTable := dispatchTable\<rparr>"

text \<open>The oracle gets whether the LSA heap is used, the number of earlier allocations and the size.\<close>

type_synonym alloc_oracle = "bool \<Rightarrow> nat \<Rightarrow> u32 \<Rightarrow> bool"

definition AllocateHeap :: "alloc_oracle \<Rightarrow> u32 \<Rightarrow> LsaPackage \<Rightarrow> bool \<times> LsaPackage" where
  "AllocateHeap alloc len p =
     (if len = 0 then (False, p)
      else
        let ok = alloc (case lp_dispatchTable p of None \<Rightarrow> False | Some (a, _) \<Rightarrow> a) (lp_allocations p) len
        in (ok, p\<lparr>lp_allocations := Suc (lp_allocations p), lp_live := lp_live p + (if ok then 1 else 0)\<rparr>))"

definition FreeHeap :: "bool \<Rightarrow> LsaPackage \<Rightarrow> LsaPackage" where
  "FreeHeap nonnull p = (if \<not> nonnull then p else p\<lparr>lp_live := lp_live p - 1\<rparr>)"

record UNICODE_STRING =
  us_Length :: u16
  us_MaximumLength :: u16
  us_Buffer :: wstring

definition CreateUnicodeStringOnLsaHeap :: "alloc_oracle \<Rightarrow> wstring \<Rightarrow> LsaPackage \<Rightarrow> UNICODE_STRING option \<times> LsaPackage" where
  "CreateUnicodeStringOnLsaHeap alloc str p =
     (let cbBuffer = (of_nat ((length str + 1) * 2) :: u32);
          cbTotal = 8 + cbBuffer;
          (ok, p) = AllocateHeap alloc cbTotal p
      in if \<not> ok then (None, p)
         else (Some \<lparr>us_Length = of_nat (length str * 2), us_MaximumLength = ucast cbBuffer, us_Buffer = str @ [0]\<rparr>, p))"

section \<open>Initialization\<close>

definition LSA_PACKAGE_NAME_A :: string where "LSA_PACKAGE_NAME_A = ''MobileUnlockLsaPackage''"
definition AUTH_AUTHORITY_W :: wstring where "AUTH_AUTHORITY_W = wide ''MobileFingerprintUnlock''"

record LSA_STRING =
  ls_Length :: u16
  ls_MaximumLength :: u16
  ls_Buffer :: string

definition Lsa_Initialize ::
  "alloc_oracle \<Rightarrow> u32 \<Rightarrow> (bool \<times> bool) option \<Rightarrow> bool \<Rightarrow> LsaPackage \<Rightarrow> u32 \<times> LSA_STRING option \<times> LsaPackage" where
  "Lsa_Initialize alloc authenticationPackageId lsaDispatchTable wantName p =
     (if \<not> wantName then (STATUS_INVALID_PARAMETER, None, p)
      else
        let p = p\<lparr>lp_packageId := authenticationPackageId\<rparr>;
            p = (if lsaDispatchTable \<noteq> None then p\<lparr>lp_dispatchTable := lsaDispatchTable\<rparr> else p);
            nameLen = length LSA_PACKAGE_NAME_A;
            (ok, p) = AllocateHeap alloc (8 + of_nat (nameLen + 1)) p
        in if \<not> ok then (STATUS_INSUFFICIENT_RESOURCES, None, p)
           else (STATUS_SUCCESS,
                 Some \<lparr>ls_Length = of_nat nameLen, ls_MaximumLength = of_nat (nameLen + 1),
                   ls_Buffer = LSA_PACKAGE_NAME_A @ [CHR 0x00]\<rparr>,
                 p\<lparr>lp_isInitialized := True\<rparr>))"

section \<open>The logon decision\<close>

text \<open>
  Which of the optional outputs the caller passes. The outputs of type \<open>null_output\<close> are set to their null value
  (for the token information type \<^verbatim>\<open>LsaTokenInformationNull\<close>) at the start of the call and never to another.
\<close>

datatype null_output =
    OutProfileBuffer | OutProfileBufferLength | OutTokenInformationType | OutTokenInformation | OutMachineName
  | OutPrimaryCredentials | OutSupplementalCredentials

record logon_request =
  lr_subStatus :: bool
  lr_accountName :: bool
  lr_authority :: bool
  lr_others :: "null_output list"

record logon_result =
  lo_status :: u32
  lo_subStatus :: "u32 option"
  lo_accountName :: "UNICODE_STRING option"
  lo_authority :: "UNICODE_STRING option"
  lo_nulled :: "null_output list"
  lo_package :: LsaPackage
  lo_crypto :: crypto_state

definition logon_failed :: "logon_request \<Rightarrow> u32 \<Rightarrow> LsaPackage \<Rightarrow> crypto_state \<Rightarrow> logon_result" where
  "logon_failed req status p cs = \<lparr>lo_status = status, lo_subStatus = (if lr_subStatus req then Some status else None),
     lo_accountName = None, lo_authority = None, lo_nulled = lr_others req, lo_package = p, lo_crypto = cs\<rparr>"

text \<open>Steps 1 to 3: the buffer and the signed message in it.\<close>

definition logon_message :: "bytes option \<Rightarrow> u32 + LSA_LOGON_BUFFER \<times> SignedMessage" where
  "logon_message submit =
     (case submit of
        None \<Rightarrow> Inl STATUS_INVALID_PARAMETER
      | Some bs \<Rightarrow>
          if length bs < LSA_LOGON_BUFFER_SIZE then Inl STATUS_BUFFER_TOO_SMALL
          else
            let pBuf = lsa_buffer_of_image bs in
            if lb_Magic pBuf \<noteq> LSA_SUBMIT_BUFFER_MAGIC \<or> lb_Version pBuf \<noteq> LSA_SUBMIT_BUFFER_VERSION \<or> lb_Reserved pBuf \<noteq> 0
            then Inl STATUS_INVALID_PARAMETER
            else (case DeserializeSignedMessage (Some (lb_CanonicalMessage pBuf)) of
                None \<Rightarrow> Inl STATUS_INVALID_PARAMETER
              | Some msg \<Rightarrow>
                  if sm_ProtocolVersion msg \<noteq> 0x0100 then Inl STATUS_INVALID_PARAMETER
                  else if sm_DeviceIdentity msg \<noteq> lb_DeviceId pBuf then Inl STATUS_LOGON_FAILURE
                  else if sm_Operation msg \<noteq> opcode MT_AUTH_RESPONSE then Inl STATUS_LOGON_FAILURE
                  else Inr (pBuf, msg)))"

text \<open>Step 4: the device.\<close>

definition logon_device :: "'w reg_api \<Rightarrow> 'w reg_state \<Rightarrow> DeviceId \<Rightarrow> (u32 + DeviceRecord) option" where
  "logon_device api reg devId =
     (let devIdStr = DeviceIdToString devId in
      if devIdStr = [] then Some (Inl STATUS_INVALID_PARAMETER)
      else do {
        (regRes, deviceRecord) \<leftarrow> ReadDeviceRecord api reg devIdStr DeviceRecord_init;
        Some (if regRes \<noteq> ERROR_SUCCESS then Inl STATUS_NO_SUCH_USER
          else if dr_pairStatus deviceRecord \<noteq> kStatusActive then Inl STATUS_ACCOUNT_RESTRICTION
          else if dr_publicKey deviceRecord = [] then Inl STATUS_LOGON_FAILURE
          else Inr deviceRecord)
      })"

text \<open>Step 6: the account's name, or the device's, or a fixed one.\<close>

definition target_user_name :: "(string \<Rightarrow> wstring option) \<Rightarrow> DeviceRecord \<Rightarrow> wstring" where
  "target_user_name lookup_sid deviceRecord =
     (let name = (if dr_accountSid deviceRecord \<noteq> []
            then (case lookup_sid (dr_accountSid deviceRecord) of None \<Rightarrow> [] | Some n \<Rightarrow> n) else [])
      in if name \<noteq> [] then name
         else if dr_deviceName deviceRecord \<noteq> [] then wide (dr_deviceName deviceRecord)
         else wide ''MobileUnlockUser'')"

text \<open>Step 7: the strings handed to the LSA; the first is given back when the second cannot be allocated.\<close>

definition logon_outputs :: "alloc_oracle \<Rightarrow> logon_request \<Rightarrow> wstring \<Rightarrow> LsaPackage \<Rightarrow> crypto_state \<Rightarrow> logon_result" where
  "logon_outputs alloc req targetUserName p cs =
     (let (accountName, p) = (if lr_accountName req then CreateUnicodeStringOnLsaHeap alloc targetUserName p else (None, p)) in
      if lr_accountName req \<and> accountName = None then logon_failed req STATUS_INSUFFICIENT_RESOURCES p cs
      else
        let (authority, p) = (if lr_authority req then CreateUnicodeStringOnLsaHeap alloc AUTH_AUTHORITY_W p else (None, p)) in
        if lr_authority req \<and> authority = None
        then logon_failed req STATUS_INSUFFICIENT_RESOURCES (FreeHeap (lr_accountName req \<and> accountName \<noteq> None) p) cs
        else \<lparr>lo_status = STATUS_SUCCESS, lo_subStatus = (if lr_subStatus req then Some STATUS_SUCCESS else None),
              lo_accountName = accountName, lo_authority = authority, lo_nulled = lr_others req, lo_package = p, lo_crypto = cs\<rparr>)"

definition LogonUserEx2 ::
  "'w reg_api \<Rightarrow> cng_api \<Rightarrow> (string \<Rightarrow> wstring option) \<Rightarrow> alloc_oracle \<Rightarrow> logon_request \<Rightarrow> bytes option \<Rightarrow>
   'w reg_state \<Rightarrow> crypto_state \<Rightarrow> LsaPackage \<Rightarrow> logon_result option" where
  "LogonUserEx2 api cng lookup_sid alloc req submit reg cs p =
     (case logon_message submit of
        Inl status \<Rightarrow> Some (logon_failed req status p cs)
      | Inr (pBuf, msg) \<Rightarrow> do {
          dev \<leftarrow> logon_device api reg (lb_DeviceId pBuf);
          case dev of
            Inl status \<Rightarrow> Some (logon_failed req status p cs)
          | Inr deviceRecord \<Rightarrow> do {
              (sigValid, cs) \<leftarrow> VerifyCanonicalSignedMessage cng (dr_publicKey deviceRecord) msg (lb_Signature pBuf) cs;
              Some (if \<not> sigValid then logon_failed req STATUS_LOGON_FAILURE p cs
                else logon_outputs alloc req (target_user_name lookup_sid deviceRecord) p cs)
            }
        })"

section \<open>The lookup of the package\<close>

record lsa_client_api =
  la_secur32 :: bool
  la_procs :: bool
  la_connect :: "u32 \<times> nat"
  la_lookup :: "nat \<Rightarrow> string \<Rightarrow> u32 \<times> u32"

definition GetAuthenticationPackageId :: "lsa_client_api \<Rightarrow> string \<Rightarrow> u32 \<times> u32" where
  "GetAuthenticationPackageId la packageName =
     (if \<not> la_secur32 la then (STATUS_UNSUCCESSFUL, 0)
      else if \<not> la_procs la then (STATUS_NOT_SUPPORTED, 0)
      else
        let (status, hLsa) = la_connect la in
        if status \<noteq> STATUS_SUCCESS \<or> hLsa = 0 then (status, 0)
        else
          let (status, packageId) = la_lookup la hLsa packageName
          in (status, if status = STATUS_SUCCESS then packageId else 0))"

definition IsPackageRegistered :: "lsa_client_api \<Rightarrow> string \<Rightarrow> bool" where
  "IsPackageRegistered la packageName =
     (let (status, packageId) = GetAuthenticationPackageId la packageName in status = STATUS_SUCCESS \<and> packageId \<noteq> 0)"

section \<open>The buffer as a codec\<close>

definition lsa_buffer_wf :: "LSA_LOGON_BUFFER \<Rightarrow> bool" where
  "lsa_buffer_wf b \<longleftrightarrow> length (lb_DeviceId b) = 16 \<and> length (lb_CanonicalMessage b) = 88 \<and> length (lb_Signature b) = 64"

definition lsa_buffer_read :: "bytes \<Rightarrow> LSA_LOGON_BUFFER option" where
  "lsa_buffer_read bs = (if length bs < LSA_LOGON_BUFFER_SIZE then None else Some (lsa_buffer_of_image bs))"

lemma lsa_buffer_image_of_image:
  assumes "180 \<le> length bs"
  shows "lsa_buffer_image (lsa_buffer_of_image bs) = take 180 bs"
proof -
  have w: "to_le 4 (from_le (take 4 (drop k bs)) :: u32) = take 4 (drop k bs)" if "k \<le> 24" for k
    using assms that by (intro to_le_from_le) simp_all
  have "take 180 bs = take 4 bs @ take 4 (drop 4 bs) @ take 16 (drop 8 bs) @ take 4 (drop 24 bs) @ take 88 (drop 28 bs) @ take 64 (drop 116 bs)"
    using take_drop_plus [of 88 28 bs 64] take_drop_plus [of 4 24 bs 152] take_drop_plus [of 16 8 bs 156]
      take_drop_plus [of 4 4 bs 172] take_drop_plus [of 4 0 bs 176] by simp
  then show ?thesis
    using w [of 0] w [of 4] w [of 24] by (simp add: lsa_buffer_image_def lsa_buffer_of_image_def)
qed

interpretation lsa_codec: stream_codec lsa_buffer_image lsa_buffer_read lsa_buffer_wf LSA_LOGON_BUFFER_SIZE
proof
  show "lsa_buffer_wf a \<Longrightarrow> length (lsa_buffer_image a) = LSA_LOGON_BUFFER_SIZE" for a
    by (simp add: lsa_buffer_wf_def lsa_buffer_image_def LSA_LOGON_BUFFER_SIZE_def)
  show "lsa_buffer_wf a \<Longrightarrow> lsa_buffer_read (lsa_buffer_image a) = Some a" for a
    by (simp add: lsa_buffer_read_def lsa_buffer_wf_def lsa_buffer_image_def lsa_buffer_of_image_def LSA_LOGON_BUFFER_SIZE_def from_le_to_le)
  show "lsa_buffer_read bs = Some a \<Longrightarrow> lsa_buffer_wf a \<and> take LSA_LOGON_BUFFER_SIZE bs = lsa_buffer_image a" for bs a
    using lsa_buffer_image_of_image [of bs]
    by (auto simp: lsa_buffer_read_def LSA_LOGON_BUFFER_SIZE_def lsa_buffer_wf_def lsa_buffer_of_image_def split: if_splits)
  show "LSA_LOGON_BUFFER_SIZE \<le> length bs \<Longrightarrow> lsa_buffer_read bs = lsa_buffer_read (take LSA_LOGON_BUFFER_SIZE bs)" for bs
    by (simp add: lsa_buffer_read_def lsa_buffer_of_image_def LSA_LOGON_BUFFER_SIZE_def drop_take min_def)
qed

text \<open>The buffer that carries a signed message.\<close>

definition logon_buffer :: "SignedMessage \<Rightarrow> bytes \<Rightarrow> LSA_LOGON_BUFFER" where
  "logon_buffer m sig = \<lparr>lb_Magic = LSA_SUBMIT_BUFFER_MAGIC, lb_Version = LSA_SUBMIT_BUFFER_VERSION,
     lb_DeviceId = sm_DeviceIdentity m, lb_Reserved = 0, lb_CanonicalMessage = SerializeSignedMessage m, lb_Signature = sig\<rparr>"

definition logon_message_ok :: "SignedMessage \<Rightarrow> bytes \<Rightarrow> bool" where
  "logon_message_ok m sig \<longleftrightarrow> signed_message_ok m \<and> sm_Operation m = opcode MT_AUTH_RESPONSE \<and> length sig = LSA_SIGNATURE_SIZE"

lemma logon_buffer_wf: "logon_message_ok m sig \<Longrightarrow> lsa_buffer_wf (logon_buffer m sig)"
  by (simp add: logon_message_ok_def signed_message_ok_def logon_buffer_def lsa_buffer_wf_def length_SerializeSignedMessage
      signed_message_wf_def CANONICAL_SIGNED_MESSAGE_SIZE_def LSA_SIGNATURE_SIZE_def)

lemma logon_message_Inr:
  "logon_message submit = Inr (b, m) \<longleftrightarrow>
     (\<exists>sig r. b = logon_buffer m sig \<and> logon_message_ok m sig \<and> submit = Some (lsa_buffer_image b @ r))"
proof
  assume a: "logon_message submit = Inr (b, m)"
  then obtain bs where bs: "submit = Some bs" "lsa_buffer_read bs = Some b"
    and f: "lb_Magic b = LSA_SUBMIT_BUFFER_MAGIC" "lb_Version b = LSA_SUBMIT_BUFFER_VERSION" "lb_Reserved b = 0"
      "DeserializeSignedMessage (Some (lb_CanonicalMessage b)) = Some m" "sm_DeviceIdentity m = lb_DeviceId b"
      "sm_Operation m = opcode MT_AUTH_RESPONSE"
    by (auto simp: logon_message_def lsa_buffer_read_def Let_def split: option.splits if_splits)
  from bs(2) obtain r where r: "lsa_buffer_wf b" "bs = lsa_buffer_image b @ r"
    by (auto simp: lsa_codec.dec_Some_iff)
  have m: "signed_message_ok m" "lb_CanonicalMessage b = SerializeSignedMessage m"
    using f(4) by (simp_all add: DeserializeSignedMessage_iff)
  have "b = logon_buffer m (lb_Signature b)"
    using f m by (cases b) (simp add: logon_buffer_def)
  moreover have "logon_message_ok m (lb_Signature b)"
    using m f r(1) by (simp add: logon_message_ok_def lsa_buffer_wf_def LSA_SIGNATURE_SIZE_def)
  ultimately show "\<exists>sig r. b = logon_buffer m sig \<and> logon_message_ok m sig \<and> submit = Some (lsa_buffer_image b @ r)"
    using bs r by blast
next
  assume "\<exists>sig r. b = logon_buffer m sig \<and> logon_message_ok m sig \<and> submit = Some (lsa_buffer_image b @ r)"
  then obtain sig r where a: "b = logon_buffer m sig" "logon_message_ok m sig" "submit = Some (lsa_buffer_image b @ r)" by blast
  have "lsa_buffer_read (lsa_buffer_image b @ r) = Some b"
    using a logon_buffer_wf by (simp add: lsa_codec.dec_append)
  then have "\<not> length (lsa_buffer_image b @ r) < LSA_LOGON_BUFFER_SIZE" "lsa_buffer_of_image (lsa_buffer_image b @ r) = b"
    by (auto simp: lsa_buffer_read_def split: if_splits)
  moreover have "DeserializeSignedMessage (Some (SerializeSignedMessage m)) = Some m"
    using a(2) by (simp add: DeserializeSignedMessage_iff logon_message_ok_def)
  moreover have "sm_ProtocolVersion m = 0x0100" "sm_Operation m = opcode MT_AUTH_RESPONSE"
    using a(2) by (simp_all add: logon_message_ok_def signed_message_ok_def)
  ultimately show "logon_message submit = Inr (b, m)"
    using a(1,3) by (simp add: logon_message_def logon_buffer_def)
qed

lemma DeviceIdToString_not_Nil: "DeviceIdToString d \<noteq> []"
  by (simp add: DeviceIdToString_def)

lemma logon_device_Inr:
  "logon_device api reg d = Some (Inr rec) \<longleftrightarrow>
     ReadDeviceRecord api reg (DeviceIdToString d) DeviceRecord_init = Some (ERROR_SUCCESS, rec) \<and>
     dr_pairStatus rec = kStatusActive \<and> dr_publicKey rec \<noteq> []"
  by (auto simp: logon_device_def DeviceIdToString_not_Nil Let_def split: bind_splits if_splits)

lemma logon_failed_status [simp]: "lo_status (logon_failed req st p cs) = st"
  by (simp add: logon_failed_def)

lemma logon_message_Inl: "logon_message submit = Inl st \<Longrightarrow> st \<noteq> STATUS_SUCCESS"
  by (auto simp: logon_message_def status_consts Let_def split: option.splits if_splits)

lemma logon_device_Inl: "logon_device api reg d = Some (Inl st) \<Longrightarrow> st \<noteq> STATUS_SUCCESS"
  by (auto simp: logon_device_def status_consts DeviceIdToString_not_Nil Let_def split: bind_splits if_splits)

section \<open>The decision\<close>

text \<open>What a device's record must hold for a message to be accepted.\<close>

definition device_vouches :: "'w reg_api \<Rightarrow> cng_api \<Rightarrow> 'w reg_state \<Rightarrow> crypto_state \<Rightarrow> SignedMessage \<Rightarrow> bytes \<Rightarrow> DeviceRecord \<Rightarrow> crypto_state \<Rightarrow> bool" where
  "device_vouches api cng reg cs m sig rec cs' \<longleftrightarrow>
     ReadDeviceRecord api reg (DeviceIdToString (sm_DeviceIdentity m)) DeviceRecord_init = Some (ERROR_SUCCESS, rec) \<and>
     dr_pairStatus rec = kStatusActive \<and> dr_publicKey rec \<noteq> [] \<and>
     VerifyCanonicalSignedMessage cng (dr_publicKey rec) m sig cs = Some (True, cs')"

lemma LogonUserEx2_eq:
  assumes "logon_message_ok m sig" "device_vouches api cng reg cs m sig rec cs'"
  shows "LogonUserEx2 api cng lookup_sid alloc req (Some (lsa_buffer_image (logon_buffer m sig) @ r)) reg cs p =
    Some (logon_outputs alloc req (target_user_name lookup_sid rec) p cs')"
proof -
  have "logon_message (Some (lsa_buffer_image (logon_buffer m sig) @ r)) = Inr (logon_buffer m sig, m)"
    using assms(1) by (auto simp: logon_message_Inr)
  moreover have "logon_device api reg (sm_DeviceIdentity m) = Some (Inr rec)"
    using assms(2) by (simp add: logon_device_Inr device_vouches_def)
  ultimately show ?thesis
    using assms(2) by (simp add: LogonUserEx2_def logon_buffer_def device_vouches_def)
qed

lemma LogonUserEx2_success:
  assumes "LogonUserEx2 api cng lookup_sid alloc req submit reg cs p = Some res" "lo_status res = STATUS_SUCCESS"
  shows "\<exists>m sig r rec cs'. submit = Some (lsa_buffer_image (logon_buffer m sig) @ r) \<and> logon_message_ok m sig \<and>
    device_vouches api cng reg cs m sig rec cs' \<and> res = logon_outputs alloc req (target_user_name lookup_sid rec) p cs'"
proof -
  from assms obtain b m where bm: "logon_message submit = Inr (b, m)"
    by (cases "logon_message submit") (auto simp: LogonUserEx2_def dest: logon_message_Inl)
  then obtain sig r where s: "b = logon_buffer m sig" "logon_message_ok m sig" "submit = Some (lsa_buffer_image b @ r)"
    by (auto simp: logon_message_Inr)
  from assms bm obtain rec where rec: "logon_device api reg (lb_DeviceId b) = Some (Inr rec)"
    by (auto simp: LogonUserEx2_def split: bind_splits sum.splits dest: logon_device_Inl)
  from assms bm rec obtain cs' where v: "VerifyCanonicalSignedMessage cng (dr_publicKey rec) m (lb_Signature b) cs = Some (True, cs')"
    and res: "res = logon_outputs alloc req (target_user_name lookup_sid rec) p cs'"
    by (auto simp: LogonUserEx2_def status_consts split: bind_splits if_splits)
  have "device_vouches api cng reg cs m sig rec cs'"
    using rec v s(1) by (simp add: device_vouches_def logon_device_Inr logon_buffer_def)
  then show ?thesis using s res by blast
qed

text \<open>C6: a logon succeeds exactly when the submitted buffer begins with the logon buffer of a well-formed signed
  message for the operation AUTH\_RESPONSE whose device is registered and active and whose registered key verifies the
  signature, and the strings for the LSA can be allocated. Nothing else of the message is looked at.\<close>

theorem lsa_logon_exact:
  "(\<exists>res. LogonUserEx2 api cng lookup_sid alloc req submit reg cs p = Some res \<and> lo_status res = STATUS_SUCCESS) \<longleftrightarrow>
   (\<exists>m sig r rec cs'. submit = Some (lsa_buffer_image (logon_buffer m sig) @ r) \<and> logon_message_ok m sig \<and>
      device_vouches api cng reg cs m sig rec cs' \<and>
      lo_status (logon_outputs alloc req (target_user_name lookup_sid rec) p cs') = STATUS_SUCCESS)"
  using LogonUserEx2_success LogonUserEx2_eq by metis

section \<open>The heap\<close>

lemma CreateUnicodeStringOnLsaHeap_live:
  "CreateUnicodeStringOnLsaHeap alloc str p = (res, p') \<Longrightarrow> lp_live p' = lp_live p + (if res = None then 0 else 1)"
  by (auto simp: CreateUnicodeStringOnLsaHeap_def AllocateHeap_def Let_def split: if_splits)

lemma logon_outputs_live:
  "lp_live (lo_package (logon_outputs alloc req n p cs)) = lp_live p +
     (if lo_accountName (logon_outputs alloc req n p cs) = None then 0 else 1) +
     (if lo_authority (logon_outputs alloc req n p cs) = None then 0 else 1)"
proof -
  obtain a p1 where a: "CreateUnicodeStringOnLsaHeap alloc n p = (a, p1)" by (metis surj_pair)
  obtain b p2 where b: "CreateUnicodeStringOnLsaHeap alloc AUTH_AUTHORITY_W p1 = (b, p2)" by (metis surj_pair)
  obtain c p3 where c: "CreateUnicodeStringOnLsaHeap alloc AUTH_AUTHORITY_W p = (c, p3)" by (metis surj_pair)
  show ?thesis
    using a b c CreateUnicodeStringOnLsaHeap_live [OF a] CreateUnicodeStringOnLsaHeap_live [OF b] CreateUnicodeStringOnLsaHeap_live [OF c]
    by (cases "lr_accountName req"; cases "lr_authority req") (auto simp: logon_outputs_def logon_failed_def FreeHeap_def)
qed

text \<open>After a logon call exactly the strings it hands to the LSA are left on the heap, whichever allocation fails.\<close>

theorem lsa_heap_balanced:
  assumes "LogonUserEx2 api cng lookup_sid alloc req submit reg cs p = Some res"
  shows "lp_live (lo_package res) = lp_live p + (if lo_accountName res = None then 0 else 1) + (if lo_authority res = None then 0 else 1)"
proof -
  have "lo_package (logon_failed req st p cs) = p \<and> lo_accountName (logon_failed req st p cs) = None \<and>
      lo_authority (logon_failed req st p cs) = None" for st cs
    by (simp add: logon_failed_def)
  then show ?thesis
    using assms logon_outputs_live [of alloc req _ p]
    by (auto simp: LogonUserEx2_def split: bind_splits sum.splits if_splits)
qed

section \<open>Replay\<close>

lemma ensure_init_initialized: "ensure_init cng st = (True, st1) \<Longrightarrow> s_initialized st1"
  by (auto simp: ensure_init_def Initialize_def Let_def split: if_splits prod.splits)

lemma ensure_init_ready [simp]: "s_initialized st \<Longrightarrow> ensure_init cng st = (True, st)"
  by (simp add: ensure_init_def)

lemma DestroyKey_handles [simp]:
  "s_initialized (DestroyKey h st) = s_initialized st" "s_hEcdsaAlg (DestroyKey h st) = s_hEcdsaAlg st"
  "s_hSha256Alg (DestroyKey h st) = s_hSha256Alg st"
  by (simp_all add: DestroyKey_def)

text \<open>With the providers open a verification depends on their handles only, and keeps them.\<close>

lemma VerifySignature_ready:
  assumes "s_initialized st"
  shows "VerifySignature cng h d sig st = (fst (VerifySignature cng h d sig st), st)"
    and "s_initialized st' \<Longrightarrow> s_hSha256Alg st' = s_hSha256Alg st \<Longrightarrow>
      fst (VerifySignature cng h d sig st') = fst (VerifySignature cng h d sig st)"
  using assms by (auto simp: VerifySignature_def ComputeSha256_def case_prod_unfold Let_def split: option.split)

lemma verify_ready:
  assumes "s_initialized st"
  shows "VerifyCanonicalSignedMessage cng k m sig st =
    (case NormalizePublicKeyToEccBlob k of
       Oob \<Rightarrow> None
     | Reject \<Rightarrow> Some (False, st)
     | Accept blob \<Rightarrow>
         let (status, h) = bc_import cng (s_hEcdsaAlg st) blob; st1 = st\<lparr>cs_live_keys := cs_live_keys st + 1\<rparr> in
         if \<not> BCRYPT_SUCCESS status then Some (False, st)
         else Some (length (SerializeSignedMessage m) = CANONICAL_SIGNED_MESSAGE_SIZE \<and>
                fst (VerifySignature cng h (SerializeSignedMessage m) sig st), DestroyKey h st1))"
proof -
  have "VerifySignature cng h d sig (st\<lparr>cs_live_keys := n\<rparr>) = (fst (VerifySignature cng h d sig st), st\<lparr>cs_live_keys := n\<rparr>)" for h d n
    using VerifySignature_ready(1) [of "st\<lparr>cs_live_keys := n\<rparr>" cng h d sig]
      VerifySignature_ready(2) [of st "st\<lparr>cs_live_keys := n\<rparr>" cng h d sig] assms by simp
  then show ?thesis
    using assms by (auto simp: VerifyCanonicalSignedMessage_def ImportPublicKey_def Let_def split: der.split prod.split)
qed

lemma verify_repeat:
  assumes "VerifyCanonicalSignedMessage cng k m sig st = Some (True, st')"
  shows "\<exists>st''. VerifyCanonicalSignedMessage cng k m sig st' = Some (True, st'')"
proof -
  obtain ok st1 where i: "ensure_init cng st = (ok, st1)" by (metis surj_pair)
  with assms have ok by (cases ok) (auto simp: VerifyCanonicalSignedMessage_def ImportPublicKey_def)
  with i have st1: "s_initialized st1" by (auto intro: ensure_init_initialized)
  have "VerifyCanonicalSignedMessage cng k m sig st1 = Some (True, st')"
    using assms i \<open>ok\<close> st1 by (simp add: VerifyCanonicalSignedMessage_def ImportPublicKey_def)
  then obtain blob h n where v: "NormalizePublicKeyToEccBlob k = Accept blob"
      "bc_import cng (s_hEcdsaAlg st1) blob = (n, h)" "BCRYPT_SUCCESS n"
      "length (SerializeSignedMessage m) = CANONICAL_SIGNED_MESSAGE_SIZE" "fst (VerifySignature cng h (SerializeSignedMessage m) sig st1)"
      "st' = DestroyKey h (st1\<lparr>cs_live_keys := cs_live_keys st1 + 1\<rparr>)"
    by (auto simp: verify_ready [OF st1] Let_def split: der.splits prod.splits if_splits)
  then have st': "s_initialized st'" "s_hEcdsaAlg st' = s_hEcdsaAlg st1" "s_hSha256Alg st' = s_hSha256Alg st1"
    using st1 by simp_all
  show ?thesis
    using v(1-5) st'(2) VerifySignature_ready(2) [OF st1 st'(1,3)] by (simp add: verify_ready [OF st'(1)])
qed

text \<open>The package keeps no memory of the messages it has accepted: a buffer that led to a logon leads to a logon
  again, as long as the strings can be allocated, although the challenge in it was answered once. The call never
  looks at the session, the nonce or the time of the message.\<close>

theorem lsa_accepts_replay:
  assumes "LogonUserEx2 api cng lookup_sid alloc req submit reg cs p = Some res" "lo_status res = STATUS_SUCCESS"
  shows "\<exists>res'. LogonUserEx2 api cng lookup_sid alloc req submit reg (lo_crypto res) p = Some res' \<and>
    lo_status res' = STATUS_SUCCESS"
proof -
  obtain m sig r rec cs' where a: "submit = Some (lsa_buffer_image (logon_buffer m sig) @ r)" "logon_message_ok m sig"
    "device_vouches api cng reg cs m sig rec cs'" "res = logon_outputs alloc req (target_user_name lookup_sid rec) p cs'"
    using LogonUserEx2_success [OF assms] by blast
  have out: "lo_crypto (logon_outputs alloc req n p c) = c" "lo_status (logon_outputs alloc req n p c) = lo_status (logon_outputs alloc req n p c')" for n c c'
    by (simp_all add: logon_outputs_def logon_failed_def case_prod_unfold Let_def)
  then have "\<exists>cs''. device_vouches api cng reg (lo_crypto res) m sig rec cs''"
    using a(3,4) verify_repeat [of cng "dr_publicKey rec" m sig cs cs'] by (auto simp: device_vouches_def out(1))
  then obtain cs'' where "device_vouches api cng reg (lo_crypto res) m sig rec cs''" by blast
  from LogonUserEx2_eq [OF a(2) this] a(1,4) assms(2) out(2) show ?thesis
    by (metis option.inject)
qed

section \<open>A logon on the simulated registry\<close>

definition demo_submit :: bytes where
  "demo_submit = lsa_buffer_image (logon_buffer (demo_msg MT_AUTH_RESPONSE 1) (replicate 64 7))"

definition demo_logon_request :: logon_request where
  "demo_logon_request = \<lparr>lr_subStatus = True, lr_accountName = True, lr_authority = True,
     lr_others = [OutProfileBuffer, OutTokenInformationType, OutTokenInformation]\<rparr>"

abbreviation demo_logon :: "alloc_oracle \<Rightarrow> logon_result option" where
  "demo_logon alloc \<equiv> LogonUserEx2 sim_api demo_cng (\<lambda>_. Some (wide ''alice'')) alloc demo_logon_request (Some demo_submit)
     demo_reg crypto_state_init LsaPackage_new"

lemma demo_logon_vouched:
  obtains cs' where "logon_message_ok (demo_msg MT_AUTH_RESPONSE 1) (replicate 64 7)"
    "device_vouches sim_api demo_cng demo_reg crypto_state_init (demo_msg MT_AUTH_RESPONSE 1) (replicate 64 7) demo_record cs'"
proof -
  have m: "logon_message_ok (demo_msg MT_AUTH_RESPONSE 1) (replicate 64 7)"
    by (simp add: logon_message_ok_def signed_message_ok_def signed_message_wf_def demo_msg_def SignedMessage_init_def demo_record_def
        sample_record_def LSA_SIGNATURE_SIZE_def del: opcode.simps)
  then obtain cs' where "VerifyCanonicalSignedMessage demo_cng (replicate 64 3) (demo_msg MT_AUTH_RESPONSE 1) (replicate 64 7) crypto_state_init = Some (True, cs')"
    using demo_verify by (metis logon_message_ok_def signed_message_ok_def)
  then have "device_vouches sim_api demo_cng demo_reg crypto_state_init (demo_msg MT_AUTH_RESPONSE 1) (replicate 64 7) demo_record cs'"
    using demo_read by (simp add: device_vouches_def demo_dev_def demo_msg_def demo_record_def sample_record_def)
  with m that show thesis by blast
qed

lemma demo_logon_eq:
  obtains cs' where "demo_logon alloc = Some (logon_outputs alloc demo_logon_request (wide ''alice'') LsaPackage_new cs')"
proof -
  obtain cs' where v: "logon_message_ok (demo_msg MT_AUTH_RESPONSE 1) (replicate 64 7)"
    "device_vouches sim_api demo_cng demo_reg crypto_state_init (demo_msg MT_AUTH_RESPONSE 1) (replicate 64 7) demo_record cs'"
    by (rule demo_logon_vouched)
  have "target_user_name (\<lambda>_. Some (wide ''alice'')) demo_record = wide ''alice''"
    by (simp add: target_user_name_def demo_record_def sample_record_def wide_def)
  with LogonUserEx2_eq [OF v, of "\<lambda>_. Some (wide ''alice'')" alloc demo_logon_request "[]" LsaPackage_new] that show thesis
    by (simp add: demo_submit_def)
qed

lemmas outputs_defs = logon_outputs_def CreateUnicodeStringOnLsaHeap_def AllocateHeap_def demo_logon_request_def LsaPackage_new_def
  logon_failed_def FreeHeap_def wide_def AUTH_AUTHORITY_W_def

text \<open>The second allocation fails: the logon is refused and nothing stays on the heap.\<close>

theorem lsa_heap_balanced_witness:
  "\<exists>res. demo_logon (\<lambda>_ n _. n = 0) = Some res \<and> lo_status res = STATUS_INSUFFICIENT_RESOURCES \<and> lp_live (lo_package res) = 0"
proof -
  obtain cs' where e: "demo_logon (\<lambda>_ n _. n = 0) = Some (logon_outputs (\<lambda>_ n _. n = 0) demo_logon_request (wide ''alice'') LsaPackage_new cs')"
    by (rule demo_logon_eq)
  have "lo_status (logon_outputs (\<lambda>_ n _. n = 0) demo_logon_request (wide ''alice'') LsaPackage_new cs') = STATUS_INSUFFICIENT_RESOURCES"
    "lo_accountName (logon_outputs (\<lambda>_ n _. n = 0) demo_logon_request (wide ''alice'') LsaPackage_new cs') = None"
    "lo_authority (logon_outputs (\<lambda>_ n _. n = 0) demo_logon_request (wide ''alice'') LsaPackage_new cs') = None"
    by (simp_all add: outputs_defs)
  with e lsa_heap_balanced [OF e] show ?thesis by (simp add: LsaPackage_new_def)
qed

theorem lsa_accepts_replay_witness:
  "\<exists>res res'. demo_logon (\<lambda>_ _ _. True) = Some res \<and> lo_status res = STATUS_SUCCESS \<and>
     LogonUserEx2 sim_api demo_cng (\<lambda>_. Some (wide ''alice'')) (\<lambda>_ _ _. True) demo_logon_request (Some demo_submit) demo_reg
       (lo_crypto res) LsaPackage_new = Some res' \<and> lo_status res' = STATUS_SUCCESS"
proof -
  obtain cs' where e: "demo_logon (\<lambda>_ _ _. True) = Some (logon_outputs (\<lambda>_ _ _. True) demo_logon_request (wide ''alice'') LsaPackage_new cs')"
    by (rule demo_logon_eq)
  have "lo_status (logon_outputs (\<lambda>_ _ _. True) demo_logon_request (wide ''alice'') LsaPackage_new cs') = STATUS_SUCCESS"
    by (simp add: outputs_defs)
  with e lsa_accepts_replay [OF e this] show ?thesis by blast
qed

end
