(* ===== verification/Config.thy ===== *)
theory Config
  imports Registry
begin

text \<open>
  \<^verbatim>\<open>windows/configuration/ConfigurationManager.h/.cpp\<close>: the settings, their validation, and loading and saving them in the
  registry. Loading reads three values through one \<^verbatim>\<open>DWORD\<close> whose size variable is not reset between the queries; when a
  query then writes more than four bytes, the outcome is \<open>None\<close>. \<open>needed\<close> is the size that a query
  reports for a value that does not fit.
\<close>

section \<open>Settings\<close>

definition DEFAULT_WIFI_PORT :: u16 where "DEFAULT_WIFI_PORT = 8443"
definition DEFAULT_MDNS_PORT :: u16 where "DEFAULT_MDNS_PORT = 8444"
definition REG_KEY_SETTINGS :: wstring where
  "REG_KEY_SETTINGS = wide (''SOFTWARE'' @ [CHR 0x5C] @ ''MobileFingerprintUnlock'' @ [CHR 0x5C] @ ''Settings'')"
definition SECURE_IPC_PIPE_NAME :: wstring where
  "SECURE_IPC_PIPE_NAME = wide ([CHR 0x5C, CHR 0x5C] @ ''.'' @ [CHR 0x5C] @ ''pipe'' @ [CHR 0x5C] @ ''MobileUnlockSecureIPC'')"

record AppConfig =
  WifiPort :: u16
  MdnsPort :: u16
  RequireFingerprintForLock :: bool
  EnableBleDiscovery :: bool
  EnableInternetRelay :: bool
  RateLimitMaxAttempts :: u32
  RateLimitWindowSeconds :: u32
  RateLimitBlockSeconds :: u32
  ChallengeTtlSeconds :: u32
  ServicePipeName :: wstring

definition AppConfig_default :: AppConfig where
  "AppConfig_default = \<lparr>WifiPort = DEFAULT_WIFI_PORT, MdnsPort = DEFAULT_MDNS_PORT, RequireFingerprintForLock = False,
     EnableBleDiscovery = True, EnableInternetRelay = False, RateLimitMaxAttempts = 5, RateLimitWindowSeconds = 60,
     RateLimitBlockSeconds = 900, ChallengeTtlSeconds = 30, ServicePipeName = SECURE_IPC_PIPE_NAME\<rparr>"

definition ValidateConfiguration :: "AppConfig \<Rightarrow> bool" where
  "ValidateConfiguration config =
     (if WifiPort config = 0 \<or> MdnsPort config = 0 then False
      else if RateLimitMaxAttempts config = 0 \<or> RateLimitWindowSeconds config = 0 then False
      else if ChallengeTtlSeconds config = 0 \<or> ChallengeTtlSeconds config > 300 then False
      else if ServicePipeName config = [] then False
      else True)"

section \<open>Loading and saving\<close>

text \<open>One query: whether it succeeded, and the variable and its size afterwards.\<close>

definition load_dword ::
  "'w reg_api \<Rightarrow> (wstring \<Rightarrow> nat) \<Rightarrow> 'w \<Rightarrow> wstring \<Rightarrow> bytes \<Rightarrow> nat \<Rightarrow> (bool \<times> bytes \<times> nat) option" where
  "load_dword api needed w name dwData cbData =
     (let (err, data) = RegQueryValueExW api w (HKEY_LOCAL_MACHINE, REG_KEY_SETTINGS) name cbData in
      if err = ERROR_SUCCESS
      then (if length data > 4 then None else Some (True, data @ drop (length data) dwData, length data))
      else Some (False, dwData, if err = ERROR_MORE_DATA then needed name else cbData))"

definition LoadConfiguration ::
  "'w reg_api \<Rightarrow> (wstring \<Rightarrow> nat) \<Rightarrow> 'w \<Rightarrow> AppConfig \<Rightarrow> (bool \<times> AppConfig) option" where
  "LoadConfiguration api needed w config =
     (if RegOpenKeyExW api w HKEY_LOCAL_MACHINE REG_KEY_SETTINGS KEY_READ \<noteq> ERROR_SUCCESS
      then Some (True, AppConfig_default)
      else do {
        (ok, dwData, cbData) \<leftarrow> load_dword api needed w (wide ''WifiPort'') [0, 0, 0, 0] 4;
        let config = (if ok then config\<lparr>WifiPort := ucast (from_le dwData :: u32)\<rparr> else config);
        (ok, dwData, cbData) \<leftarrow> load_dword api needed w (wide ''RequireFingerprintForLock'') dwData cbData;
        let config = (if ok then config\<lparr>RequireFingerprintForLock := (from_le dwData :: u32) \<noteq> 0\<rparr> else config);
        (ok, dwData, cbData) \<leftarrow> load_dword api needed w (wide ''EnableBleDiscovery'') dwData cbData;
        let config = (if ok then config\<lparr>EnableBleDiscovery := (from_le dwData :: u32) \<noteq> 0\<rparr> else config);
        Some (ValidateConfiguration config, config)
      })"

definition ConfigurationManager_new :: "'w reg_api \<Rightarrow> (wstring \<Rightarrow> nat) \<Rightarrow> 'w \<Rightarrow> AppConfig option" where
  "ConfigurationManager_new api needed w = map_option snd (LoadConfiguration api needed w AppConfig_default)"

definition save_dword :: "'w reg_api \<Rightarrow> wstring \<Rightarrow> u32 \<Rightarrow> 'w \<Rightarrow> 'w" where
  "save_dword api name v w = snd (RegSetValueExW api w (HKEY_LOCAL_MACHINE, REG_KEY_SETTINGS) name REG_DWORD (to_le 4 v))"

definition SaveConfiguration :: "'w reg_api \<Rightarrow> AppConfig \<Rightarrow> 'w \<Rightarrow> AppConfig \<Rightarrow> bool \<times> 'w \<times> AppConfig" where
  "SaveConfiguration api config w m_config =
     (if \<not> ValidateConfiguration config then (False, w, m_config)
      else
        let (status, w) = RegCreateKeyExW api w HKEY_LOCAL_MACHINE REG_KEY_SETTINGS KEY_WRITE in
        if status \<noteq> ERROR_SUCCESS then (False, w, m_config)
        else
          let w = save_dword api (wide ''WifiPort'') (ucast (WifiPort config)) w;
              w = save_dword api (wide ''RequireFingerprintForLock'') (if RequireFingerprintForLock config then 1 else 0) w;
              w = save_dword api (wide ''EnableBleDiscovery'') (if EnableBleDiscovery config then 1 else 0) w
          in (True, w, config))"

section \<open>Properties\<close>

lemma default_valid: "ValidateConfiguration AppConfig_default"
  by (simp add: ValidateConfiguration_def AppConfig_default_def DEFAULT_WIFI_PORT_def DEFAULT_MDNS_PORT_def
      SECURE_IPC_PIPE_NAME_def wide_def)

text \<open>Whatever the registry holds, a successful load leaves a valid configuration.\<close>

lemma load_valid:
  assumes "LoadConfiguration api needed w config = Some (True, config')"
  shows "ValidateConfiguration config'"
  using assms default_valid by (auto simp: LoadConfiguration_def Let_def split: if_splits bind_splits)

abbreviation settings_key :: key where
  "settings_key \<equiv> (HKEY_LOCAL_MACHINE, REG_KEY_SETTINGS)"

lemma save_dword_view:
  assumes "reg_laws api kf view" "reg_available api kf view" "view w (HKEY_LOCAL_MACHINE, kf REG_KEY_SETTINGS) = Some m"
  shows "view (save_dword api n v w) (HKEY_LOCAL_MACHINE, kf REG_KEY_SETTINGS) = Some (m(kf n := Some (REG_DWORD, to_le 4 v)))"
proof -
  obtain err w' where s: "RegSetValueExW api w settings_key n REG_DWORD (to_le 4 v) = (err, w')" by (metis surj_pair)
  have "err = ERROR_SUCCESS"
    using assms(2,3) s unfolding reg_available_def by (metis fst_conv option.distinct(1))
  then show ?thesis
    using assms(1,3) s by (auto simp: reg_laws_def law_set_def save_dword_def)
qed

lemma load_dword_stored:
  assumes "reg_laws api kf view" "view w (HKEY_LOCAL_MACHINE, kf REG_KEY_SETTINGS) = Some m" "m (kf n) = Some (t, to_le 4 (v :: u32))"
  shows "load_dword api needed w n dw 4 = Some (True, to_le 4 v @ drop 4 dw, 4)"
proof -
  have "case m (kf n) of None \<Rightarrow> fst (RegQueryValueExW api w settings_key n 4) = ERROR_FILE_NOT_FOUND
     | Some (t, d) \<Rightarrow> if length d \<le> 4 then RegQueryValueExW api w settings_key n 4 = (ERROR_SUCCESS, d)
        else fst (RegQueryValueExW api w settings_key n 4) = ERROR_MORE_DATA"
    using assms(1,2) unfolding reg_laws_def law_query_def by blast
  with assms(3) show ?thesis by (simp add: load_dword_def)
qed

lemma names_distinct:
  assumes "reg_laws api kf view"
  shows "kf (wide ''WifiPort'') \<noteq> kf (wide ''RequireFingerprintForLock'')" "kf (wide ''WifiPort'') \<noteq> kf (wide ''EnableBleDiscovery'')"
    "kf (wide ''RequireFingerprintForLock'') \<noteq> kf (wide ''EnableBleDiscovery'')"
proof -
  have kf: "kf (wide a) = kf (wide b) \<Longrightarrow> length a = length b" if "ascii (wide a)" "ascii (wide b)" for a b
    using assms that by (metis folds_ascii_def length_map length_wide reg_laws_def)
  have "ascii (wide ''WifiPort'')" "ascii (wide ''RequireFingerprintForLock'')" "ascii (wide ''EnableBleDiscovery'')"
    by (simp_all add: ascii_def wide_def widen_def byte_of_char_def)
  from kf [OF this(1,2)] kf [OF this(1,3)] kf [OF this(2,3)]
  show "kf (wide ''WifiPort'') \<noteq> kf (wide ''RequireFingerprintForLock'')" "kf (wide ''WifiPort'') \<noteq> kf (wide ''EnableBleDiscovery'')"
    "kf (wide ''RequireFingerprintForLock'') \<noteq> kf (wide ''EnableBleDiscovery'')" by auto
qed

text \<open>The three stored settings are loaded as they were saved; the others are those of the loading process.\<close>

lemma config_roundtrip:
  assumes laws: "reg_laws api kf view" "reg_available api kf view"
    and saved: "SaveConfiguration api config w old = (True, w', config)"
  shows "LoadConfiguration api needed w' base =
    (let c = base\<lparr>WifiPort := WifiPort config, RequireFingerprintForLock := RequireFingerprintForLock config,
         EnableBleDiscovery := EnableBleDiscovery config\<rparr> in Some (ValidateConfiguration c, c))"
proof -
  let ?k = "(HKEY_LOCAL_MACHINE, kf REG_KEY_SETTINGS)"
  from saved obtain w1 where c: "RegCreateKeyExW api w HKEY_LOCAL_MACHINE REG_KEY_SETTINGS KEY_WRITE = (ERROR_SUCCESS, w1)"
    and w': "w' = save_dword api (wide ''EnableBleDiscovery'') (if EnableBleDiscovery config then 1 else 0)
        (save_dword api (wide ''RequireFingerprintForLock'') (if RequireFingerprintForLock config then 1 else 0)
          (save_dword api (wide ''WifiPort'') (ucast (WifiPort config)) w1))"
    by (auto simp: SaveConfiguration_def Let_def split: if_splits prod.splits)
  from laws(1) have "law_create api kf view" by (simp add: reg_laws_def)
  with c obtain m where m: "view w1 ?k = Some m"
    unfolding law_create_def by blast
  note v = save_dword_view [OF laws]
  define m' where "m' = m(kf (wide ''WifiPort'') \<mapsto> (REG_DWORD, to_le 4 (ucast (WifiPort config) :: u32)),
      kf (wide ''RequireFingerprintForLock'') \<mapsto> (REG_DWORD, to_le 4 (if RequireFingerprintForLock config then 1 else 0 :: u32)),
      kf (wide ''EnableBleDiscovery'') \<mapsto> (REG_DWORD, to_le 4 (if EnableBleDiscovery config then 1 else 0 :: u32)))"
  have view: "view w' ?k = Some m'"
    unfolding w' m'_def by (intro v m)
  then have opened: "RegOpenKeyExW api w' HKEY_LOCAL_MACHINE REG_KEY_SETTINGS KEY_READ = ERROR_SUCCESS"
    using laws(2) by (auto simp: reg_available_def)
  have l: "load_dword api needed w' (wide ''WifiPort'') dw 4 = Some (True, to_le 4 (ucast (WifiPort config) :: u32) @ drop 4 dw, 4)"
    "load_dword api needed w' (wide ''RequireFingerprintForLock'') dw 4 =
       Some (True, to_le 4 (if RequireFingerprintForLock config then 1 else 0 :: u32) @ drop 4 dw, 4)"
    "load_dword api needed w' (wide ''EnableBleDiscovery'') dw 4 =
       Some (True, to_le 4 (if EnableBleDiscovery config then 1 else 0 :: u32) @ drop 4 dw, 4)" for dw
    using names_distinct [OF laws(1)] by (intro load_dword_stored [OF laws(1) view]; simp add: m'_def)+
  have "(from_le (to_le 4 v) :: u32) = v" for v :: u32
    by (simp add: from_le_to_le)
  moreover have "take_bit 32 (WifiPort config) = WifiPort config"
    by (rule bit_word_eqI) (simp add: bit_take_bit_iff)
  ultimately show ?thesis
    by (simp add: LoadConfiguration_def opened l Let_def unsigned_ucast_eq)
qed

text \<open>
  The size is not reset: after a value of eight bytes that did not fit, the next value of eight bytes is written over
  the four-byte variable.
\<close>

definition wide_settings :: sim_world where
  "wide_settings = [((HKEY_LOCAL_MACHINE, sim_fold REG_KEY_SETTINGS),
     [sim_fold (wide ''WifiPort'') \<mapsto> (REG_QWORD, replicate 8 1), sim_fold (wide ''RequireFingerprintForLock'') \<mapsto> (REG_QWORD, replicate 8 1)])]"

lemma config_load_overflow: "LoadConfiguration sim_api (\<lambda>_. 8) wide_settings AppConfig_default = None"
  by code_simp

end
