(* ===== verification/Ipc.thy ===== *)
theory Ipc
  imports Prelude
begin

text \<open>
  \<^verbatim>\<open>windows/ipc/SecureIPC.h/.cpp\<close>: both ends of the named pipe. Handles are numbers, an invalid handle is \<open>None\<close>; the
  results of the pipe calls are inputs. The server's thread is modelled by its steps: opening an instance, one poll of the
  connected pipe, and closing the instance. The client's two waiting loops run over the sequence of what the
  system answers, and have no result (\<open>None\<close>) while that sequence does not end the wait.
\<close>

section \<open>Server\<close>

record NamedPipeServer =
  ps_pipeName :: wstring
  ps_hPipe :: "nat option"
  ps_isRunning :: bool
  ps_isConnected :: bool
  ps_handler :: bool
  ps_hWorkerThread :: "nat option"

definition NamedPipeServer_new :: "wstring \<Rightarrow> NamedPipeServer" where
  "NamedPipeServer_new pipeName = \<lparr>ps_pipeName = pipeName, ps_hPipe = None, ps_isRunning = False, ps_isConnected = False,
     ps_handler = False, ps_hWorkerThread = None\<rparr>"

definition pipe_sddl :: wstring where
  "pipe_sddl = wide ''D:P(A;;GA;;;SY)(A;;GA;;;BA)(A;;GA;;;NS)(A;;GA;;;IU)(A;;GA;;;AU)''"

text \<open>The attributes hold the descriptor; without memory for them the descriptor is released again.\<close>

definition CreatePipeSecurityAttributes :: "(wstring \<Rightarrow> nat option) \<Rightarrow> bool \<Rightarrow> nat option \<times> nat list" where
  "CreatePipeSecurityAttributes convert alloc =
     (case convert pipe_sddl of
        None \<Rightarrow> (None, [])
      | Some pSd \<Rightarrow> if \<not> alloc then (None, [pSd]) else (Some pSd, []))"

text \<open>The descriptors that are released with the attributes.\<close>

definition FreePipeSecurityAttributes :: "nat option \<Rightarrow> nat list" where
  "FreePipeSecurityAttributes pSa = (case pSa of None \<Rightarrow> [] | Some pSd \<Rightarrow> [pSd])"

definition Ipc_Start :: "bool \<Rightarrow> nat option \<Rightarrow> NamedPipeServer \<Rightarrow> bool \<times> NamedPipeServer" where
  "Ipc_Start handler thread s =
     (if ps_isRunning s then (False, s)
      else (thread \<noteq> None, s\<lparr>ps_handler := handler, ps_isRunning := True, ps_hWorkerThread := thread\<rparr>))"

definition Ipc_Stop :: "NamedPipeServer \<Rightarrow> NamedPipeServer" where
  "Ipc_Stop s = s\<lparr>ps_isRunning := False, ps_isConnected := False, ps_hPipe := None, ps_hWorkerThread := None\<rparr>"

text \<open>The head of the worker's loop: the created instance, if any, and whether a client connected to it.\<close>

definition server_close :: "NamedPipeServer \<Rightarrow> NamedPipeServer" where
  "server_close s = s\<lparr>ps_hPipe := None, ps_isConnected := False\<rparr>"

definition server_open :: "nat option \<Rightarrow> bool \<Rightarrow> NamedPipeServer \<Rightarrow> NamedPipeServer" where
  "server_open pipe connected s =
     (if \<not> ps_isRunning s then s
      else case pipe of
        None \<Rightarrow> s\<lparr>ps_hPipe := None\<rparr>
      | Some h \<Rightarrow> if connected then s\<lparr>ps_hPipe := Some h, ps_isConnected := True\<rparr> else server_close s)"

text \<open>One iteration on a connected pipe; the message for the handler, if one was read.\<close>

definition server_poll :: "nat option \<Rightarrow> (nat \<Rightarrow> bytes option) \<Rightarrow> NamedPipeServer \<Rightarrow> bytes option \<times> NamedPipeServer" where
  "server_poll peek readFile s =
     (if \<not> (ps_isRunning s \<and> ps_isConnected s) then (None, server_close s)
      else case peek of
        None \<Rightarrow> (None, server_close s)
      | Some bytesAvail \<Rightarrow>
          if bytesAvail = 0 then (None, s)
          else (case readFile 4096 of
              Some message \<Rightarrow>
                if message \<noteq> [] then ((if ps_handler s then Some message else None), s)
                else (None, s\<lparr>ps_isConnected := False\<rparr>)
            | None \<Rightarrow> (None, s\<lparr>ps_isConnected := False\<rparr>)))"

text \<open>A write: the bytes put on the pipe, if any, and whether all were written.\<close>

definition SendMessageToClient :: "(bytes \<Rightarrow> nat option) \<Rightarrow> bytes \<Rightarrow> NamedPipeServer \<Rightarrow> bool \<times> bytes option" where
  "SendMessageToClient writeFile message s =
     (if \<not> ps_isConnected s \<or> ps_hPipe s = None \<or> message = [] then (False, None)
      else (writeFile message = Some (length message), Some message))"

section \<open>Client\<close>

record NamedPipeClient =
  pc_pipeName :: wstring
  pc_hPipe :: "nat option"

definition NamedPipeClient_new :: "wstring \<Rightarrow> NamedPipeClient" where
  "NamedPipeClient_new pipeName = \<lparr>pc_pipeName = pipeName, pc_hPipe = None\<rparr>"

definition Client_IsConnected :: "NamedPipeClient \<Rightarrow> bool" where
  "Client_IsConnected c \<longleftrightarrow> pc_hPipe c \<noteq> None"

text \<open>Each attempt: the tick count at the test of the loop and the handle that opening the pipe gives.\<close>

fun connect_loop :: "u32 \<Rightarrow> u32 \<Rightarrow> (u32 \<times> nat option) list \<Rightarrow> nat option option" where
  "connect_loop startTime timeoutMs [] = None"
| "connect_loop startTime timeoutMs ((now, h) # rest) =
     (if now - startTime < timeoutMs
      then (case h of Some k \<Rightarrow> Some (Some k) | None \<Rightarrow> connect_loop startTime timeoutMs rest)
      else Some None)"

definition Client_Connect :: "u32 \<Rightarrow> u32 \<Rightarrow> (u32 \<times> nat option) list \<Rightarrow> bool \<Rightarrow> NamedPipeClient \<Rightarrow> (bool \<times> NamedPipeClient) option" where
  "Client_Connect timeoutMs startTime tries setMode c =
     (if pc_hPipe c \<noteq> None then Some (True, c)
      else map_option (\<lambda>h. case h of
          None \<Rightarrow> (False, c)
        | Some k \<Rightarrow> if \<not> setMode then (False, c\<lparr>pc_hPipe := None\<rparr>) else (True, c\<lparr>pc_hPipe := Some k\<rparr>))
        (connect_loop startTime timeoutMs tries))"

definition Disconnect :: "NamedPipeClient \<Rightarrow> NamedPipeClient" where
  "Disconnect c = c\<lparr>pc_hPipe := None\<rparr>"

definition SendMessageToServer :: "(bytes \<Rightarrow> nat option) \<Rightarrow> bytes \<Rightarrow> NamedPipeClient \<Rightarrow> bool \<times> bytes option" where
  "SendMessageToServer writeFile message c =
     (if pc_hPipe c = None \<or> message = [] then (False, None)
      else (writeFile message = Some (length message), Some message))"

text \<open>Each turn of the waiting loop: what peeking answers and the tick count.\<close>

fun read_wait :: "u32 \<Rightarrow> u32 \<Rightarrow> (nat option \<times> u32) list \<Rightarrow> nat option option" where
  "read_wait startTime timeoutMs [] = None"
| "read_wait startTime timeoutMs ((peek, now) # rest) =
     (case peek of
        Some n \<Rightarrow> if n > 0 then Some (Some n) else if now - startTime \<ge> timeoutMs then Some None else read_wait startTime timeoutMs rest
      | None \<Rightarrow> if now - startTime \<ge> timeoutMs then Some None else read_wait startTime timeoutMs rest)"

text \<open>The outer option: the wait ended; the inner: \<^verbatim>\<open>ReadResult\<close>, \<open>None\<close> when not valid.\<close>

definition ReadMessageFromServer ::
  "u32 \<Rightarrow> u32 \<Rightarrow> (nat option \<times> u32) list \<Rightarrow> (nat \<Rightarrow> bytes option) \<Rightarrow> NamedPipeClient \<Rightarrow> bytes option option" where
  "ReadMessageFromServer timeoutMs startTime polls readFile c =
     (if pc_hPipe c = None then Some None
      else map_option (\<lambda>avail. case avail of
          None \<Rightarrow> None
        | Some n \<Rightarrow> (case readFile n of Some buffer \<Rightarrow> if buffer \<noteq> [] then Some buffer else None | None \<Rightarrow> None))
        (read_wait startTime timeoutMs polls))"

section \<open>Properties\<close>

text \<open>Both waits end once a tick count reaches the time limit, whatever the pipe does.\<close>

lemma connect_returns:
  "\<exists>t\<in>fst ` set tries. \<not> t - startTime < timeoutMs \<Longrightarrow> connect_loop startTime timeoutMs tries \<noteq> None"
  by (induction tries rule: connect_loop.induct) (auto split: option.splits)

lemma read_wait_returns:
  "\<exists>t\<in>snd ` set polls. timeoutMs \<le> t - startTime \<Longrightarrow> read_wait startTime timeoutMs polls \<noteq> None"
  by (induction polls rule: read_wait.induct) (auto split: option.splits)

text \<open>Each turn of the worker's loop releases the descriptor it had converted, once.\<close>

lemma descriptor_released:
  "snd (CreatePipeSecurityAttributes convert alloc) @ FreePipeSecurityAttributes (fst (CreatePipeSecurityAttributes convert alloc)) =
     (case convert pipe_sddl of None \<Rightarrow> [] | Some pSd \<Rightarrow> [pSd])"
  by (simp add: CreatePipeSecurityAttributes_def FreePipeSecurityAttributes_def split: option.split)

text \<open>A server that is connected has a pipe, in every state its operations reach.\<close>

definition ipc_inv :: "NamedPipeServer \<Rightarrow> bool" where
  "ipc_inv s \<longleftrightarrow> (ps_isConnected s \<longrightarrow> ps_isRunning s \<and> ps_hPipe s \<noteq> None)"

datatype ipc_op = IStart bool "nat option" | IStop | IOpen "nat option" bool | IPoll "nat option" "nat \<Rightarrow> bytes option"

fun ipc_exec :: "ipc_op \<Rightarrow> NamedPipeServer \<Rightarrow> NamedPipeServer" where
  "ipc_exec (IStart h t) s = snd (Ipc_Start h t s)"
| "ipc_exec IStop s = Ipc_Stop s"
| "ipc_exec (IOpen p c) s = server_open p c s"
| "ipc_exec (IPoll p r) s = snd (server_poll p r s)"

text \<open>The worker opens an instance only when the last one is closed.\<close>

definition ipc_step :: "NamedPipeServer \<Rightarrow> ipc_op \<Rightarrow> NamedPipeServer \<Rightarrow> bool" where
  "ipc_step s op s' \<longleftrightarrow> ipc_exec op s = s' \<and> (case op of IOpen _ _ \<Rightarrow> \<not> ps_isConnected s | _ \<Rightarrow> True)"

interpretation ipc_machine: invariant_machine ipc_step ipc_inv
proof
  show "ipc_inv s \<Longrightarrow> ipc_step s op s' \<Longrightarrow> ipc_inv s'" for s op s'
    by (cases op) (auto simp: ipc_step_def ipc_inv_def Ipc_Start_def Ipc_Stop_def server_open_def server_poll_def server_close_def
        split: if_splits option.splits)
qed

lemma ipc_reachable: "run ipc_step (NamedPipeServer_new n) ops s \<Longrightarrow> ipc_inv s"
  by (erule ipc_machine.run_inv) (simp add: ipc_inv_def NamedPipeServer_new_def)

end
