(* ===== verification/Mdns.thy ===== *)
theory Mdns
  imports Protocol
begin

text \<open>
  \<^verbatim>\<open>windows/network/MdnsResponder.h/.cpp\<close>: the discovery responder. The announcement's text form and its parser, and the
  responder with one iteration of its listener loop. The enumeration value of a parsed state may be any number, so it is kept as the
  underlying integer. Winsock's answers are inputs.
\<close>

section \<open>Announcements\<close>

definition MDNS_SERVICE_TYPE :: string where "MDNS_SERVICE_TYPE = ''_mobileunlock._tcp.local.''"

record DiscoveryAnnouncement =
  da_HostName :: string
  da_Port :: u16
  da_State :: u32
  da_ServiceType :: string

definition BuildDiscoveryResponsePayload :: "DiscoveryAnnouncement \<Rightarrow> bytes" where
  "BuildDiscoveryResponsePayload ann =
     bytes_of_string (''{\"host\":\"'' @ da_HostName ann @ ''\",'' @ ''\"port\":'' @ print_u (unat (da_Port ann)) @ '','' @
       ''\"state\":'' @ print_u (unat (da_State ann)) @ '','' @ ''\"service\":\"'' @ da_ServiceType ann @ ''\"}'')"

definition extractString :: "string \<Rightarrow> string \<Rightarrow> string" where
  "extractString str key =
     (let pattern = ''\"'' @ key @ ''\":\"'' in
      case str_find pattern str of
        None \<Rightarrow> []
      | Some pos \<Rightarrow>
          let rest = drop (pos + length pattern) str
          in if CHR 0x22 \<in> set rest then takeWhile (\<lambda>c. c \<noteq> CHR 0x22) rest else [])"

text \<open>\<^verbatim>\<open>std::stoi\<close>: \<open>None\<close> is the exception for no digits or a value outside the 32-bit range.\<close>

definition is_digit :: "char \<Rightarrow> bool" where
  "is_digit c \<longleftrightarrow> 48 \<le> (of_char c :: nat) \<and> (of_char c :: nat) \<le> 57"

definition digits_value :: "string \<Rightarrow> int" where
  "digits_value s = foldl (\<lambda>v c. 10 * v + (int (of_char c) - 48)) 0 s"

definition stoi :: "string \<Rightarrow> int option" where
  "stoi s =
     (let t = dropWhile is_space s;
          neg = (case t of c # _ \<Rightarrow> c = CHR ''-'' | [] \<Rightarrow> False);
          u = (case t of c # r \<Rightarrow> if c = CHR ''-'' \<or> c = CHR ''+'' then r else t | [] \<Rightarrow> t);
          ds = takeWhile is_digit u;
          v = (if neg then - digits_value ds else digits_value ds)
      in if ds = [] \<or> v < - (2 ^ 31) \<or> v \<ge> 2 ^ 31 then None else Some v)"

definition extractInt :: "string \<Rightarrow> string \<Rightarrow> int" where
  "extractInt str key =
     (let pattern = ''\"'' @ key @ ''\":'' in
      case str_find pattern str of
        None \<Rightarrow> -1
      | Some pos \<Rightarrow>
          let rest = drop (pos + length pattern) str
          in if CHR '','' \<in> set rest \<or> CHR ''}'' \<in> set rest
             then (case stoi (takeWhile (\<lambda>c. c \<noteq> CHR '','' \<and> c \<noteq> CHR ''}'') rest) of None \<Rightarrow> -1 | Some v \<Rightarrow> v)
             else -1)"

definition ParseDiscoveryResponsePayload :: "bytes option \<Rightarrow> DiscoveryAnnouncement option" where
  "ParseDiscoveryResponsePayload data =
     (case data of
        None \<Rightarrow> None
      | Some bs \<Rightarrow>
          if bs = [] \<or> length bs > unat MAX_PAYLOAD_SIZE then None
          else
            let str = string_of_bytes bs;
                host = extractString str ''host'';
                service = extractString str ''service'';
                port = extractInt str ''port'';
                state = extractInt str ''state''
            in if host = [] \<or> port \<le> 0 \<or> port > 65535 \<or> service = [] \<or> state < 0 then None
               else Some \<lparr>da_HostName = host, da_Port = of_int port, da_State = of_int state, da_ServiceType = service\<rparr>)"

section \<open>The responder\<close>

record MdnsResponder =
  md_udpPort :: u16
  md_tcpPort :: u16
  md_udpSocket :: "nat option"
  md_isRunning :: bool
  md_state :: PcState
  md_hostName :: string
  md_hListenerThread :: "nat option"

definition MdnsResponder_new :: "u16 \<Rightarrow> u16 \<Rightarrow> string option \<Rightarrow> MdnsResponder" where
  "MdnsResponder_new udpPort tcpServicePort computerName = \<lparr>md_udpPort = udpPort, md_tcpPort = tcpServicePort, md_udpSocket = None,
     md_isRunning = False, md_state = PC_ONLINE, md_hostName = (case computerName of None \<Rightarrow> ''Windows-PC'' | Some n \<Rightarrow> n),
     md_hListenerThread = None\<rparr>"

definition Mdns_SetState :: "PcState \<Rightarrow> MdnsResponder \<Rightarrow> MdnsResponder" where
  "Mdns_SetState state r = r\<lparr>md_state := state\<rparr>"

text \<open>The socket, the result of binding it, and the thread; the closed sockets are part of the result.\<close>

definition Mdns_Start :: "nat option \<Rightarrow> bool \<Rightarrow> nat option \<Rightarrow> PcState \<Rightarrow> MdnsResponder \<Rightarrow> bool \<times> nat list \<times> MdnsResponder" where
  "Mdns_Start sock bound thread initialState r =
     (if md_isRunning r then (False, [], r)
      else
        let r = r\<lparr>md_state := initialState, md_udpSocket := sock\<rparr> in
        case sock of
          None \<Rightarrow> (False, [], r)
        | Some s \<Rightarrow>
            if \<not> bound then (False, [s], r\<lparr>md_udpSocket := None\<rparr>)
            else (thread \<noteq> None, [], r\<lparr>md_isRunning := True, md_hListenerThread := thread\<rparr>))"

definition Mdns_Stop :: "MdnsResponder \<Rightarrow> nat list \<times> MdnsResponder" where
  "Mdns_Stop r =
     (if \<not> md_isRunning r then ([], r)
      else ((case md_udpSocket r of None \<Rightarrow> [] | Some s \<Rightarrow> [s]),
            r\<lparr>md_isRunning := False, md_udpSocket := None, md_hListenerThread := None\<rparr>))"

definition is_valid_query :: "bytes \<Rightarrow> bool" where
  "is_valid_query buffer =
     (if length buffer \<ge> FRAME_HEADER_SIZE
      then (case DeserializeFrameHeader (Some buffer) of None \<Rightarrow> False | Some h \<Rightarrow> fh_MessageType h = opcode MT_DISCOVER)
      else str_find ''_mobileunlock._tcp'' (string_of_bytes buffer) \<noteq> None \<or> str_find ''DISCOVER'' (string_of_bytes buffer) \<noteq> None)"

definition announcement :: "MdnsResponder \<Rightarrow> DiscoveryAnnouncement" where
  "announcement r = \<lparr>da_HostName = md_hostName r, da_Port = md_tcpPort r, da_State = pc_state_code (md_state r),
     da_ServiceType = MDNS_SERVICE_TYPE\<rparr>"

definition discovery_response :: "MdnsResponder \<Rightarrow> bytes" where
  "discovery_response r =
     (let payload = BuildDiscoveryResponsePayload (announcement r);
          respHeader = FrameHeader_init\<lparr>fh_Magic := PROTOCOL_MAGIC, fh_MajorVersion := PROTOCOL_MAJOR_VERSION,
            fh_MinorVersion := PROTOCOL_MINOR_VERSION, fh_MessageType := opcode MT_DISCOVERY_RESPONSE, fh_MessageID := 1,
            fh_PayloadLength := of_nat (length payload), fh_SequenceNumber := 1\<rparr>
      in SerializeFrameHeader respHeader @ payload)"

text \<open>One iteration of the listener: the datagram received, if any, and the answer sent to its sender.\<close>

definition listener_iter :: "bytes option \<Rightarrow> MdnsResponder \<Rightarrow> bytes option" where
  "listener_iter datagram r =
     (if \<not> md_isRunning r then None
      else case datagram of
        None \<Rightarrow> None
      | Some buffer \<Rightarrow> if is_valid_query buffer then Some (discovery_response r) else None)"

section \<open>Finding a key\<close>

lemma takeWhile_until: "q \<notin> set v \<Longrightarrow> takeWhile (\<lambda>c. c \<noteq> q) (v @ q # r) = v"
  by (induction v) auto

lemma find_skip: "pat \<noteq> [] \<Longrightarrow> hd pat \<notin> set p \<Longrightarrow> find_at pat (p @ s) i = find_at pat s (i + length p)"
  by (induction p arbitrary: i) (auto simp: neq_Nil_conv)

lemma find_here: "pat \<noteq> [] \<Longrightarrow> find_at pat (pat @ s) i = Some i"
  by (cases pat) auto

lemma set_print_u: "set (print_u n) \<subseteq> {c. is_digit c}"
proof (induction n rule: print_u.induct)
  case (1 n)
  have d: "is_digit (char_of (48 + k))" if "k < 10" for k :: nat
    using that by (simp add: is_digit_def)
  show ?case
    using 1 d by (subst print_u.simps) (auto dest!: subsetD)
qed

lemma print_u_not: "\<not> is_digit c \<Longrightarrow> c \<notin> set (print_u n)"
  using set_print_u by auto

lemma print_u_not_Nil [simp]: "print_u n \<noteq> []"
  by (subst print_u.simps) simp

lemma digits_value_snoc: "digits_value (s @ [c]) = 10 * digits_value s + (int (of_char c) - 48)"
  by (simp add: digits_value_def)

lemma stoi_digits_print_u: "digits_value (print_u n) = int n"
proof (induction n rule: print_u.induct)
  case (1 n)
  show ?case
  proof (cases "n < 10")
    case True
    then show ?thesis by (subst print_u.simps) (simp add: digits_value_def)
  next
    case False
    then have "digits_value (print_u n) = 10 * digits_value (print_u (n div 10)) + int (n mod 10)"
      by (subst print_u.simps) (simp add: digits_value_snoc)
    moreover have "int n = 10 * int (n div 10) + int (n mod 10)"
      using mult_div_mod_eq [of 10 n] by (metis of_nat_add of_nat_mult of_nat_numeral)
    ultimately show ?thesis using 1 False by simp
  qed
qed

lemma stoi_print_u:
  assumes "n < 2 ^ 31"
  shows "stoi (print_u n) = Some (int n)"
proof -
  obtain c r where cr: "print_u n = c # r" using print_u_not_Nil by (metis list.exhaust)
  have all: "\<forall>d\<in>set (print_u n). is_digit d" using set_print_u by auto
  then have c: "is_digit c" by (simp add: cr)
  then have "\<not> is_space c" "c \<noteq> CHR ''-''" "c \<noteq> CHR ''+''"
    by (auto simp: is_digit_def is_space_def Let_def)
  then have "dropWhile is_space (print_u n) = print_u n" by (simp add: cr)
  moreover have "takeWhile is_digit (print_u n) = print_u n" using all by simp
  ultimately show ?thesis
    using \<open>c \<noteq> CHR ''-''\<close> \<open>c \<noteq> CHR ''+''\<close> assms stoi_digits_print_u [of n] cr
    by (simp add: stoi_def)
qed

section \<open>Round trip\<close>

definition announceable :: "DiscoveryAnnouncement \<Rightarrow> bool" where
  "announceable ann \<longleftrightarrow> da_HostName ann \<noteq> [] \<and> CHR 0x22 \<notin> set (da_HostName ann) \<and> da_Port ann \<noteq> 0 \<and>
     unat (da_State ann) < 2 ^ 31 \<and> da_ServiceType ann \<noteq> [] \<and> CHR 0x22 \<notin> set (da_ServiceType ann) \<and>
     length (BuildDiscoveryResponsePayload ann) \<le> unat MAX_PAYLOAD_SIZE"

text \<open>A key that starts with a quote is found behind text without quotes.\<close>

lemma extractString_at:
  assumes "str = a @ ''\"'' @ key @ ''\":\"'' @ v @ ''\"'' @ r" "str_find (''\"'' @ key @ ''\":\"'') str = Some (length a)" "CHR 0x22 \<notin> set v"
  shows "extractString str key = v"
proof -
  have "str = (a @ ''\"'' @ key @ ''\":\"'') @ v @ ''\"'' @ r"
    using assms(1) by simp
  then have "drop (length a + length (''\"'' @ key @ ''\":\"'')) str = v @ ''\"'' @ r"
    by (metis append_eq_conv_conj length_append)
  then show ?thesis
    using assms(2,3) by (simp add: extractString_def Let_def takeWhile_until)
qed

lemma extractInt_at:
  assumes "str = a @ ''\"'' @ key @ ''\":'' @ print_u n @ '','' @ r" "str_find (''\"'' @ key @ ''\":'') str = Some (length a)" "n < 2 ^ 31"
  shows "extractInt str key = int n"
proof -
  have "str = (a @ ''\"'' @ key @ ''\":'') @ print_u n @ '','' @ r"
    using assms(1) by simp
  then have d: "drop (length a + length (''\"'' @ key @ ''\":'')) str = print_u n @ '','' @ r"
    by (metis append_eq_conv_conj length_append)
  have "\<not> is_digit (CHR '','')" "\<not> is_digit (CHR ''}'')"
    by (simp_all add: is_digit_def)
  then have "takeWhile (\<lambda>c. c \<noteq> CHR '','' \<and> c \<noteq> CHR ''}'') (print_u n @ '','' @ r) = print_u n"
    using print_u_not by (subst takeWhile_append2) auto
  then show ?thesis
    using d assms(2,3) stoi_print_u by (simp add: extractInt_def Let_def)
qed

text \<open>The search passes a quoted text that is another key, or a value.\<close>

lemma find_quoted:
  fixes e :: string
  assumes "CHR 0x22 \<notin> set h" "CHR 0x22 \<notin> set key" "key \<noteq> []" "hd key \<noteq> x" "h \<noteq> key \<or> x \<noteq> CHR '':''"
  defines "pat \<equiv> CHR 0x22 # key @ CHR 0x22 # CHR '':'' # e"
  shows "find_at pat (CHR 0x22 # h @ CHR 0x22 # x # s) i = find_at pat (x # s) (i + length h + 2)"
proof -
  have 1: "take (length pat) (CHR 0x22 # h @ CHR 0x22 # x # s) \<noteq> pat"
  proof
    assume "take (length pat) (CHR 0x22 # h @ CHR 0x22 # x # s) = pat"
    then have eq: "h @ CHR 0x22 # x # s = key @ CHR 0x22 # CHR '':'' # e @ drop (length pat) (CHR 0x22 # h @ CHR 0x22 # x # s)"
      using append_take_drop_id [of "length pat" "CHR 0x22 # h @ CHR 0x22 # x # s"] by (simp add: pat_def)
    from arg_cong [OF this, of "takeWhile (\<lambda>c. c \<noteq> CHR 0x22)"] assms(1,2) have "h = key"
      by (simp add: takeWhile_until)
    with eq assms(5) show False by simp
  qed
  have 2: "take (length pat) (CHR 0x22 # x # s) \<noteq> pat"
    using assms(3,4) by (cases key) (auto simp: pat_def)
  have "find_at pat (CHR 0x22 # h @ CHR 0x22 # x # s) i = find_at pat (h @ CHR 0x22 # x # s) (Suc i)"
    using 1 by simp
  also have "\<dots> = find_at pat (CHR 0x22 # x # s) (Suc i + length h)"
    using assms(1) by (intro find_skip) (simp_all add: pat_def)
  also have "\<dots> = find_at pat (x # s) (i + length h + 2)"
    using 2 by simp
  finally show ?thesis .
qed

text \<open>The text of an announcement, and where its keys are found.\<close>

definition ann_text :: "string \<Rightarrow> nat \<Rightarrow> nat \<Rightarrow> string \<Rightarrow> string" where
  "ann_text h p q s = ''{\"host\":\"'' @ h @ ''\",'' @ ''\"port\":'' @ print_u p @ '','' @ ''\"state\":'' @ print_u q @ '','' @ ''\"service\":\"'' @ s @ ''\"}''"

lemma ann_text_alt:
  "ann_text h p q s = ''{'' @ CHR 0x22 # ''host'' @ CHR 0x22 # CHR '':'' # CHR 0x22 # h @ CHR 0x22 # CHR '','' #
     CHR 0x22 # ''port'' @ CHR 0x22 # CHR '':'' # print_u p @ '','' @
     CHR 0x22 # ''state'' @ CHR 0x22 # CHR '':'' # print_u q @ '','' @ ''\"service\":\"'' @ s @ ''\"}''"
  by (simp add: ann_text_def)

lemma announcement_keys:
  assumes "CHR 0x22 \<notin> set h"
  shows "str_find ''\"host\":\"'' (ann_text h p q s) = Some 1"
    and "str_find ''\"port\":'' (ann_text h p q s) = Some (length (''{\"host\":\"'' @ h @ ''\",''))"
    and "str_find ''\"state\":'' (ann_text h p q s) = Some (length (''{\"host\":\"'' @ h @ ''\",\"port\":'' @ print_u p @ '',''))"
    and "str_find ''\"service\":\"'' (ann_text h p q s) =
      Some (length (''{\"host\":\"'' @ h @ ''\",\"port\":'' @ print_u p @ '',\"state\":'' @ print_u q @ '',''))"
proof -
  have nq: "CHR 0x22 \<notin> set (print_u n)" for n
    by (rule print_u_not) (simp add: is_digit_def)
  note d = find_skip [of _ "print_u p"] find_skip [of _ "print_u q"]
  show "str_find ''\"host\":\"'' (ann_text h p q s) = Some 1"
    by (simp add: ann_text_def str_find_def)
  note q = find_quoted [where key = "''port''" and e = "[]", simplified] find_quoted [where key = "''state''" and e = "[]", simplified]
    find_quoted [where key = "''service''" and e = "''\"''", simplified]
  show "str_find ''\"port\":'' (ann_text h p q s) = Some (length (''{\"host\":\"'' @ h @ ''\",''))"
    using assms q(1) [of h "CHR '',''"] by (simp add: ann_text_alt str_find_def)
  show "str_find ''\"state\":'' (ann_text h p q s) = Some (length (''{\"host\":\"'' @ h @ ''\",\"port\":'' @ print_u p @ '',''))"
    using assms nq q(2) [of h "CHR '',''"] by (simp add: ann_text_alt str_find_def d)
  show "str_find ''\"service\":\"'' (ann_text h p q s) =
      Some (length (''{\"host\":\"'' @ h @ ''\",\"port\":'' @ print_u p @ '',\"state\":'' @ print_u q @ '',''))"
    using assms nq q(3) [of h "CHR '',''"] by (simp add: ann_text_alt str_find_def d)
qed

lemma Build_ann_text:
  "BuildDiscoveryResponsePayload ann =
     bytes_of_string (ann_text (da_HostName ann) (unat (da_Port ann)) (unat (da_State ann)) (da_ServiceType ann))"
  by (simp add: BuildDiscoveryResponsePayload_def ann_text_def)

lemma parse_built:
  assumes "announceable ann"
  shows "ParseDiscoveryResponsePayload (Some (BuildDiscoveryResponsePayload ann)) = Some ann"
proof -
  let ?h = "da_HostName ann" and ?p = "unat (da_Port ann)" and ?q = "unat (da_State ann)" and ?s = "da_ServiceType ann"
  let ?t = "ann_text ?h ?p ?q ?s"
  note a = assms [unfolded announceable_def]
  have h: "CHR 0x22 \<notin> set ?h" using a by simp
  note k = announcement_keys [OF h, of ?p ?q ?s]
  have "extractString ?t ''host'' = ?h"
    by (rule extractString_at [where a = "''{''"]) (use h k(1) in \<open>simp_all add: ann_text_def\<close>)
  moreover have "extractString ?t ''service'' = ?s"
    by (rule extractString_at [where a = "''{\"host\":\"'' @ ?h @ ''\",\"port\":'' @ print_u ?p @ '',\"state\":'' @ print_u ?q @ '',''" and r = "''}''"])
      (use a k(4) in \<open>simp_all add: ann_text_def\<close>)
  moreover have "?p < 2 ^ 16" using unsigned_less [of "da_Port ann", where 'a = nat] by simp
  then have "extractInt ?t ''port'' = int ?p"
    by (intro extractInt_at [where a = "''{\"host\":\"'' @ ?h @ ''\",''"]) (use k(2) in \<open>simp_all add: ann_text_def\<close>)
  moreover have "extractInt ?t ''state'' = int ?q"
    by (rule extractInt_at [where a = "''{\"host\":\"'' @ ?h @ ''\",\"port\":'' @ print_u ?p @ '',''"]) (use a k(3) in \<open>simp_all add: ann_text_def\<close>)
  moreover have "int ?p > 0" "int ?p \<le> 65535" "bytes_of_string ?t \<noteq> []"
    using a \<open>?p < 2 ^ 16\<close> by (auto simp: unat_gt_0 ann_text_def bytes_of_string_def simp del: of_nat_unat)
  moreover have "(of_int (int ?p) :: u16) = da_Port ann" "(of_int (int ?q) :: u32) = da_State ann"
    by simp_all
  ultimately show ?thesis
    using a by (simp add: ParseDiscoveryResponsePayload_def Build_ann_text Let_def not_le not_less del: of_nat_unat)
qed

text \<open>A running responder answers a datagram exactly when it is a query, and the answer is a frame with the opcode
  DISCOVERY\_RESPONSE and a matching length whose payload a client parses back to host, port, state and service of the
  responder. The host name must fit and have no quotation mark.\<close>

theorem discovery_roundtrip:
  assumes "md_isRunning r" "announceable (announcement r)"
  shows "is_valid_query q \<longleftrightarrow>
    (\<exists>h payload. listener_iter (Some q) r = Some (SerializeFrameHeader h @ payload) \<and> frame_header_ok h \<and>
       fh_MessageType h = opcode MT_DISCOVERY_RESPONSE \<and> unat (fh_PayloadLength h) = length payload \<and>
       ParseDiscoveryResponsePayload (Some payload) = Some (announcement r))"
proof
  assume q: "is_valid_query q"
  let ?payload = "BuildDiscoveryResponsePayload (announcement r)"
  let ?h = "FrameHeader_init\<lparr>fh_Magic := PROTOCOL_MAGIC, fh_MajorVersion := PROTOCOL_MAJOR_VERSION,
            fh_MinorVersion := PROTOCOL_MINOR_VERSION, fh_MessageType := opcode MT_DISCOVERY_RESPONSE, fh_MessageID := 1,
            fh_PayloadLength := of_nat (length ?payload), fh_SequenceNumber := 1\<rparr>"
  have len: "length ?payload \<le> 4096"
    using assms(2) by (simp add: announceable_def MAX_PAYLOAD_SIZE_def)
  then have u: "unat (of_nat (length ?payload) :: u32) = length ?payload"
    by (intro unat_of_nat_less) simp
  then have "frame_header_ok ?h"
    using len by (simp add: frame_header_ok_def MAX_PAYLOAD_SIZE_def word_le_nat_alt del: opcode.simps)
  moreover have "listener_iter (Some q) r = Some (SerializeFrameHeader ?h @ ?payload)"
    using assms(1) q by (simp add: listener_iter_def discovery_response_def Let_def)
  ultimately show "\<exists>h payload. listener_iter (Some q) r = Some (SerializeFrameHeader h @ payload) \<and> frame_header_ok h \<and>
       fh_MessageType h = opcode MT_DISCOVERY_RESPONSE \<and> unat (fh_PayloadLength h) = length payload \<and>
       ParseDiscoveryResponsePayload (Some payload) = Some (announcement r)"
    using parse_built [OF assms(2)] u by (intro exI [of _ ?h] exI [of _ ?payload]) simp
qed (auto simp: listener_iter_def split: if_splits)

definition demo_responder :: MdnsResponder where
  "demo_responder = snd (snd (Mdns_Start (Some 9) True (Some 3) PC_ONLINE (MdnsResponder_new 8444 8443 (Some ''DESKTOP-7''))))"

theorem discovery_roundtrip_witness:
  "md_isRunning demo_responder \<and> announceable (announcement demo_responder) \<and>
   (\<exists>h payload. listener_iter (Some (bytes_of_string ''DISCOVER'')) demo_responder = Some (SerializeFrameHeader h @ payload) \<and>
      frame_header_ok h \<and> fh_MessageType h = opcode MT_DISCOVERY_RESPONSE \<and> unat (fh_PayloadLength h) = length payload \<and>
      ParseDiscoveryResponsePayload (Some payload) = Some (announcement demo_responder))"
proof -
  have r: "md_isRunning demo_responder" "announceable (announcement demo_responder)"
    by (simp_all add: demo_responder_def Mdns_Start_def MdnsResponder_new_def announceable_def announcement_def MDNS_SERVICE_TYPE_def
        BuildDiscoveryResponsePayload_def print_u.simps MAX_PAYLOAD_SIZE_def)
  have "is_valid_query (bytes_of_string ''DISCOVER'')" by code_simp
  with r discovery_roundtrip [OF r] show ?thesis by blast
qed

end
