(* ===== verification/Diagnostics.thy ===== *)
theory Diagnostics
  imports Prelude
begin

text \<open>
  \<^verbatim>\<open>windows/diagnostics/DiagnosticManager.h/.cpp\<close> and \<^verbatim>\<open>windows/logging/SecurityAuditLogger.h/.cpp\<close>: the counters
  and texts of the health report, and the audit log. Steady-clock readings are nanosecond counts and inputs; what the
  logger writes to the console and to the event log is its result.
\<close>

section \<open>Diagnostics\<close>

datatype ComponentStatus = CS_OK | CS_WARNING | CS_ERROR_STATE | CS_UNINITIALIZED

record DiagnosticReport =
  ServiceStatus :: ComponentStatus
  IpcStatus :: ComponentStatus
  SessionAgentStatus :: ComponentStatus
  ActiveConnections :: u64
  TotalMessagesProcessed :: u64
  UpTimeSeconds :: u64
  StatusDetails :: wstring

record DiagnosticManager =
  dm_serviceStatus :: ComponentStatus
  dm_ipcStatus :: ComponentStatus
  dm_sessionAgentStatus :: ComponentStatus
  dm_activeConnections :: u64
  dm_totalMessagesProcessed :: u64
  dm_serviceDetails :: wstring
  dm_ipcDetails :: wstring
  dm_sessionAgentDetails :: wstring
  dm_startTime :: int

definition DiagnosticManager_new :: "int \<Rightarrow> DiagnosticManager" where
  "DiagnosticManager_new now = \<lparr>dm_serviceStatus = CS_UNINITIALIZED, dm_ipcStatus = CS_UNINITIALIZED,
     dm_sessionAgentStatus = CS_UNINITIALIZED, dm_activeConnections = 0, dm_totalMessagesProcessed = 0,
     dm_serviceDetails = [], dm_ipcDetails = [], dm_sessionAgentDetails = [], dm_startTime = now\<rparr>"

definition SetServiceStatus :: "ComponentStatus \<Rightarrow> wstring \<Rightarrow> DiagnosticManager \<Rightarrow> DiagnosticManager" where
  "SetServiceStatus status details d = d\<lparr>dm_serviceStatus := status, dm_serviceDetails := details\<rparr>"

definition SetIpcStatus :: "ComponentStatus \<Rightarrow> wstring \<Rightarrow> DiagnosticManager \<Rightarrow> DiagnosticManager" where
  "SetIpcStatus status details d = d\<lparr>dm_ipcStatus := status, dm_ipcDetails := details\<rparr>"

definition SetSessionAgentStatus :: "ComponentStatus \<Rightarrow> wstring \<Rightarrow> DiagnosticManager \<Rightarrow> DiagnosticManager" where
  "SetSessionAgentStatus status details d = d\<lparr>dm_sessionAgentStatus := status, dm_sessionAgentDetails := details\<rparr>"

definition IncrementProcessedMessages :: "DiagnosticManager \<Rightarrow> DiagnosticManager" where
  "IncrementProcessedMessages d = d\<lparr>dm_totalMessagesProcessed := dm_totalMessagesProcessed d + 1\<rparr>"

definition SetActiveConnections :: "u64 \<Rightarrow> DiagnosticManager \<Rightarrow> DiagnosticManager" where
  "SetActiveConnections count d = d\<lparr>dm_activeConnections := count\<rparr>"

text \<open>\<^verbatim>\<open>duration_cast\<close> truncates towards zero.\<close>

definition whole_seconds :: "int \<Rightarrow> int" where
  "whole_seconds ns = (if ns < 0 then - ((- ns) div 1000000000) else ns div 1000000000)"

definition GenerateReport :: "int \<Rightarrow> DiagnosticManager \<Rightarrow> DiagnosticReport" where
  "GenerateReport now d = \<lparr>ServiceStatus = dm_serviceStatus d, IpcStatus = dm_ipcStatus d,
     SessionAgentStatus = dm_sessionAgentStatus d, ActiveConnections = dm_activeConnections d,
     TotalMessagesProcessed = dm_totalMessagesProcessed d,
     UpTimeSeconds = of_int (whole_seconds (now - dm_startTime d)),
     StatusDetails = wide ''Service: '' @ dm_serviceDetails d @ wide '' | IPC: '' @ dm_ipcDetails d @
       wide '' | Agent: '' @ dm_sessionAgentDetails d\<rparr>"

section \<open>Audit log\<close>

datatype EventId =
    EV_PAIRING_SUCCESS | EV_UNPAIR_SUCCESS | EV_AUTH_SUCCESS | EV_AUTH_FAILURE | EV_AUTH_REPLAY | EV_LOCK_EXECUTED | EV_SERVICE_FAULT

fun event_id :: "EventId \<Rightarrow> u32" where
  "event_id EV_PAIRING_SUCCESS = 1001"
| "event_id EV_UNPAIR_SUCCESS = 1002"
| "event_id EV_AUTH_SUCCESS = 2001"
| "event_id EV_AUTH_FAILURE = 2002"
| "event_id EV_AUTH_REPLAY = 2003"
| "event_id EV_LOCK_EXECUTED = 3001"
| "event_id EV_SERVICE_FAULT = 4001"

datatype LogLevel = LL_Info | LL_Warning | LL_Error

fun event_type :: "LogLevel \<Rightarrow> u16" where
  "event_type LL_Info = 4"
| "event_type LL_Warning = 2"
| "event_type LL_Error = 1"

datatype log_out = LConsole wstring | LReportEvent nat u16 u32 wstring

record SecurityAuditLogger =
  lg_hEventLog :: "nat option"

definition SecurityAuditLogger_new :: "nat option \<Rightarrow> SecurityAuditLogger" where
  "SecurityAuditLogger_new source = \<lparr>lg_hEventLog = source\<rparr>"

definition audit_line :: "EventId \<Rightarrow> wstring \<Rightarrow> wstring \<Rightarrow> wstring" where
  "audit_line eventId message deviceId =
     wide ''[MobileUnlockAudit] EventID: '' @ wide (print_u (unat (event_id eventId))) @ wide '' | Msg: '' @ message @
     (if deviceId \<noteq> [] then wide '' | DeviceID: '' @ deviceId else [])"

definition LogSecurityEvent :: "EventId \<Rightarrow> LogLevel \<Rightarrow> wstring \<Rightarrow> wstring \<Rightarrow> SecurityAuditLogger \<Rightarrow> log_out list" where
  "LogSecurityEvent eventId level message deviceId l =
     (let formattedMsg = audit_line eventId message deviceId in
      LConsole formattedMsg #
      (case lg_hEventLog l of
         None \<Rightarrow> []
       | Some h \<Rightarrow> [LReportEvent h (event_type level) (event_id eventId) formattedMsg]))"

definition LogDiagnostic :: "LogLevel \<Rightarrow> wstring \<Rightarrow> SecurityAuditLogger \<Rightarrow> log_out list" where
  "LogDiagnostic level message l = LogSecurityEvent EV_SERVICE_FAULT level message [] l"

section \<open>Lemmas\<close>

lemma event_id_inj: "event_id a = event_id b \<Longrightarrow> a = b"
  by (cases a; cases b) simp_all

text \<open>The report after any number of messages counts them modulo the counter's width, and leaves the rest alone.\<close>

lemma report_counts_messages:
  "GenerateReport now ((IncrementProcessedMessages ^^ n) d) =
     (GenerateReport now d)\<lparr>TotalMessagesProcessed := dm_totalMessagesProcessed d + of_nat n\<rparr>"
proof -
  have "(IncrementProcessedMessages ^^ n) d = d\<lparr>dm_totalMessagesProcessed := dm_totalMessagesProcessed d + of_nat n\<rparr>"
    by (induction n) (simp_all add: IncrementProcessedMessages_def algebra_simps)
  then show ?thesis
    by (simp add: GenerateReport_def)
qed

text \<open>The up time is the number of whole seconds that have passed, while that fits the field.\<close>

lemma report_uptime:
  assumes "dm_startTime d \<le> now" and "now - dm_startTime d < 1000000000 * 2 ^ 64"
  shows "int (unat (UpTimeSeconds (GenerateReport now d))) = (now - dm_startTime d) div 1000000000"
proof -
  have "0 \<le> (now - dm_startTime d) div 1000000000" "(now - dm_startTime d) div 1000000000 < 2 ^ 64"
    using assms by auto
  then show ?thesis
    using assms by (simp add: GenerateReport_def whole_seconds_def unsigned_of_int take_bit_int_eq_self)
qed

end
