(* ===== verification/Service.thy ===== *)
theory Service
  imports Auth Network Config Ipc Mdns Diagnostics
begin

text \<open>
  \<^verbatim>\<open>windows/service/MobileUnlockService.h/.cpp\<close>: the Windows service that owns the configuration, the pipe server, the network
  engine, the discovery responder and the diagnostics, and dispatches the messages that reach it from the network and from the
  pipe. The process-wide singletons it calls (the authentication manager, the crypto manager, the device registry, the
  audit logger) are fields of its state. Owned pointers are options; using a null one has no result (\<open>None\<close>), as
  have a registry read or a key parse that leaves its buffer. What the code leaves uninitialised is the input
  \<open>ve_garbage\<close>. The handlers run in the threads of the engine and of the pipe server and are taken as atomic steps.
\<close>

section \<open>State\<close>

record SERVICE_STATUS =
  dwServiceType :: u32
  dwCurrentState :: u32
  dwControlsAccepted :: u32
  dwWin32ExitCode :: u32
  dwServiceSpecificExitCode :: u32
  dwCheckPoint :: u32
  dwWaitHint :: u32

definition SERVICE_WIN32_OWN_PROCESS :: u32 where "SERVICE_WIN32_OWN_PROCESS = 0x10"
definition SERVICE_STOPPED :: u32 where "SERVICE_STOPPED = 1"
definition SERVICE_START_PENDING :: u32 where "SERVICE_START_PENDING = 2"
definition SERVICE_STOP_PENDING :: u32 where "SERVICE_STOP_PENDING = 3"
definition SERVICE_RUNNING :: u32 where "SERVICE_RUNNING = 4"
definition SERVICE_CONTROL_STOP :: u32 where "SERVICE_CONTROL_STOP = 1"
definition SERVICE_CONTROL_SHUTDOWN :: u32 where "SERVICE_CONTROL_SHUTDOWN = 5"
definition NO_ERROR :: u32 where "NO_ERROR = 0"
definition ERROR_CALL_NOT_IMPLEMENTED :: u32 where "ERROR_CALL_NOT_IMPLEMENTED = 120"
definition ERROR_FAILED_SERVICE_CONTROLLER_CONNECT :: u32 where "ERROR_FAILED_SERVICE_CONTROLLER_CONNECT = 1063"
definition ERROR_SERVICE_SPECIFIC_ERROR :: u32 where "ERROR_SERVICE_SPECIFIC_ERROR = 1066"

lemmas service_consts [model_defs] =
  SERVICE_WIN32_OWN_PROCESS_def SERVICE_STOPPED_def SERVICE_START_PENDING_def SERVICE_STOP_PENDING_def SERVICE_RUNNING_def
  SERVICE_CONTROL_STOP_def SERVICE_CONTROL_SHUTDOWN_def NO_ERROR_def ERROR_CALL_NOT_IMPLEMENTED_def
  ERROR_FAILED_SERVICE_CONTROLLER_CONNECT_def ERROR_SERVICE_SPECIFIC_ERROR_def

record ('c, 'w) MobileUnlockService =
  sv_statusHandle :: "nat option"
  sv_serviceStatus :: SERVICE_STATUS
  sv_checkPoint :: u32
  sv_currentState :: PcState
  sv_isRunning :: bool
  sv_config :: AppConfig
  sv_diag :: DiagnosticManager
  sv_ipc :: "NamedPipeServer option"
  sv_net :: "'c NetworkEngine option"
  sv_mdns :: "MdnsResponder option"
  sv_pendingLockClientId :: u64
  sv_pendingLockMessageId :: u32
  sv_logger :: SecurityAuditLogger
  sv_auth :: AuthenticationManager
  sv_crypto :: crypto_state
  sv_reg :: "'w reg_state"

datatype svc_out = SNet net_out | SIpc bytes | SLog log_out | SStatus SERVICE_STATUS | SCloseUdp nat | SConsole wstring

type_synonym ('c, 'w) svc_result = "svc_out list \<times> ('c, 'w) MobileUnlockService"

text \<open>What the system and the libraries answer during one handler call.\<close>

record ('c, 'w) svc_env =
  ve_api :: "'w reg_api"
  ve_cng :: cng_api
  ve_sch :: "'c sch_api"
  ve_send :: "nat \<Rightarrow> bytes \<Rightarrow> int"
  ve_writeFile :: "bytes \<Rightarrow> nat option"
  ve_nowMs :: u64
  ve_nowFt :: FILETIME
  ve_garbage :: DeviceId

text \<open>What it answers during a start.\<close>

record svc_start_env =
  vs_needed :: "wstring \<Rightarrow> nat"
  vs_ipc_thread :: "nat option"
  vs_net :: start_env
  vs_computerName :: "string option"
  vs_udp_socket :: "nat option"
  vs_udp_bind :: bool
  vs_udp_thread :: "nat option"

definition SERVICE_STATUS_zero :: SERVICE_STATUS where
  "SERVICE_STATUS_zero = \<lparr>dwServiceType = 0, dwCurrentState = 0, dwControlsAccepted = 0, dwWin32ExitCode = 0,
     dwServiceSpecificExitCode = 0, dwCheckPoint = 0, dwWaitHint = 0\<rparr>"

text \<open>The constructor, after the members it initialises and the singletons it finds.\<close>

definition MobileUnlockService_new ::
  "AppConfig \<Rightarrow> int \<Rightarrow> SecurityAuditLogger \<Rightarrow> AuthenticationManager \<Rightarrow> crypto_state \<Rightarrow> 'w reg_state \<Rightarrow> ('c, 'w) MobileUnlockService" where
  "MobileUnlockService_new config now logger am cs reg = \<lparr>sv_statusHandle = None, sv_serviceStatus = SERVICE_STATUS_zero,
     sv_checkPoint = 1, sv_currentState = PC_OFFLINE, sv_isRunning = False, sv_config = config, sv_diag = DiagnosticManager_new now,
     sv_ipc = None, sv_net = None, sv_mdns = None, sv_pendingLockClientId = 0, sv_pendingLockMessageId = 0,
     sv_logger = logger, sv_auth = am, sv_crypto = cs, sv_reg = reg\<rparr>"

section \<open>Start, stop and the service control manager\<close>

definition svc_log :: "EventId \<Rightarrow> LogLevel \<Rightarrow> string \<Rightarrow> ('c, 'w) MobileUnlockService \<Rightarrow> svc_out list" where
  "svc_log ev level msg s = map SLog (LogSecurityEvent ev level (wide msg) [] (sv_logger s))"

definition Svc_SetState :: "PcState \<Rightarrow> ('c, 'w) MobileUnlockService \<Rightarrow> ('c, 'w) MobileUnlockService" where
  "Svc_SetState state s = s\<lparr>sv_currentState := state, sv_mdns := map_option (Mdns_SetState state) (sv_mdns s)\<rparr>"

definition ReportServiceStatus :: "u32 \<Rightarrow> u32 \<Rightarrow> u32 \<Rightarrow> ('c, 'w) MobileUnlockService \<Rightarrow> ('c, 'w) svc_result" where
  "ReportServiceStatus currentState exitCode waitHint s =
     (let final = (currentState = SERVICE_RUNNING \<or> currentState = SERVICE_STOPPED);
          status = (sv_serviceStatus s)\<lparr>dwServiceType := SERVICE_WIN32_OWN_PROCESS, dwCurrentState := currentState,
            dwControlsAccepted := (if currentState = SERVICE_RUNNING then 1 OR 4 else 0), dwWin32ExitCode := exitCode,
            dwCheckPoint := (if final then 0 else sv_checkPoint s), dwWaitHint := waitHint\<rparr>;
          s = s\<lparr>sv_serviceStatus := status, sv_checkPoint := (if final then sv_checkPoint s else sv_checkPoint s + 1)\<rparr>
      in (if sv_statusHandle s \<noteq> None then [SStatus status] else [], s))"

text \<open>
  Assigning a new object to an owning pointer destroys the one a failed start left there, and the destructors stop their
  component.
\<close>

definition start_discovery :: "svc_start_env \<Rightarrow> ('c, 'w) MobileUnlockService \<Rightarrow> ('c, 'w) svc_result" where
  "start_discovery env s =
     (let old = (case sv_mdns s of None \<Rightarrow> [] | Some r \<Rightarrow> map SCloseUdp (fst (Mdns_Stop r)));
          (ok, closed, r) = Mdns_Start (vs_udp_socket env) (vs_udp_bind env) (vs_udp_thread env) PC_ONLINE
            (MdnsResponder_new (MdnsPort (sv_config s)) (WifiPort (sv_config s)) (vs_computerName env));
          s = s\<lparr>sv_mdns := Some r\<rparr>;
          warn = (if ok then [] else svc_log EV_SERVICE_FAULT LL_Warning ''Failed to start mDNS Responder (UDP port may be occupied).'' s);
          s = s\<lparr>sv_diag := SetServiceStatus CS_OK (wide ''Service, TCP/TLS Server, and mDNS active'') (sv_diag s)\<rparr>;
          s = s\<lparr>sv_diag := SetIpcStatus CS_OK (wide ''IPC Server active'') (sv_diag s)\<rparr>;
          s = Svc_SetState PC_ONLINE s;
          info = svc_log EV_SERVICE_FAULT LL_Info ''MobileUnlockService started successfully under NetworkService identity.'' s
      in (old @ map SCloseUdp closed @ warn @ info, s\<lparr>sv_isRunning := True\<rparr>))"

definition start_network :: "svc_start_env \<Rightarrow> ('c, 'w) MobileUnlockService \<Rightarrow> bool \<times> ('c, 'w) svc_result" where
  "start_network env s =
     (let old = (case sv_net s of None \<Rightarrow> [] | Some e \<Rightarrow> map SNet (fst (Net_Stop e)));
          (ok, outs, e) = Net_Start (vs_net env) True (NetworkEngine_new (WifiPort (sv_config s)));
          s = s\<lparr>sv_net := Some e\<rparr>
      in if \<not> ok
         then (False, old @ map SNet outs @ svc_log EV_SERVICE_FAULT LL_Error ''Failed to start NetworkEngine TCP/TLS Server.'' s, s)
         else let (outs', s) = start_discovery env s in (True, old @ map SNet outs @ outs', s))"

definition start_ipc :: "svc_start_env \<Rightarrow> ('c, 'w) MobileUnlockService \<Rightarrow> bool \<times> ('c, 'w) svc_result" where
  "start_ipc env s =
     (let (ok, p) = Ipc_Start True (vs_ipc_thread env) (NamedPipeServer_new (ServicePipeName (sv_config s)));
          s = s\<lparr>sv_ipc := Some p\<rparr>
      in if \<not> ok then (False, svc_log EV_SERVICE_FAULT LL_Error ''Failed to start Secure IPC Server.'' s, s)
         else start_network env s)"

definition StartServiceComponents ::
  "'w reg_api \<Rightarrow> svc_start_env \<Rightarrow> ('c, 'w) MobileUnlockService \<Rightarrow> (bool \<times> ('c, 'w) svc_result) option" where
  "StartServiceComponents api env s =
     (if sv_isRunning s then Some (True, [], s)
      else do {
        (valid, config) \<leftarrow> LoadConfiguration api (vs_needed env) (reg_world (sv_reg s)) (sv_config s);
        let s = s\<lparr>sv_config := config\<rparr>;
        Some (if \<not> valid then (False, svc_log EV_SERVICE_FAULT LL_Error ''Configuration validation failed.'' s, s)
              else start_ipc env s)
      })"

definition StopServiceComponents :: "('c, 'w) MobileUnlockService \<Rightarrow> ('c, 'w) svc_result" where
  "StopServiceComponents s =
     (if \<not> sv_isRunning s then ([], s)
      else
        let outs_m = (case sv_mdns s of None \<Rightarrow> [] | Some r \<Rightarrow> map SCloseUdp (fst (Mdns_Stop r)));
            s = s\<lparr>sv_mdns := None\<rparr>;
            outs_n = (case sv_net s of None \<Rightarrow> [] | Some e \<Rightarrow> map SNet (fst (Net_Stop e)));
            s = s\<lparr>sv_net := None\<rparr>;
            s = s\<lparr>sv_ipc := None\<rparr>;
            s = Svc_SetState PC_OFFLINE s;
            s = s\<lparr>sv_diag := SetServiceStatus CS_UNINITIALIZED (wide ''Service stopped'') (sv_diag s)\<rparr>;
            s = s\<lparr>sv_isRunning := False\<rparr>
        in (outs_m @ outs_n @ svc_log EV_SERVICE_FAULT LL_Info ''MobileUnlockService components stopped safely.'' s, s))"

definition ServiceMain ::
  "nat option \<Rightarrow> 'w reg_api \<Rightarrow> svc_start_env \<Rightarrow> ('c, 'w) MobileUnlockService \<Rightarrow> ('c, 'w) svc_result option" where
  "ServiceMain registered api env s =
     (let s = s\<lparr>sv_statusHandle := registered\<rparr> in
      if registered = None then Some (svc_log EV_SERVICE_FAULT LL_Error ''Failed to register service control handler.'' s, s)
      else do {
        let (outs, s) = ReportServiceStatus SERVICE_START_PENDING NO_ERROR 3000 s;
        (ok, outs', s) \<leftarrow> StartServiceComponents api env s;
        let (outs'', s) = (if ok then ReportServiceStatus SERVICE_RUNNING NO_ERROR 0 s
          else ReportServiceStatus SERVICE_STOPPED ERROR_SERVICE_SPECIFIC_ERROR 0 s);
        Some (outs @ outs' @ outs'', s)
      })"

definition ServiceHandlerEx :: "u32 \<Rightarrow> ('c, 'w) MobileUnlockService option \<Rightarrow> u32 \<times> svc_out list \<times> ('c, 'w) MobileUnlockService option" where
  "ServiceHandlerEx control context =
     (case context of
        None \<Rightarrow> (ERROR_CALL_NOT_IMPLEMENTED, [], None)
      | Some s \<Rightarrow>
          if control = SERVICE_CONTROL_STOP \<or> control = SERVICE_CONTROL_SHUTDOWN
          then
            let (o1, s) = ReportServiceStatus SERVICE_STOP_PENDING NO_ERROR 5000 s;
                (o2, s) = StopServiceComponents s;
                (o3, s) = ReportServiceStatus SERVICE_STOPPED NO_ERROR 0 s
            in (NO_ERROR, o1 @ o2 @ o3, Some s)
          else (NO_ERROR, [], Some s))"

text \<open>
  \<^verbatim>\<open>Run\<close>: the console mode, or the dispatcher of the service control manager. What the threads of the program do to
  the service while this one waits for the return key is \<open>console\<close>; \<open>dispatcher\<close> is the call of
  \<^verbatim>\<open>StartServiceCtrlDispatcherW\<close>, which runs \<open>ServiceMain\<close> and \<open>ServiceHandlerEx\<close> and answers the error it ends
  with, if any. The exit code is that error as a signed number.
\<close>

definition Svc_Run ::
  "wstring list \<Rightarrow> (('c, 'w) MobileUnlockService \<Rightarrow> ('c, 'w) svc_result) \<Rightarrow>
   (('c, 'w) MobileUnlockService \<Rightarrow> u32 option \<times> ('c, 'w) svc_result) \<Rightarrow> 'w reg_api \<Rightarrow> svc_start_env \<Rightarrow>
   ('c, 'w) MobileUnlockService \<Rightarrow> (int \<times> ('c, 'w) svc_result) option" where
  "Svc_Run argv console dispatcher api env s =
     (if length argv > 1 \<and> (argv ! 1 = wide ''-console'' \<or> argv ! 1 = wide ''--console'')
      then do {
        (ok, outs, s) \<leftarrow> StartServiceComponents api env s;
        let banner = SConsole (wide ''Starting MobileUnlockService in Console Mode...'');
        Some (if ok
          then let ready = SConsole (wide (''Service running on Port '' @ print_u (unat (WifiPort (sv_config s))) @
                     '' with mDNS on Port '' @ print_u (unat (MdnsPort (sv_config s))) @ ''. Press ENTER to exit.''));
                   (outs', s) = console s;
                   (outs'', s) = StopServiceComponents s
               in (0, banner # outs @ [ready] @ outs' @ outs'', s)
          else (0, banner # outs, s))
      }
      else let (ended, outs, s) = dispatcher s in
        (case ended of
          None \<Rightarrow> Some (0, outs, s)
        | Some err \<Rightarrow>
            Some (sint err,
                  outs @ (if err = ERROR_FAILED_SERVICE_CONTROLLER_CONNECT
                    then [SConsole (wide ''Run with -console to start in interactive mode.'')] else []), s)))"

section \<open>Messages from the pipe\<close>

definition svc_header :: "MessageType \<Rightarrow> u32 \<Rightarrow> u64 \<Rightarrow> bytes \<Rightarrow> FrameHeader" where
  "svc_header mt messageId sequenceNumber payload = \<lparr>
     fh_Magic = PROTOCOL_MAGIC, fh_MajorVersion = PROTOCOL_MAJOR_VERSION, fh_MinorVersion = PROTOCOL_MINOR_VERSION,
     fh_MessageType = opcode mt, fh_Reserved = 0, fh_MessageID = messageId,
     fh_PayloadLength = of_nat (length payload), fh_SequenceNumber = sequenceNumber\<rparr>"

definition svc_SendFrame ::
  "('c, 'w) svc_env \<Rightarrow> u64 \<Rightarrow> FrameHeader \<Rightarrow> bytes \<Rightarrow> ('c, 'w) MobileUnlockService \<Rightarrow> ('c, 'w) svc_result option" where
  "svc_SendFrame env clientId header payload s =
     (case sv_net s of
        None \<Rightarrow> None
      | Some e \<Rightarrow>
          let (_, outs, e) = SendFrame (ve_sch env) (ve_send env) clientId header payload e
          in Some (map SNet outs, s\<lparr>sv_net := Some e\<rparr>))"

definition svc_SendIpc ::
  "('c, 'w) svc_env \<Rightarrow> bytes \<Rightarrow> ('c, 'w) MobileUnlockService \<Rightarrow> ('c, 'w) svc_result option" where
  "svc_SendIpc env message s =
     (case sv_ipc s of
        None \<Rightarrow> None
      | Some p \<Rightarrow>
          (case snd (SendMessageToClient (ve_writeFile env) message p) of
             None \<Rightarrow> Some ([], s)
           | Some bs \<Rightarrow> Some ([SIpc bs], s)))"

definition ipc_lock_response ::
  "('c, 'w) svc_env \<Rightarrow> bytes \<Rightarrow> ('c, 'w) MobileUnlockService \<Rightarrow> ('c, 'w) svc_result option" where
  "ipc_lock_response env payload s = do {
     let client = sv_pendingLockClientId s;
     let s = s\<lparr>sv_pendingLockClientId := 0\<rparr>;
     let msgId = sv_pendingLockMessageId s;
     (outs, s) \<leftarrow> (if client \<noteq> 0 \<and> sv_net s \<noteq> None
       then svc_SendFrame env client (svc_header MT_LOCK_RESPONSE msgId 2 payload) payload s else Some ([], s));
     let s = Svc_SetState PC_LOCKED s;
     Some (outs @ svc_log EV_LOCK_EXECUTED LL_Info ''Workstation successfully locked via UserSessionAgent remote lock.'' s, s)
   }"

definition HandleIpcMessage ::
  "('c, 'w) svc_env \<Rightarrow> bytes \<Rightarrow> ('c, 'w) MobileUnlockService \<Rightarrow> ('c, 'w) svc_result option" where
  "HandleIpcMessage env message s =
     (let s = s\<lparr>sv_diag := IncrementProcessedMessages (sv_diag s)\<rparr> in
      case DeserializeFrameHeader (Some message) of
        None \<Rightarrow> Some (svc_log EV_SERVICE_FAULT LL_Warning ''Received malformed IPC frame header.'' s, s)
      | Some header \<Rightarrow>
          let payload = (if length message > FRAME_HEADER_SIZE then drop FRAME_HEADER_SIZE message else []) in
          if fh_MessageType header = opcode MT_PING
          then svc_SendIpc env (SerializeFrameHeader (svc_header MT_PONG (fh_MessageID header) (fh_SequenceNumber header + 1) [])) s
          else if fh_MessageType header = opcode MT_LOCK_RESPONSE then ipc_lock_response env payload s
          else if fh_MessageType header = opcode MT_STATUS_RESPONSE then Some ([], s)
          else Some ([], s))"

section \<open>Messages from the network\<close>

text \<open>The device identifier of an authentication request; what no branch writes stays as it was on the stack.\<close>

definition json_device :: "bytes \<Rightarrow> DeviceId \<Rightarrow> bool \<times> DeviceId" where
  "json_device payload deviceId =
     (let payloadStr = string_of_bytes payload in
      case str_find ''\"deviceId\":\"'' payloadStr of
        None \<Rightarrow> (False, deviceId)
      | Some pos \<Rightarrow> DeviceIdFromString (take 36 (drop (pos + 12) payloadStr)) deviceId)"

definition request_device :: "DeviceId \<Rightarrow> bytes \<Rightarrow> DeviceId" where
  "request_device garbage payload = (if length payload \<ge> 16 then take 16 payload else snd (json_device payload garbage))"

definition net_auth_request ::
  "('c, 'w) svc_env \<Rightarrow> u64 \<Rightarrow> FrameHeader \<Rightarrow> bytes \<Rightarrow> ('c, 'w) MobileUnlockService \<Rightarrow> ('c, 'w) svc_result option" where
  "net_auth_request env clientId header payload s = do {
     r \<leftarrow> HandleAuthRequest (ve_api env) (ve_cng env) (ve_nowMs env) (request_device (ve_garbage env) payload) header FrameHeader_init
           (sv_auth s) (sv_crypto s) (sv_reg s);
     svc_SendFrame env clientId (ar_header r) (ar_payload r)
       (s\<lparr>sv_auth := ar_am r, sv_crypto := ar_crypto r, sv_reg := ar_reg r\<rparr>)
   }"

definition net_auth_response ::
  "('c, 'w) svc_env \<Rightarrow> u64 \<Rightarrow> FrameHeader \<Rightarrow> bytes \<Rightarrow> ('c, 'w) MobileUnlockService \<Rightarrow> ('c, 'w) svc_result option" where
  "net_auth_response env clientId header payload s = do {
     r \<leftarrow> HandleAuthResponse (ve_api env) (ve_cng env) (ve_nowFt env) (ve_nowMs env) header payload
           (sv_auth s) (sv_crypto s) (sv_reg s);
     svc_SendFrame env clientId (ar_header r) (ar_payload r)
       (s\<lparr>sv_auth := ar_am r, sv_crypto := ar_crypto r, sv_reg := ar_reg r\<rparr>)
   }"

text \<open>The device a lock request names, if any, in the three forms the handler tries.\<close>

definition lock_device :: "DeviceId \<Rightarrow> bytes \<Rightarrow> bool \<times> DeviceId" where
  "lock_device garbage payload =
     (let (hasDeviceId, deviceId) =
            (if length payload \<ge> CANONICAL_SIGNED_MESSAGE_SIZE
             then (case DeserializeSignedMessage (Some (take CANONICAL_SIGNED_MESSAGE_SIZE payload)) of
                 Some m \<Rightarrow> (True, sm_DeviceIdentity m) | None \<Rightarrow> (False, garbage))
             else (False, garbage));
          (hasDeviceId, deviceId) =
            (if \<not> hasDeviceId \<and> length payload \<ge> 16 then (True, take 16 payload) else (hasDeviceId, deviceId))
      in if \<not> hasDeviceId then json_device payload deviceId else (hasDeviceId, deviceId))"

definition lock_failure_payload :: "string \<Rightarrow> bytes" where
  "lock_failure_payload reason = bytes_of_string (''{\"status\":\"FAILURE\",\"reason\":\"'' @ reason @ ''\"}'')"

definition lock_refused ::
  "('c, 'w) svc_env \<Rightarrow> u64 \<Rightarrow> FrameHeader \<Rightarrow> string \<Rightarrow> ('c, 'w) MobileUnlockService \<Rightarrow> ('c, 'w) svc_result option" where
  "lock_refused env clientId header reason s =
     (let errPayload = lock_failure_payload reason
      in svc_SendFrame env clientId
           (svc_header MT_LOCK_RESPONSE (fh_MessageID header) (fh_SequenceNumber header + 1) errPayload) errPayload s)"

definition lock_command :: "FrameHeader \<Rightarrow> bytes \<Rightarrow> bytes" where
  "lock_command header payload = SerializeFrameHeader (svc_header MT_LOCK_REQUEST (fh_MessageID header) 1 payload) @ payload"

definition net_lock_request ::
  "('c, 'w) svc_env \<Rightarrow> u64 \<Rightarrow> FrameHeader \<Rightarrow> bytes \<Rightarrow> ('c, 'w) MobileUnlockService \<Rightarrow> ('c, 'w) svc_result option" where
  "net_lock_request env clientId header payload s =
     (let (hasDeviceId, deviceId) = lock_device (ve_garbage env) payload in do {
        active \<leftarrow> (if hasDeviceId then IsDeviceActive (ve_api env) (sv_reg s) (DeviceIdToString deviceId) else Some True);
        if hasDeviceId \<and> \<not> active then lock_refused env clientId header ''DEVICE_UNAUTHORIZED'' s
        else if (case sv_ipc s of None \<Rightarrow> True | Some p \<Rightarrow> \<not> ps_isConnected p)
        then lock_refused env clientId header ''AGENT_UNAVAILABLE'' s
        else svc_SendIpc env (lock_command header payload)
               (s\<lparr>sv_pendingLockClientId := clientId, sv_pendingLockMessageId := fh_MessageID header\<rparr>)
      })"

definition HandleNetworkFrame ::
  "('c, 'w) svc_env \<Rightarrow> u64 \<Rightarrow> FrameHeader \<Rightarrow> bytes \<Rightarrow> ('c, 'w) MobileUnlockService \<Rightarrow> ('c, 'w) svc_result option" where
  "HandleNetworkFrame env clientId header payload s =
     (let s = s\<lparr>sv_diag := IncrementProcessedMessages (sv_diag s)\<rparr> in
      if fh_MessageType header = opcode MT_PING
      then svc_SendFrame env clientId (svc_header MT_PONG (fh_MessageID header) (fh_SequenceNumber header + 1) []) [] s
      else if fh_MessageType header = opcode MT_AUTH_REQUEST then net_auth_request env clientId header payload s
      else if fh_MessageType header = opcode MT_AUTH_RESPONSE then net_auth_response env clientId header payload s
      else if fh_MessageType header = opcode MT_LOCK_REQUEST then net_lock_request env clientId header payload s
      else Some ([], s))"

section \<open>The messages the handlers build\<close>

lemma svc_header_ok:
  assumes "length payload \<le> 4096" "mt \<noteq> MT_UNKNOWN"
  shows "frame_header_ok (svc_header mt i n payload)"
proof -
  have "(of_nat (length payload) :: u32) \<le> 4096"
    using assms(1) by (simp add: word_le_nat_alt unat_of_nat take_bit_nat_eq_self)
  then show ?thesis
    using assms(2) by (simp add: frame_header_ok_def svc_header_def protocol_consts del: opcode.simps)
qed

lemma svc_header_sel [simp]:
  "fh_MessageType (svc_header mt i n p) = opcode mt" "fh_MessageID (svc_header mt i n p) = i"
  "fh_SequenceNumber (svc_header mt i n p) = n" "fh_PayloadLength (svc_header mt i n p) = of_nat (length p)"
  by (simp_all add: svc_header_def)

text \<open>The identifier in text form cannot be found in a payload shorter than sixteen bytes: nothing is written.\<close>

text \<open>The position found leaves room for the pattern, so taking the text behind it does not throw.\<close>

lemma find_at_bound: "find_at pat s i = Some pos \<Longrightarrow> pos + length pat \<le> i + length s"
proof (induction pat s i rule: find_at.induct)
  case (2 pat c s i)
  show ?case
  proof (cases "take (length pat) (c # s) = pat")
    case True
    then have "length pat \<le> length (c # s)"
      by (metis length_take min.absorb_iff2 min.commute)
    with 2(2) True show ?thesis by simp
  next
    case False
    with 2 show ?thesis by simp
  qed
qed (simp split: if_splits)

lemma json_device_short:
  assumes "length payload < 16"
  shows "json_device payload g = (False, g)"
proof (cases "str_find ''\"deviceId\":\"'' (string_of_bytes payload)")
  case (Some pos)
  have "length (take 36 (drop (pos + 12) (string_of_bytes payload))) \<noteq> 36"
    using assms by (simp add: string_of_bytes_def)
  then show ?thesis
    by (simp only: json_device_def Let_def Some option.case DeviceIdFromString_def not_False_eq_True if_True simp_thms)
qed (simp add: json_device_def)

lemma request_device_short: "length payload < 16 \<Longrightarrow> request_device g payload = g"
  by (simp add: request_device_def json_device_short)

lemma lock_device_short: "length payload < 16 \<Longrightarrow> lock_device g payload = (False, g)"
  by (simp add: lock_device_def json_device_short protocol_consts)

text \<open>The device a longer payload names: the one of the canonical message it starts with, or else its first sixteen bytes.\<close>

definition named_device :: "bytes \<Rightarrow> DeviceId" where
  "named_device payload =
     (case DeserializeSignedMessage (Some (take CANONICAL_SIGNED_MESSAGE_SIZE payload)) of
        Some m \<Rightarrow> sm_DeviceIdentity m
      | None \<Rightarrow> take 16 payload)"

lemma DeserializeSignedMessage_short:
  "length payload < CANONICAL_SIGNED_MESSAGE_SIZE \<Longrightarrow> DeserializeSignedMessage (Some payload) = None"
  using DeserializeSignedMessage_iff [of payload] length_SerializeSignedMessage
  by (metis less_irrefl not_Some_eq signed_message_ok_def)

lemma lock_device_named: "16 \<le> length payload \<Longrightarrow> lock_device g payload = (True, named_device payload)"
  by (auto simp: lock_device_def named_device_def Let_def DeserializeSignedMessage_short split: option.splits)

section \<open>Sending\<close>

lemma svc_SendFrame_frame:
  assumes "svc_SendFrame env c h p s = Some (outs, t)"
  shows "\<exists>e. t = s\<lparr>sv_net := Some e\<rparr>" "set outs \<subseteq> range SNet"
  using assms by (auto simp: svc_SendFrame_def case_prod_unfold Let_def split: option.splits)

lemma svc_SendFrame_defined: "sv_net s \<noteq> None \<Longrightarrow> svc_SendFrame env c h p s \<noteq> None"
  by (auto simp: svc_SendFrame_def case_prod_unfold Let_def)

lemma svc_SendIpc_connected:
  assumes "sv_ipc s = Some p" "ps_isConnected p" "ps_hPipe p \<noteq> None" "message \<noteq> []"
  shows "svc_SendIpc env message s = Some ([SIpc message], s)"
  using assms by (simp add: svc_SendIpc_def SendMessageToClient_def)

lemma svc_SendIpc_frame: "svc_SendIpc env m s = Some (outs, t) \<Longrightarrow> t = s"
  by (auto simp: svc_SendIpc_def split: option.splits)

lemma lock_command_nonempty [simp]: "lock_command h p \<noteq> []"
proof -
  have "length (lock_command h p) = FRAME_HEADER_SIZE + length p"
    by (simp add: lock_command_def)
  then show ?thesis by (auto simp: protocol_consts)
qed

text \<open>A frame to a client whose connection is not encrypted is the header followed by the payload, on the client's socket.\<close>

definition plain_client :: "u64 \<Rightarrow> nat \<Rightarrow> ('c, 'w) MobileUnlockService \<Rightarrow> bool" where
  "plain_client c k s \<longleftrightarrow> (case sv_net s of None \<Rightarrow> False
     | Some e \<Rightarrow> c \<in> set (ne_clients e) \<and> (case ne_objs e c of None \<Rightarrow> False
         | Some cs \<Rightarrow> cs_Socket cs = Some k \<and> \<not> t_handshakeComplete (cs_Tls cs)))"

lemma svc_SendFrame_plain:
  "plain_client c k s \<Longrightarrow> svc_SendFrame env c h p s = Some ([SNet (NSend k (SerializeFrameHeader h @ p))], s)"
  by (cases s) (auto simp: plain_client_def svc_SendFrame_def SendFrame_def Let_def split: option.splits)

section \<open>The service as a machine\<close>

text \<open>
  The calls that reach the service: the control manager's, the frames and messages of its two servers, and the work
  those servers do in their own threads.
\<close>

datatype ('c, 'w) svc_op =
    VStart "'w reg_api" svc_start_env
  | VStop
  | VControl u32
  | VFrame "('c, 'w) svc_env" u64 FrameHeader bytes
  | VMessage "('c, 'w) svc_env" bytes
  | VPipe ipc_op
  | VEngine "'c sch_api" net_op

fun svc_exec :: "('c, 'w) svc_op \<Rightarrow> ('c, 'w) MobileUnlockService \<Rightarrow> ('c, 'w) svc_result option" where
  "svc_exec (VStart api env) s = map_option snd (StartServiceComponents api env s)"
| "svc_exec VStop s = Some (StopServiceComponents s)"
| "svc_exec (VControl c) s =
     (let (_, outs, t) = ServiceHandlerEx c (Some s) in map_option (\<lambda>t. (outs, t)) t)"
| "svc_exec (VFrame env c h p) s = HandleNetworkFrame env c h p s"
| "svc_exec (VMessage env m) s = HandleIpcMessage env m s"
| "svc_exec (VPipe op) s = Some ([], s\<lparr>sv_ipc := map_option (ipc_exec op) (sv_ipc s)\<rparr>)"
| "svc_exec (VEngine sch op) s = Some ([], s\<lparr>sv_net := map_option (\<lambda>e. snd (net_exec sch op e)) (sv_net s)\<rparr>)"

text \<open>The pipe's worker opens an instance only when the last one is closed.\<close>

fun svc_allowed :: "('c, 'w) svc_op \<Rightarrow> ('c, 'w) MobileUnlockService \<Rightarrow> bool" where
  "svc_allowed (VPipe (IOpen _ _)) s \<longleftrightarrow> (case sv_ipc s of None \<Rightarrow> True | Some p \<Rightarrow> \<not> ps_isConnected p)"
| "svc_allowed _ s \<longleftrightarrow> True"

definition svc_step ::
  "('c, 'w) MobileUnlockService \<Rightarrow> ('c, 'w) svc_op \<times> svc_out list \<Rightarrow> ('c, 'w) MobileUnlockService \<Rightarrow> bool" where
  "svc_step s e t \<longleftrightarrow> svc_allowed (fst e) s \<and> svc_exec (fst e) s = Some (snd e, t)"

text \<open>A running service owns its three servers; a connected pipe has a handle; the responder announces the service's state.\<close>

definition svc_inv :: "('c, 'w) MobileUnlockService \<Rightarrow> bool" where
  "svc_inv s \<longleftrightarrow> (sv_isRunning s \<longrightarrow> sv_ipc s \<noteq> None \<and> sv_net s \<noteq> None \<and> sv_mdns s \<noteq> None) \<and>
     (\<forall>p. sv_ipc s = Some p \<longrightarrow> ipc_inv p) \<and> (\<forall>r. sv_mdns s = Some r \<longrightarrow> md_state r = sv_currentState s)"

lemma svc_inv_parts:
  "svc_inv (s\<lparr>sv_diag := d\<rparr>) = svc_inv s" "svc_inv (s\<lparr>sv_config := c\<rparr>) = svc_inv s"
  "svc_inv (s\<lparr>sv_pendingLockClientId := i\<rparr>) = svc_inv s"
  "svc_inv (s\<lparr>sv_pendingLockClientId := i, sv_pendingLockMessageId := j\<rparr>) = svc_inv s"
  "svc_inv (s\<lparr>sv_auth := am, sv_crypto := cs, sv_reg := reg\<rparr>) = svc_inv s"
  "svc_inv (s\<lparr>sv_serviceStatus := st, sv_checkPoint := n\<rparr>) = svc_inv s"
  "svc_inv s \<Longrightarrow> svc_inv (s\<lparr>sv_net := Some e\<rparr>)"
  "svc_inv s \<Longrightarrow> svc_inv (Svc_SetState pc s)"
  by (auto simp: svc_inv_def Svc_SetState_def Mdns_SetState_def)

lemma svc_SendFrame_inv: "svc_SendFrame env c h p s = Some (outs, t) \<Longrightarrow> svc_inv s \<Longrightarrow> svc_inv t"
  using svc_SendFrame_frame(1) [of env c h p s outs t] by (auto intro: svc_inv_parts)

lemma ipc_inv_started: "ipc_inv (snd (Ipc_Start h t (NamedPipeServer_new n)))"
  by (simp add: ipc_inv_def Ipc_Start_def NamedPipeServer_new_def)

lemma start_discovery_inv: "svc_inv s \<Longrightarrow> sv_ipc s \<noteq> None \<Longrightarrow> sv_net s \<noteq> None \<Longrightarrow> svc_inv (snd (start_discovery env s))"
  by (auto simp: start_discovery_def svc_inv_def Svc_SetState_def Mdns_SetState_def Let_def case_prod_unfold)

lemma start_network_inv: "svc_inv s \<Longrightarrow> sv_ipc s \<noteq> None \<Longrightarrow> svc_inv (snd (snd (start_network env s)))"
  by (auto simp: start_network_def Let_def case_prod_unfold intro: svc_inv_parts start_discovery_inv)

lemma start_ipc_inv: "svc_inv s \<Longrightarrow> svc_inv (snd (snd (start_ipc env s)))"
proof -
  assume "svc_inv s"
  then have "svc_inv (s\<lparr>sv_ipc := Some (snd (Ipc_Start True (vs_ipc_thread env) (NamedPipeServer_new (ServicePipeName (sv_config s)))))\<rparr>)"
    using ipc_inv_started by (auto simp: svc_inv_def)
  then show ?thesis
    by (auto simp: start_ipc_def Let_def case_prod_unfold intro: start_network_inv)
qed

lemma Start_inv:
  assumes "StartServiceComponents api env s = Some (b, outs, t)" "svc_inv s"
  shows "svc_inv t"
proof (cases "sv_isRunning s")
  case False
  with assms(1) obtain valid config where "(if \<not> valid then (False, svc_log EV_SERVICE_FAULT LL_Error ''Configuration validation failed.'' (s\<lparr>sv_config := config\<rparr>),
         s\<lparr>sv_config := config\<rparr>)
       else start_ipc env (s\<lparr>sv_config := config\<rparr>)) = (b, outs, t)"
    by (auto simp: StartServiceComponents_def Let_def bind_eq_Some_conv)
  then have "t = s\<lparr>sv_config := config\<rparr> \<or> t = snd (snd (start_ipc env (s\<lparr>sv_config := config\<rparr>)))"
    by (metis snd_conv)
  with start_ipc_inv [of "s\<lparr>sv_config := config\<rparr>" env] assms(2) show ?thesis
    by (metis svc_inv_parts(2))
qed (use assms in \<open>simp add: StartServiceComponents_def\<close>)

lemma Stop_inv: "svc_inv (snd (StopServiceComponents s))" if "svc_inv s"
  using that by (auto simp: StopServiceComponents_def svc_inv_def Svc_SetState_def Let_def)

lemma Report_inv: "svc_inv (snd (ReportServiceStatus st c w s)) = svc_inv s"
  by (simp add: ReportServiceStatus_def Let_def svc_inv_parts)

lemma HandleIpc_inv: "HandleIpcMessage env m s = Some (outs, t) \<Longrightarrow> svc_inv s \<Longrightarrow> svc_inv t"
  by (auto simp: HandleIpcMessage_def ipc_lock_response_def Let_def svc_inv_parts simp del: opcode.simps
      split: option.splits if_splits Option.bind_splits dest!: svc_SendIpc_frame dest: svc_SendFrame_inv intro!: svc_inv_parts(8))

lemma HandleFrame_inv: "HandleNetworkFrame env c h p s = Some (outs, t) \<Longrightarrow> svc_inv s \<Longrightarrow> svc_inv t"
  by (auto simp: HandleNetworkFrame_def net_auth_request_def net_auth_response_def net_lock_request_def lock_refused_def
      Let_def svc_inv_parts simp del: opcode.simps
      split: option.splits if_splits Option.bind_splits prod.splits dest!: svc_SendIpc_frame dest: svc_SendFrame_inv)

lemma svc_step_inv: "svc_step s e t \<Longrightarrow> svc_inv s \<Longrightarrow> svc_inv t"
proof -
  assume step: "svc_step s e t" and inv: "svc_inv s"
  obtain op outs where e: "e = (op, outs)" by (cases e)
  show "svc_inv t"
  proof (cases op)
    case (VControl c)
    with step e inv Report_inv [of _ _ _ "snd (StopServiceComponents (snd (ReportServiceStatus a b d s)))" for a b d] show ?thesis
      by (auto simp: svc_step_def ServiceHandlerEx_def case_prod_unfold Let_def Report_inv Stop_inv split: if_splits)
  next
    case (VPipe op')
    have "ipc_inv (ipc_exec op' p)" if "sv_ipc s = Some p" for p
      using that inv step e VPipe ipc_machine.step_inv [of p op' "ipc_exec op' p"]
      by (cases op') (auto simp: svc_inv_def svc_step_def ipc_step_def)
    with step e VPipe inv show ?thesis
      by (auto simp: svc_step_def svc_inv_def)
  next
    case (VEngine sch op')
    with step e inv show ?thesis by (auto simp: svc_step_def svc_inv_def)
  qed (use step e inv in \<open>auto simp: svc_step_def Stop_inv dest: Start_inv HandleIpc_inv HandleFrame_inv\<close>,
       metis Stop_inv snd_conv)
qed

interpretation svc_machine: invariant_machine svc_step svc_inv
  by unfold_locales (rule svc_step_inv)

lemma svc_inv_new: "svc_inv (MobileUnlockService_new config now logger am cs reg)"
  by (simp add: svc_inv_def MobileUnlockService_new_def)

section \<open>What the responder announces\<close>

text \<open>The state that discovery reports is the state of the service. Whatever calls the service has received since it
  was constructed, an answer of its responder carries a payload that a client parses to the service's current state.\<close>

theorem service_announces_state:
  assumes "run svc_step (MobileUnlockService_new config now logger am cs reg) es s"
    and "sv_mdns s = Some r" "announceable (announcement r)" "listener_iter (Some q) r = Some resp"
  shows "\<exists>h payload ann. resp = SerializeFrameHeader h @ payload \<and> ParseDiscoveryResponsePayload (Some payload) = Some ann \<and>
    da_State ann = pc_state_code (sv_currentState s)"
proof -
  have "md_state r = sv_currentState s"
    using svc_machine.run_inv [OF assms(1) svc_inv_new] assms(2) by (simp add: svc_inv_def)
  moreover have "resp = discovery_response r"
    using assms(4) by (auto simp: listener_iter_def split: if_splits)
  then obtain h where "resp = SerializeFrameHeader h @ BuildDiscoveryResponsePayload (announcement r)"
    by (auto simp: discovery_response_def Let_def)
  ultimately show ?thesis
    using parse_built [OF assms(3)] by (auto simp: announcement_def)
qed

text \<open>A service that has started, with one phone connected and an agent on the pipe.\<close>

definition demo_start :: svc_start_env where
  "demo_start = \<lparr>vs_needed = \<lambda>_. 4, vs_ipc_thread = Some 4, vs_net = sample_env, vs_computerName = Some ''DESKTOP-7'',
     vs_udp_socket = Some 9, vs_udp_bind = True, vs_udp_thread = Some 3\<rparr>"

definition demo_service0 :: "(nat, sim_world) MobileUnlockService" where
  "demo_service0 = MobileUnlockService_new AppConfig_default 0 (SecurityAuditLogger_new None) AuthenticationManager_new
     crypto_state_init sample_state"

definition demo_started :: "(nat, sim_world) MobileUnlockService" where
  "demo_started = snd (snd (the (StartServiceComponents sim_api demo_start demo_service0)))"

definition demo_service :: "(nat, sim_world) MobileUnlockService" where
  "demo_service = demo_started\<lparr>sv_net := Some sample_engine, sv_ipc := map_option (server_open (Some 7) True) (sv_ipc demo_started)\<rparr>"

lemma demo_start_result:
  "\<exists>outs. StartServiceComponents sim_api demo_start demo_service0 = Some (True, outs, demo_started) \<and> sv_isRunning demo_started \<and>
     sv_currentState demo_started = PC_ONLINE \<and> sv_mdns demo_started = Some demo_responder \<and>
     sv_net demo_started = Some (snd (snd (Net_Start sample_env True (NetworkEngine_new 8443)))) \<and>
     sv_ipc demo_started = Some (snd (Ipc_Start True (Some 4) (NamedPipeServer_new SECURE_IPC_PIPE_NAME))) \<and>
     sv_reg demo_started = sample_state \<and> sv_pendingLockClientId demo_started = 0"
proof -
  have "LoadConfiguration sim_api n [] AppConfig_default = Some (True, AppConfig_default)" for n
    by (simp add: LoadConfiguration_def sim_api_def win32_consts)
  then show ?thesis
    by (simp add: demo_started_def demo_service0_def StartServiceComponents_def MobileUnlockService_new_def sample_state_def
        start_ipc_def start_network_def start_discovery_def demo_start_def Net_Start_def sample_env_def Ipc_Start_def
        NamedPipeServer_new_def NetworkEngine_new_def Mdns_Start_def MdnsResponder_new_def Svc_SetState_def Mdns_SetState_def
        demo_responder_def AppConfig_default_def DEFAULT_WIFI_PORT_def DEFAULT_MDNS_PORT_def Let_def)
qed

lemma demo_service_run:
  "\<exists>outs. run svc_step demo_service0 [(VStart sim_api demo_start, outs), (VEngine demo_sch sample_accept, []), (VPipe (IOpen (Some 7) True), [])]
     demo_service"
proof -
  from demo_start_result obtain outs where st: "StartServiceComponents sim_api demo_start demo_service0 = Some (True, outs, demo_started)"
    "sv_net demo_started = Some (snd (snd (Net_Start sample_env True (NetworkEngine_new 8443))))"
    "sv_ipc demo_started = Some (snd (Ipc_Start True (Some 4) (NamedPipeServer_new SECURE_IPC_PIPE_NAME)))"
    by blast
  have e: "snd (net_exec demo_sch sample_accept (snd (snd (Net_Start sample_env True (NetworkEngine_new 8443))))) = sample_engine"
    by (simp add: sample_engine_def sample_env_def)
  have "svc_step demo_service0 (VStart sim_api demo_start, outs) demo_started"
    using st by (simp add: svc_step_def)
  moreover have "svc_step demo_started (VEngine demo_sch sample_accept, []) (demo_started\<lparr>sv_net := Some sample_engine\<rparr>)"
    using st e by (simp add: svc_step_def del: net_exec.simps)
  moreover have "svc_step (demo_started\<lparr>sv_net := Some sample_engine\<rparr>) (VPipe (IOpen (Some 7) True), []) demo_service"
    using st by (simp add: svc_step_def demo_service_def Ipc_Start_def NamedPipeServer_new_def)
  ultimately show ?thesis by auto
qed

lemma demo_service_sel:
  "sv_isRunning demo_service" "sv_currentState demo_service = PC_ONLINE" "sv_mdns demo_service = Some demo_responder"
  "sv_net demo_service = Some sample_engine" "sv_reg demo_service = sample_state"
  "\<exists>p. sv_ipc demo_service = Some p \<and> ps_isConnected p \<and> ps_hPipe p = Some 7"
  using demo_start_result
  by (auto simp: demo_service_def Ipc_Start_def NamedPipeServer_new_def server_open_def)

lemma demo_plain_client: "plain_client 1 77 demo_service"
  by (simp add: plain_client_def demo_service_sel sample_engine_def accept_iter_def Net_Start_def NetworkEngine_new_def
      CheckRateLimit_def put_obj_def new_client_def TlsContext_new_def Let_def)

theorem service_announces_state_witness:
  "\<exists>h payload ann. discovery_response demo_responder = SerializeFrameHeader h @ payload \<and>
     ParseDiscoveryResponsePayload (Some payload) = Some ann \<and> da_State ann = pc_state_code (sv_currentState demo_service)"
proof -
  obtain outs where r: "run svc_step demo_service0 [(VStart sim_api demo_start, outs), (VEngine demo_sch sample_accept, []),
      (VPipe (IOpen (Some 7) True), [])] demo_service"
    using demo_service_run by blast
  have q: "listener_iter (Some (bytes_of_string ''DISCOVER'')) demo_responder = Some (discovery_response demo_responder)"
  proof -
    have "is_valid_query (bytes_of_string ''DISCOVER'')" "md_isRunning demo_responder" by code_simp+
    then show ?thesis by (simp add: listener_iter_def)
  qed
  have "announceable (announcement demo_responder)"
    by (simp add: demo_responder_def Mdns_Start_def MdnsResponder_new_def announceable_def announcement_def MDNS_SERVICE_TYPE_def
        BuildDiscoveryResponsePayload_def print_u.simps MAX_PAYLOAD_SIZE_def)
  from service_announces_state [OF r [unfolded demo_service0_def] demo_service_sel(3) this q] show ?thesis .
qed

section \<open>The handlers return\<close>

text \<open>The registry is asked only about a payload of at least sixteen bytes.\<close>

definition lock_verdict :: "'w reg_api \<Rightarrow> bytes \<Rightarrow> 'w reg_state \<Rightarrow> bool option" where
  "lock_verdict api p reg = (if 16 \<le> length p then IsDeviceActive api reg (DeviceIdToString (named_device p)) else Some True)"

text \<open>The component a frame is handed to: it may leave a buffer, and then the handler has no result.\<close>

definition callee_returns :: "('c, 'w) svc_env \<Rightarrow> FrameHeader \<Rightarrow> bytes \<Rightarrow> ('c, 'w) MobileUnlockService \<Rightarrow> bool" where
  "callee_returns env h p s \<longleftrightarrow>
     (if fh_MessageType h = opcode MT_AUTH_REQUEST
      then HandleAuthRequest (ve_api env) (ve_cng env) (ve_nowMs env) (request_device (ve_garbage env) p) h FrameHeader_init
             (sv_auth s) (sv_crypto s) (sv_reg s) \<noteq> None
      else if fh_MessageType h = opcode MT_AUTH_RESPONSE
      then HandleAuthResponse (ve_api env) (ve_cng env) (ve_nowFt env) (ve_nowMs env) h p (sv_auth s) (sv_crypto s) (sv_reg s) \<noteq> None
      else if fh_MessageType h = opcode MT_LOCK_REQUEST then lock_verdict (ve_api env) p (sv_reg s) \<noteq> None
      else True)"

lemma lock_refused_defined: "sv_net s = Some e \<Longrightarrow> \<exists>a b. lock_refused env c h r s = Some (a, b)"
  by (simp add: lock_refused_def svc_SendFrame_def case_prod_unfold Let_def)

lemma svc_SendIpc_defined: "sv_ipc s = Some p \<Longrightarrow> \<exists>a b. svc_SendIpc env m s = Some (a, b)"
  by (auto simp: svc_SendIpc_def split: option.splits)

lemma net_lock_request_alt:
  "net_lock_request env c h p s = do {
     ok \<leftarrow> lock_verdict (ve_api env) p (sv_reg s);
     if \<not> ok then lock_refused env c h ''DEVICE_UNAUTHORIZED'' s
     else if (case sv_ipc s of None \<Rightarrow> True | Some q \<Rightarrow> \<not> ps_isConnected q) then lock_refused env c h ''AGENT_UNAVAILABLE'' s
     else svc_SendIpc env (lock_command h p) (s\<lparr>sv_pendingLockClientId := c, sv_pendingLockMessageId := fh_MessageID h\<rparr>)
   }"
proof (cases "16 \<le> length p")
  case True
  then show ?thesis by (simp add: net_lock_request_def lock_device_named lock_verdict_def)
next
  case False
  then show ?thesis by (simp add: net_lock_request_def lock_device_short lock_verdict_def)
qed

lemma net_lock_request_defined:
  assumes "sv_net s = Some e" "lock_verdict (ve_api env) p (sv_reg s) \<noteq> None"
  shows "\<exists>a b. net_lock_request env c h p s = Some (a, b)"
proof -
  from assms(2) obtain ok where "lock_verdict (ve_api env) p (sv_reg s) = Some ok" by blast
  moreover have "\<exists>a b. svc_SendIpc env m (s\<lparr>sv_pendingLockClientId := i, sv_pendingLockMessageId := j\<rparr>) = Some (a, b)"
    if "sv_ipc s = Some q" for m i j q
    using that by (intro svc_SendIpc_defined) simp
  ultimately show ?thesis
    using lock_refused_defined [OF assms(1)] by (auto simp: net_lock_request_alt split: option.splits)
qed

text \<open>While the service runs, no message makes a handler use a pointer that is null. In every state that the
  service's calls reach and in which it runs, a message from the pipe is handled, and so is a frame from the network,
  provided the component that the frame is handed to returns.\<close>

theorem service_handlers_return:
  assumes "run svc_step (MobileUnlockService_new config now logger am cs reg) es s" "sv_isRunning s" "callee_returns env h p s"
  shows "HandleIpcMessage env m s \<noteq> None \<and> HandleNetworkFrame env c h p s \<noteq> None"
proof
  obtain e q where own: "sv_net s = Some e" "sv_ipc s = Some q"
    using svc_machine.run_inv [OF assms(1) svc_inv_new] assms(2) by (auto simp: svc_inv_def)
  have send: "\<exists>a b. svc_SendFrame env' c' h' p' s' = Some (a, b)" if "sv_net s' = Some e" for env' c' h' p' s'
    using that by (simp add: svc_SendFrame_def case_prod_unfold Let_def)
  show "HandleIpcMessage env m s \<noteq> None"
    using own by (auto simp: HandleIpcMessage_def ipc_lock_response_def Let_def svc_SendIpc_def svc_SendFrame_def case_prod_unfold
        simp del: opcode.simps split: option.splits)
  show "HandleNetworkFrame env c h p s \<noteq> None"
    using assms(3) own by (auto simp: HandleNetworkFrame_def net_auth_request_def net_auth_response_def callee_returns_def
        Let_def send simp del: opcode.simps split: if_splits intro!: net_lock_request_defined)
qed

definition demo_svc_env :: "(nat, sim_world) svc_env" where
  "demo_svc_env = \<lparr>ve_api = sim_api, ve_cng = demo_cng, ve_sch = demo_sch, ve_send = \<lambda>_ bs. int (length bs),
     ve_writeFile = \<lambda>bs. Some (length bs), ve_nowMs = 1000, ve_nowFt = FILETIME_zero, ve_garbage = replicate 16 0\<rparr>"

definition demo_lock :: "u32 \<Rightarrow> FrameHeader" where
  "demo_lock i = FrameHeader_init\<lparr>fh_MessageType := opcode MT_LOCK_REQUEST, fh_MessageID := i\<rparr>"

lemma demo_lock_sel [simp]: "fh_MessageType (demo_lock i) = opcode MT_LOCK_REQUEST" "fh_MessageID (demo_lock i) = i"
  by (simp_all add: demo_lock_def)

theorem service_handlers_return_witness:
  "HandleIpcMessage demo_svc_env [1, 2, 3] demo_service \<noteq> None \<and> HandleNetworkFrame demo_svc_env 1 (demo_lock 5) [] demo_service \<noteq> None"
proof -
  obtain es where "run svc_step demo_service0 es demo_service"
    using demo_service_run by blast
  moreover have "callee_returns demo_svc_env (demo_lock 5) [] demo_service"
    by (simp add: callee_returns_def lock_verdict_def del: opcode.simps)
  ultimately show ?thesis
    using demo_service_sel(1) service_handlers_return unfolding demo_service0_def by blast
qed

section \<open>Lock requests\<close>

lemma lock_frame: "fh_MessageType h = opcode MT_LOCK_REQUEST \<Longrightarrow>
    HandleNetworkFrame env c h p s = net_lock_request env c h p (s\<lparr>sv_diag := IncrementProcessedMessages (sv_diag s)\<rparr>)"
  by (simp add: HandleNetworkFrame_def Let_def del: opcode.simps)

lemma lock_refused_outs:
  "lock_refused env c h r s = Some (outs, t) \<Longrightarrow>
     (\<forall>m. SIpc m \<notin> set outs) \<and> sv_pendingLockClientId t = sv_pendingLockClientId s"
  using svc_SendFrame_frame [of env c _ _ s outs t] by (fastforce simp: lock_refused_def Let_def)

lemma lock_forwarded:
  assumes "fh_MessageType h = opcode MT_LOCK_REQUEST" "sv_ipc s = Some q" "ps_isConnected q" "ps_hPipe q \<noteq> None"
    and "lock_verdict (ve_api env) p (sv_reg s) = Some True"
  shows "HandleNetworkFrame env c h p s = Some ([SIpc (lock_command h p)], s\<lparr>sv_diag := IncrementProcessedMessages (sv_diag s),
    sv_pendingLockClientId := c, sv_pendingLockMessageId := fh_MessageID h\<rparr>)"
  using assms by (simp add: lock_frame net_lock_request_alt svc_SendIpc_connected)

text \<open>C24: when a lock command reaches the agent. In every state of a running service, handling a LOCK\_REQUEST frame writes a
  message to the pipe exactly when an agent is connected and the registry lists the named device as active or the payload is too
  short to name one. The message is the request under a new header. So neither a signature nor a challenge
  is checked, and a request without a device needs no pairing at all.\<close>

theorem lock_forwarded_exact:
  assumes "run svc_step (MobileUnlockService_new config now logger am cs reg) es s" "sv_isRunning s" "sv_ipc s = Some q"
    and "fh_MessageType h = opcode MT_LOCK_REQUEST" "HandleNetworkFrame env c h p s = Some (outs, t)"
  shows "SIpc m \<in> set outs \<longleftrightarrow> m = lock_command h p \<and> ps_isConnected q \<and>
      (length p < 16 \<or> IsDeviceActive (ve_api env) (sv_reg s) (DeviceIdToString (named_device p)) = Some True)"
    (is "_ \<longleftrightarrow> _ \<and> _ \<and> ?active")
proof -
  have pipe: "ps_isConnected q \<Longrightarrow> ps_hPipe q \<noteq> None"
    using svc_machine.run_inv [OF assms(1) svc_inv_new] assms(3) by (simp add: svc_inv_def ipc_inv_def)
  have active: "?active \<longleftrightarrow> lock_verdict (ve_api env) p (sv_reg s) = Some True"
    by (auto simp: lock_verdict_def)
  show ?thesis
  proof (cases "ps_isConnected q \<and> ?active")
    case True
    then show ?thesis
      using lock_forwarded [OF assms(4,3) _ pipe, of env p c] active assms(5) by auto
  next
    case False
    with active obtain r where "lock_refused env c h r (s\<lparr>sv_diag := IncrementProcessedMessages (sv_diag s)\<rparr>) = Some (outs, t)"
      using assms(5) by (auto simp: lock_frame [OF assms(4)] net_lock_request_alt assms(3) bind_eq_Some_conv split: if_splits)
    with lock_refused_outs False show ?thesis by blast
  qed
qed

lemma demo_lock_result:
  "HandleNetworkFrame demo_svc_env c (demo_lock i) [] demo_service = Some ([SIpc (lock_command (demo_lock i) [])],
     demo_service\<lparr>sv_diag := IncrementProcessedMessages (sv_diag demo_service), sv_pendingLockClientId := c, sv_pendingLockMessageId := i\<rparr>)"
proof -
  obtain q where "sv_ipc demo_service = Some q" "ps_isConnected q" "ps_hPipe q = Some 7"
    using demo_service_sel(6) by blast
  then show ?thesis
    using lock_forwarded [of "demo_lock i" demo_service q demo_svc_env "[]" c] by (simp add: lock_verdict_def del: opcode.simps)
qed

text \<open>The witness: a frame with an empty payload from a phone that is not paired locks the workstation.\<close>

theorem lock_forwarded_exact_witness:
  "\<exists>outs t. HandleNetworkFrame demo_svc_env 1 (demo_lock 5) [] demo_service = Some (outs, t) \<and>
     SIpc (lock_command (demo_lock 5) []) \<in> set outs"
proof -
  obtain es where es: "run svc_step demo_service0 es demo_service"
    using demo_service_run by blast
  obtain q where q: "sv_ipc demo_service = Some q" "ps_isConnected q"
    using demo_service_sel(6) by blast
  from lock_forwarded_exact [OF es [unfolded demo_service0_def] demo_service_sel(1) q(1) demo_lock_sel(1) demo_lock_result [of 1 5],
      of "lock_command (demo_lock 5) []"]
  show ?thesis using q(2) demo_lock_result [of 1 5] by auto
qed

section \<open>Lock responses\<close>

definition agent_reply :: "bytes \<Rightarrow> bytes \<Rightarrow> bool" where
  "agent_reply m payload \<longleftrightarrow> (\<exists>h. frame_header_ok h \<and> fh_MessageType h = opcode MT_LOCK_RESPONSE \<and> m = SerializeFrameHeader h @ payload)"

lemma HandleIpc_reply:
  assumes "agent_reply m payload"
  shows "HandleIpcMessage env m s = ipc_lock_response env payload (s\<lparr>sv_diag := IncrementProcessedMessages (sv_diag s)\<rparr>)"
proof -
  from assms obtain h where h: "frame_header_ok h" "fh_MessageType h = opcode MT_LOCK_RESPONSE" "m = SerializeFrameHeader h @ payload"
    by (auto simp: agent_reply_def)
  then have "DeserializeFrameHeader (Some m) = Some h"
    by (simp add: Deserialize_Serialize_FrameHeader)
  with h show ?thesis
    by (cases payload) (simp_all add: HandleIpcMessage_def Let_def del: opcode.simps)
qed

lemma plain_client_upd [simp]:
  "plain_client c k (s\<lparr>sv_diag := d\<rparr>) = plain_client c k s"
  "plain_client c k (s\<lparr>sv_pendingLockClientId := i\<rparr>) = plain_client c k s"
  "plain_client c k (s\<lparr>sv_pendingLockMessageId := j\<rparr>) = plain_client c k s"
  "plain_client c k (Svc_SetState st s) = plain_client c k s"
  by (simp_all add: plain_client_def Svc_SetState_def)

text \<open>The answer goes to the client that waits, with the number of its request; with no such client only the state changes.\<close>

definition lock_answered :: "('c, 'w) MobileUnlockService \<Rightarrow> ('c, 'w) MobileUnlockService" where
  "lock_answered s = Svc_SetState PC_LOCKED (s\<lparr>sv_diag := IncrementProcessedMessages (sv_diag s), sv_pendingLockClientId := 0\<rparr>)"

definition lock_logged :: "('c, 'w) MobileUnlockService \<Rightarrow> svc_out list" where
  "lock_logged s = svc_log EV_LOCK_EXECUTED LL_Info ''Workstation successfully locked via UserSessionAgent remote lock.'' s"

lemma svc_log_state: "svc_log ev l m (lock_answered s) = svc_log ev l m s"
  by (simp add: svc_log_def lock_answered_def Svc_SetState_def)

lemma reply_delivered:
  assumes "agent_reply m payload" "plain_client (sv_pendingLockClientId s) k s" "sv_pendingLockClientId s \<noteq> 0"
  shows "HandleIpcMessage env m s = Some (SNet (NSend k (SerializeFrameHeader
      (svc_header MT_LOCK_RESPONSE (sv_pendingLockMessageId s) 2 payload) @ payload)) # lock_logged s, lock_answered s)"
proof -
  have "sv_net s \<noteq> None" using assms(2) by (auto simp: plain_client_def split: option.splits)
  moreover have "plain_client (sv_pendingLockClientId s) k (s\<lparr>sv_diag := IncrementProcessedMessages (sv_diag s), sv_pendingLockClientId := 0\<rparr>)"
    using assms(2) by (simp add: plain_client_def)
  ultimately show ?thesis
    using assms(3) svc_log_state [of EV_LOCK_EXECUTED LL_Info _ s]
    by (simp add: HandleIpc_reply [OF assms(1)] ipc_lock_response_def svc_SendFrame_plain lock_logged_def lock_answered_def Let_def)
qed

lemma reply_dropped:
  assumes "agent_reply m payload" "sv_pendingLockClientId s = 0"
  shows "HandleIpcMessage env m s = Some (lock_logged s, lock_answered s)"
  using assms(2) svc_log_state [of EV_LOCK_EXECUTED LL_Info _ s]
  by (simp add: HandleIpc_reply [OF assms(1)] ipc_lock_response_def lock_logged_def lock_answered_def Let_def)

text \<open>Only one lock request can wait. When a second request reaches the agent before it has answered the first, the first answer of
  the agent goes to the second client, under the number of the second request, and its second answer goes to nobody: the
  first client gets none. The service counts the workstation as locked whatever the answers say.\<close>

theorem second_lock_request_displaces:
  assumes "sv_ipc s = Some q" "ps_isConnected q" "ps_hPipe q \<noteq> None"
    and "fh_MessageType h1 = opcode MT_LOCK_REQUEST" "lock_verdict (ve_api env) p1 (sv_reg s) = Some True"
    and "fh_MessageType h2 = opcode MT_LOCK_REQUEST" "lock_verdict (ve_api env) p2 (sv_reg s) = Some True"
    and "plain_client c2 k s" "c2 \<noteq> 0" "agent_reply m1 a1" "agent_reply m2 a2"
  shows "\<exists>t1 t2 t3 t4. HandleNetworkFrame env c1 h1 p1 s = Some ([SIpc (lock_command h1 p1)], t1) \<and>
    HandleNetworkFrame env c2 h2 p2 t1 = Some ([SIpc (lock_command h2 p2)], t2) \<and>
    HandleIpcMessage env m1 t2 = Some (SNet (NSend k (SerializeFrameHeader
      (svc_header MT_LOCK_RESPONSE (fh_MessageID h2) 2 a1) @ a1)) # lock_logged s, t3) \<and>
    HandleIpcMessage env m2 t3 = Some (lock_logged s, t4) \<and> sv_currentState t4 = PC_LOCKED"
proof -
  let ?t = "\<lambda>s c h. s\<lparr>sv_diag := IncrementProcessedMessages (sv_diag s), sv_pendingLockClientId := c, sv_pendingLockMessageId := fh_MessageID h\<rparr>"
  let ?t2 = "?t (?t s c1 h1) c2 h2"
  have "HandleNetworkFrame env c1 h1 p1 s = Some ([SIpc (lock_command h1 p1)], ?t s c1 h1)"
    by (rule lock_forwarded [OF assms(4,1,2,3,5)])
  moreover have "HandleNetworkFrame env c2 h2 p2 (?t s c1 h1) = Some ([SIpc (lock_command h2 p2)], ?t2)"
    by (rule lock_forwarded [OF assms(6)]) (use assms in auto)
  moreover have "HandleIpcMessage env m1 ?t2 = Some (SNet (NSend k (SerializeFrameHeader
      (svc_header MT_LOCK_RESPONSE (fh_MessageID h2) 2 a1) @ a1)) # lock_logged ?t2, lock_answered ?t2)"
    using reply_delivered [OF assms(10), of ?t2 k] assms(8,9) by (simp add: plain_client_def)
  moreover have "HandleIpcMessage env m2 (lock_answered ?t2) = Some (lock_logged (lock_answered ?t2), lock_answered (lock_answered ?t2))"
    by (rule reply_dropped [OF assms(11)]) (simp add: lock_answered_def Svc_SetState_def)
  moreover have "lock_logged ?t2 = lock_logged s" "lock_logged (lock_answered ?t2) = lock_logged s"
    "sv_currentState (lock_answered (lock_answered ?t2)) = PC_LOCKED"
    by (simp_all add: lock_logged_def svc_log_def lock_answered_def Svc_SetState_def)
  ultimately show ?thesis by metis
qed

definition demo_reply :: "u32 \<Rightarrow> bytes" where
  "demo_reply i = SerializeFrameHeader (svc_header MT_LOCK_RESPONSE i 2 [])"

lemma demo_reply: "agent_reply (demo_reply i) []"
  unfolding agent_reply_def demo_reply_def
  by (intro exI [of _ "svc_header MT_LOCK_RESPONSE i 2 []"] conjI svc_header_ok) simp_all

theorem second_lock_request_displaces_witness:
  "\<exists>t1 t2 t3 t4. HandleNetworkFrame demo_svc_env 2 (demo_lock 5) [] demo_service = Some ([SIpc (lock_command (demo_lock 5) [])], t1) \<and>
    HandleNetworkFrame demo_svc_env 1 (demo_lock 6) [] t1 = Some ([SIpc (lock_command (demo_lock 6) [])], t2) \<and>
    HandleIpcMessage demo_svc_env (demo_reply 5) t2 = Some (SNet (NSend 77 (SerializeFrameHeader
      (svc_header MT_LOCK_RESPONSE 6 2 []))) # lock_logged demo_service, t3) \<and>
    HandleIpcMessage demo_svc_env (demo_reply 6) t3 = Some (lock_logged demo_service, t4) \<and> sv_currentState t4 = PC_LOCKED"
proof -
  obtain q where "sv_ipc demo_service = Some q" "ps_isConnected q" "ps_hPipe q \<noteq> None"
    using demo_service_sel(6) by blast
  from second_lock_request_displaces [OF this, of "demo_lock 5" demo_svc_env "[]" "demo_lock 6" "[]" 1 77 "demo_reply 5" "[]" "demo_reply 6" "[]" 2]
  show ?thesis
    by (simp add: demo_plain_client demo_reply lock_verdict_def del: opcode.simps)
qed

section \<open>The service drives the authentication manager\<close>

text \<open>The service's calls with one registry.\<close>

fun uses_api :: "'w reg_api \<Rightarrow> ('c, 'w) svc_op \<Rightarrow> bool" where
  "uses_api api (VStart a _) \<longleftrightarrow> a = api"
| "uses_api api (VFrame env _ _ _) \<longleftrightarrow> ve_api env = api"
| "uses_api api (VMessage env _) \<longleftrightarrow> ve_api env = api"
| "uses_api api _ \<longleftrightarrow> True"

definition svc_step_on ::
  "'w reg_api \<Rightarrow> ('c, 'w) MobileUnlockService \<Rightarrow> ('c, 'w) svc_op \<times> svc_out list \<Rightarrow> ('c, 'w) MobileUnlockService \<Rightarrow> bool" where
  "svc_step_on api s e t \<longleftrightarrow> uses_api api (fst e) \<and> svc_step s e t"

definition auth_part :: "('c, 'w) MobileUnlockService \<Rightarrow> 'w auth_state" where
  "auth_part s = (sv_auth s, sv_crypto s, sv_reg s)"

text \<open>
  The result that the manager gives to an authentication frame: the code that its handler returns in the state in which the service
  receives the frame. In the steps of the service each call is recorded with it.
\<close>

fun answer_code :: "('c, 'w) svc_op \<Rightarrow> ('c, 'w) MobileUnlockService \<Rightarrow> AuthResultCode option" where
  "answer_code (VFrame env c h p) s =
     (if fh_MessageType h = opcode MT_AUTH_REQUEST
      then map_option ar_code (HandleAuthRequest (ve_api env) (ve_cng env) (ve_nowMs env) (request_device (ve_garbage env) p) h
             FrameHeader_init (sv_auth s) (sv_crypto s) (sv_reg s))
      else if fh_MessageType h = opcode MT_AUTH_RESPONSE
      then map_option ar_code (HandleAuthResponse (ve_api env) (ve_cng env) (ve_nowFt env) (ve_nowMs env) h p
             (sv_auth s) (sv_crypto s) (sv_reg s))
      else None)"
| "answer_code _ s = None"

definition svc_step_coded ::
  "'w reg_api \<Rightarrow> ('c, 'w) MobileUnlockService \<Rightarrow> (('c, 'w) svc_op \<times> svc_out list) \<times> AuthResultCode option \<Rightarrow>
   ('c, 'w) MobileUnlockService \<Rightarrow> bool" where
  "svc_step_coded api s e t \<longleftrightarrow> svc_step_on api s (fst e) t \<and> snd e = answer_code (fst (fst e)) s"

lemma svc_step_coded_iff: "svc_step_coded api s (e, code) t \<longleftrightarrow> svc_step_on api s e t \<and> code = answer_code (fst e) s"
  by (simp add: svc_step_coded_def)

text \<open>Every history of the service can be recorded in this way, and in one way only.\<close>

lemma run_coded: "run (svc_step_on api) s es t \<Longrightarrow> \<exists>!ces. map fst ces = es \<and> run (svc_step_coded api) s ces t"
proof (induction rule: run.induct)
  case (run_Cons s e s' es s'')
  have det: "s1 = s'" if "svc_step_on api s e s1" for s1
    using that run_Cons.hyps(1) by (cases "fst e") (auto simp: svc_step_on_def svc_step_def)
  from run_Cons.IH obtain ces where ces: "map fst ces = es" "run (svc_step_coded api) s' ces s''"
    "\<And>ces'. map fst ces' = es \<Longrightarrow> run (svc_step_coded api) s' ces' s'' \<Longrightarrow> ces' = ces" by blast
  show ?case
  proof (intro ex1I conjI)
    show "run (svc_step_coded api) s ((e, answer_code (fst e) s) # ces) s''"
      using run_Cons.hyps(1) ces(2) by (auto simp: svc_step_coded_iff)
  next
    fix ces'
    assume "map fst ces' = e # es \<and> run (svc_step_coded api) s ces' s''"
    then show "ces' = (e, answer_code (fst e) s) # ces"
      using det ces(3) by (auto simp: svc_step_coded_iff)
  qed (simp add: ces(1))
qed auto

text \<open>
  What a call of the service, recorded with its result, means to the manager: the two authentication frames are its two handlers, on
  the device and the payload of the frame and with the same result; nothing else reaches it.
\<close>

fun auth_view :: "(('c, 'w) svc_op \<times> svc_out list) \<times> AuthResultCode option \<Rightarrow> 'w auth_op \<times> AuthResultCode option \<Rightarrow> bool" where
  "auth_view ((VFrame env c h p, outs), code) a \<longleftrightarrow>
     (if fh_MessageType h = opcode MT_AUTH_REQUEST
      then a = (OpAuthRequest (ve_cng env) (ve_nowMs env) (request_device (ve_garbage env) p) h FrameHeader_init, code)
      else if fh_MessageType h = opcode MT_AUTH_RESPONSE
      then a = (OpAuthResponse (ve_cng env) (ve_nowFt env) (ve_nowMs env) h p, code)
      else code = None \<and> (\<exists>cs reg. a = (OpElsewhere cs reg, None)))"
| "auth_view ((_, outs), code) a \<longleftrightarrow> code = None \<and> (\<exists>cs reg. a = (OpElsewhere cs reg, None))"

lemma svc_SendFrame_auth: "svc_SendFrame env c h p s = Some (outs, t) \<Longrightarrow> auth_part t = auth_part s"
  using svc_SendFrame_frame(1) [of env c h p s outs t] by (auto simp: auth_part_def)

lemma auth_part_upd [simp]:
  "auth_part (s\<lparr>sv_diag := d\<rparr>) = auth_part s" "auth_part (s\<lparr>sv_config := x\<rparr>) = auth_part s"
  "auth_part (s\<lparr>sv_pendingLockClientId := i\<rparr>) = auth_part s"
  "auth_part (s\<lparr>sv_pendingLockClientId := i, sv_pendingLockMessageId := j\<rparr>) = auth_part s"
  "auth_part (s\<lparr>sv_ipc := p\<rparr>) = auth_part s" "auth_part (s\<lparr>sv_net := e\<rparr>) = auth_part s" "auth_part (s\<lparr>sv_mdns := r\<rparr>) = auth_part s"
  "auth_part (s\<lparr>sv_isRunning := b\<rparr>) = auth_part s" "auth_part (Svc_SetState st s) = auth_part s"
  "auth_part (s\<lparr>sv_serviceStatus := ss, sv_checkPoint := n\<rparr>) = auth_part s"
  by (simp_all add: auth_part_def Svc_SetState_def)

lemma Start_auth: "StartServiceComponents api env s = Some (b, outs, t) \<Longrightarrow> auth_part t = auth_part s"
  by (auto simp: StartServiceComponents_def start_ipc_def start_network_def start_discovery_def Let_def case_prod_unfold
      bind_eq_Some_conv split: if_splits)

lemma Stop_auth: "auth_part (snd (StopServiceComponents s)) = auth_part s"
  by (simp add: StopServiceComponents_def Let_def)

lemma Report_auth: "auth_part (snd (ReportServiceStatus st c w s)) = auth_part s"
  by (simp add: ReportServiceStatus_def Let_def)

lemma Ipc_auth: "HandleIpcMessage env m s = Some (outs, t) \<Longrightarrow> auth_part t = auth_part s"
  by (auto simp: HandleIpcMessage_def ipc_lock_response_def Let_def bind_eq_Some_conv simp del: opcode.simps
      split: option.splits if_splits dest!: svc_SendIpc_frame dest: svc_SendFrame_auth)

lemma lock_auth: "net_lock_request env c h p s = Some (outs, t) \<Longrightarrow> auth_part t = auth_part s"
  by (auto simp: net_lock_request_alt lock_refused_def Let_def bind_eq_Some_conv
      split: if_splits option.splits dest!: svc_SendIpc_frame dest: svc_SendFrame_auth)

lemma frame_elsewhere:
  assumes "HandleNetworkFrame env c h p s = Some (outs, t)"
    and "fh_MessageType h \<noteq> opcode MT_AUTH_REQUEST" "fh_MessageType h \<noteq> opcode MT_AUTH_RESPONSE"
  shows "auth_part t = auth_part s"
  using assms by (auto simp: HandleNetworkFrame_def Let_def simp del: opcode.simps
      split: if_splits dest: svc_SendFrame_auth lock_auth)

lemma auth_step_elsewhere: "auth_step api (auth_part s) (OpElsewhere (sv_crypto s) (sv_reg s), None) (auth_part s)"
  by (simp add: auth_step_def auth_part_def)

lemma frame_refines:
  assumes "HandleNetworkFrame env c h p s = Some (outs, t)"
  shows "\<exists>a. auth_view ((VFrame env c h p, outs), answer_code (VFrame env c h p) s) a \<and> auth_step (ve_api env) (auth_part s) a (auth_part t)"
proof -
  consider (req) "fh_MessageType h = opcode MT_AUTH_REQUEST" | (resp) "fh_MessageType h = opcode MT_AUTH_RESPONSE"
    | (other) "fh_MessageType h \<noteq> opcode MT_AUTH_REQUEST" "fh_MessageType h \<noteq> opcode MT_AUTH_RESPONSE" by blast
  then show ?thesis
  proof cases
    case req
    with assms obtain r where "HandleAuthRequest (ve_api env) (ve_cng env) (ve_nowMs env) (request_device (ve_garbage env) p) h FrameHeader_init
        (sv_auth s) (sv_crypto s) (sv_reg s) = Some r" "auth_part t = (ar_am r, ar_crypto r, ar_reg r)"
      by (auto simp: HandleNetworkFrame_def net_auth_request_def Let_def bind_eq_Some_conv auth_part_def [of "_\<lparr>sv_auth := _\<rparr>"]
          simp del: opcode.simps dest!: svc_SendFrame_auth) (auto simp: auth_part_def)
    with req show ?thesis
      by (intro exI [of _ "(OpAuthRequest (ve_cng env) (ve_nowMs env) (request_device (ve_garbage env) p) h FrameHeader_init, Some (ar_code r))"])
        (simp add: auth_step_def auth_part_def del: opcode.simps)
  next
    case resp
    with assms obtain r where "HandleAuthResponse (ve_api env) (ve_cng env) (ve_nowFt env) (ve_nowMs env) h p
        (sv_auth s) (sv_crypto s) (sv_reg s) = Some r" "auth_part t = (ar_am r, ar_crypto r, ar_reg r)"
      by (auto simp: HandleNetworkFrame_def net_auth_response_def Let_def bind_eq_Some_conv
          simp del: opcode.simps dest!: svc_SendFrame_auth) (auto simp: auth_part_def)
    with resp show ?thesis
      by (intro exI [of _ "(OpAuthResponse (ve_cng env) (ve_nowFt env) (ve_nowMs env) h p, Some (ar_code r))"])
        (simp add: auth_step_def auth_part_def del: opcode.simps)
  next
    case other
    then show ?thesis
      using frame_elsewhere [OF assms] auth_step_elsewhere [of "ve_api env" s] by (auto simp del: opcode.simps)
  qed
qed

lemma step_elsewhere:
  assumes "svc_step_on api s (op, outs) t" "\<And>env c h p. op \<noteq> VFrame env c h p"
  shows "auth_part t = auth_part s"
  using assms by (cases op)
    (auto simp: svc_step_on_def svc_step_def ServiceHandlerEx_def case_prod_unfold Let_def Report_auth Stop_auth
      split: if_splits dest: Start_auth Ipc_auth, metis Stop_auth snd_conv)

interpretation svc_auth: refinement "svc_step_coded api" "auth_step api" auth_part auth_view
proof
  fix s t :: "('b, 'a) MobileUnlockService" and e
  assume c: "svc_step_coded api s e t"
  obtain op outs code where e: "e = ((op, outs), code)" by (metis surj_pair)
  with c have st: "svc_step_on api s (op, outs) t" and code: "code = answer_code op s"
    by (simp_all add: svc_step_coded_iff)
  show "\<exists>l. auth_view e l \<and> auth_step api (auth_part s) l (auth_part t)"
  proof (cases "\<exists>env c h p. op = VFrame env c h p")
    case True
    then obtain env c h p where op: "op = VFrame env c h p" by blast
    with st have "HandleNetworkFrame env c h p s = Some (outs, t)" "ve_api env = api"
      by (simp_all add: svc_step_on_def svc_step_def)
    then show ?thesis
      unfolding e code op using frame_refines by blast
  next
    case False
    then have "auth_view e (OpElsewhere (sv_crypto s) (sv_reg s), None)"
      by (cases op) (auto simp: e code)
    with False step_elsewhere [OF st] auth_step_elsewhere [of api s] show ?thesis by metis
  qed
qed

section \<open>What the service writes to the pipe\<close>

lemma svc_SendIpc_outs: "svc_SendIpc env m s = Some (outs, t) \<Longrightarrow> SIpc m' \<in> set outs \<Longrightarrow> m' = m"
  by (auto simp: svc_SendIpc_def SendMessageToClient_def split: option.splits if_splits)

lemma svc_SendFrame_outs: "svc_SendFrame env c h p s = Some (outs, t) \<Longrightarrow> SIpc m \<notin> set outs"
  using svc_SendFrame_frame(2) [of env c h p s outs t] by auto

lemma svc_log_outs [simp]: "SIpc m \<notin> set (svc_log ev l msg s)"
  by (auto simp: svc_log_def)

lemma frame_pipe_outs:
  assumes "HandleNetworkFrame env c h p s = Some (outs, t)" "SIpc m \<in> set outs"
  shows "m = lock_command h p"
  using assms by (auto simp: HandleNetworkFrame_def net_auth_request_def net_auth_response_def net_lock_request_alt lock_refused_def
      Let_def bind_eq_Some_conv simp del: opcode.simps split: if_splits option.splits
      dest: svc_SendFrame_outs svc_SendIpc_outs)

lemma message_pipe_outs:
  assumes "HandleIpcMessage env q s = Some (outs, t)" "SIpc m \<in> set outs"
  shows "\<exists>i n. m = SerializeFrameHeader (svc_header MT_PONG i n [])"
  using assms by (auto simp: HandleIpcMessage_def ipc_lock_response_def Let_def bind_eq_Some_conv simp del: opcode.simps
      split: if_splits option.splits dest: svc_SendFrame_outs svc_SendIpc_outs)

lemma start_pipe_outs: "StartServiceComponents api env s = Some (b, outs, t) \<Longrightarrow> SIpc m \<notin> set outs"
  by (auto simp: StartServiceComponents_def start_ipc_def start_network_def start_discovery_def Let_def case_prod_unfold
      bind_eq_Some_conv split: if_splits option.splits)

lemma stop_pipe_outs: "SIpc m \<notin> set (fst (StopServiceComponents s))"
  by (auto simp: StopServiceComponents_def Let_def split: option.splits)

lemma report_pipe_outs: "SIpc m \<notin> set (fst (ReportServiceStatus st c w s))"
  by (simp add: ReportServiceStatus_def Let_def)

lemma pipe_writers:
  assumes "svc_step s (op, outs) t" "SIpc m \<in> set outs"
  shows "(\<exists>env c h p. op = VFrame env c h p \<and> m = lock_command h p) \<or>
    (\<exists>env q i n. op = VMessage env q \<and> m = SerializeFrameHeader (svc_header MT_PONG i n []))"
proof (cases op)
  case (VStart api env)
  with assms start_pipe_outs [of api env s] show ?thesis by (auto simp: svc_step_def)
next
  case VStop
  with assms stop_pipe_outs [of m s] show ?thesis by (auto simp: svc_step_def)
next
  case (VControl k)
  with assms show ?thesis
    by (auto simp: svc_step_def ServiceHandlerEx_def case_prod_unfold Let_def stop_pipe_outs report_pipe_outs split: if_splits)
next
  case (VFrame env c h p)
  with assms frame_pipe_outs [of env c h p s outs t m] show ?thesis by (auto simp: svc_step_def)
next
  case (VMessage env q)
  with assms message_pipe_outs [of env q s outs t m] show ?thesis by (auto simp: svc_step_def)
qed (use assms in \<open>auto simp: svc_step_def\<close>)

lemma service_pipe_frames:
  assumes "svc_step s e t" "SIpc m \<in> set (snd e)"
  shows "\<exists>mt i n p r. m = SerializeFrameHeader (svc_header mt i n p) @ r"
  using pipe_writers [of s "fst e" "snd e" t m] assms unfolding lock_command_def prod.collapse by (metis append_Nil2)

section \<open>The shape of stored challenges\<close>

text \<open>The uninitialised identifier still has sixteen bytes, and the system's generator fills the buffer it is given.\<close>

definition fills_buffer :: "cng_api \<Rightarrow> bool" where
  "fills_buffer cng \<longleftrightarrow> (\<forall>h n. length (snd (bc_random cng h n)) = n)"

fun typed_op :: "('c, 'w) svc_op \<Rightarrow> bool" where
  "typed_op (VFrame env c h p) \<longleftrightarrow> length (ve_garbage env) = 16 \<and> fills_buffer (ve_cng env)"
| "typed_op _ \<longleftrightarrow> True"

definition challenge_typed :: "string \<Rightarrow> ActiveChallenge \<Rightarrow> bool" where
  "challenge_typed d ch \<longleftrightarrow> d = DeviceIdToString (ac_deviceId ch) \<and> length (ac_deviceId ch) = 16 \<and> length (ac_nonce ch) = 32"

definition manager_typed :: "AuthenticationManager \<Rightarrow> bool" where
  "manager_typed am \<longleftrightarrow> (\<forall>d ch. am_activeChallenges am d = Some ch \<longrightarrow> challenge_typed d ch)"

lemma length_request_device: "length g = 16 \<Longrightarrow> length (request_device g p) = 16"
  by (simp add: request_device_def json_device_def Let_def split: option.splits)

lemma random_length: "fills_buffer cng \<Longrightarrow> fst (GenerateRandomBytes cng n cs) = Some nonce \<Longrightarrow> length nonce = n"
  unfolding fills_buffer_def
  by (auto simp: GenerateRandomBytes_def Let_def case_prod_unfold split: if_splits)

lemma request_typed:
  assumes "HandleAuthRequest api cng n dev h out am cs reg = Some r" "length dev = 16" "fills_buffer cng" "manager_typed am"
  shows "manager_typed (ar_am r)"
  using assms(1)
proof (cases rule: HandleAuthRequest_cases)
  case limited
  with assms(4) show ?thesis by simp
next
  case (refused am1)
  with assms(4) auth_IsRateLimited_frame(1) [OF refused(1)] show ?thesis by (auto simp: manager_typed_def)
next
  case (issued am1 nonce rec)
  have "length nonce = 32" by (rule random_length [OF assms(3) issued(6)])
  with issued assms(2,4) auth_IsRateLimited_frame(1) [OF issued(1)] show ?thesis
    by (auto simp: manager_typed_def challenge_typed_def)
qed

lemma response_typed:
  assumes "HandleAuthResponse api cng ft n h p am cs reg = Some r" "manager_typed am"
  shows "manager_typed (ar_am r)"
proof -
  have c: "challenge_typed d (ch\<lparr>ac_isConsumed := True\<rparr>) = challenge_typed d ch" for d ch
    by (simp add: challenge_typed_def)
  from assms(1) show ?thesis
  proof (cases rule: HandleAuthResponse_cases)
    case (failed m sig am1 am2)
    with assms(2) auth_IsRateLimited_frame(1) [OF failed(2)] c show ?thesis by (auto simp: manager_typed_def split: if_splits)
  next
    case (success m sig am1 rec ch)
    with assms(2) auth_IsRateLimited_frame(1) [OF success(2)] c show ?thesis by (auto simp: manager_typed_def split: if_splits)
  qed (use assms(2) in simp_all)
qed

interpretation svc_typed: invariant_machine "\<lambda>s e t. typed_op (fst e) \<and> svc_step s e t" "\<lambda>s. manager_typed (sv_auth s)"
proof
  fix s t :: "('a, 'b) MobileUnlockService" and e
  assume inv: "manager_typed (sv_auth s)" and "typed_op (fst e) \<and> svc_step s e t"
  then have ty: "typed_op (fst e)" and st: "svc_step s e t" by auto
  obtain op outs where e: "e = (op, outs)" by (cases e)
  define api where "api = (case op of VStart a _ \<Rightarrow> a | VFrame env _ _ _ \<Rightarrow> ve_api env | VMessage env _ \<Rightarrow> ve_api env | _ \<Rightarrow> undefined)"
  have "svc_step_coded api s (e, answer_code op s) t"
    using st by (cases op) (auto simp: svc_step_coded_def svc_step_on_def e api_def)
  then obtain a where a: "auth_view (e, answer_code op s) a" "auth_step api (auth_part s) a (auth_part t)"
    using svc_auth.refines by blast
  show "manager_typed (sv_auth t)"
  proof (cases op)
    case (VFrame env c h p)
    with a ty e inv length_request_device show ?thesis
      by (auto simp: auth_step_def auth_part_def simp del: opcode.simps split: if_splits dest: request_typed response_typed)
  qed (use a inv e in \<open>auto simp: auth_step_def auth_part_def\<close>)
qed

text \<open>C25: the stored challenges are well typed. In every history of the service, each challenge is filed under the text of
  its own device identifier, which has sixteen bytes, and its nonce has thirty-two, also when the identifier was never
  initialised; so a challenge is found again by the device it was issued to.\<close>

theorem challenges_typed:
  assumes "run svc_step (MobileUnlockService_new config now logger AuthenticationManager_new cs reg) es s"
    and "\<forall>e\<in>set es. typed_op (fst e)"
    and "am_activeChallenges (sv_auth s) d = Some ch"
  shows "d = DeviceIdToString (ac_deviceId ch) \<and> length (ac_deviceId ch) = 16 \<and> length (ac_nonce ch) = 32"
proof -
  have "run (\<lambda>s e t. typed_op (fst e) \<and> svc_step s e t) (MobileUnlockService_new config now logger AuthenticationManager_new cs reg) es s"
    by (rule run_conj [OF assms(1,2)])
  moreover have "manager_typed (sv_auth (MobileUnlockService_new config now logger AuthenticationManager_new cs reg))"
    by (simp add: MobileUnlockService_new_def AuthenticationManager_new_def manager_typed_def)
  ultimately have "manager_typed (sv_auth s)" by (rule svc_typed.run_inv)
  with assms(3) show ?thesis by (auto simp: manager_typed_def challenge_typed_def)
qed

text \<open>A service without settings in the registry that receives the request of a paired phone.\<close>

definition bare_api :: "sim_world reg_api" where
  "bare_api = sim_api\<lparr>RegOpenKeyExW := \<lambda>_ _ _ _. ERROR_FILE_NOT_FOUND\<rparr>"

definition paired_service0 :: "(nat, sim_world) MobileUnlockService" where
  "paired_service0 = MobileUnlockService_new AppConfig_default 0 (SecurityAuditLogger_new None) AuthenticationManager_new crypto_state_init demo_reg"

definition auth_request :: FrameHeader where
  "auth_request = FrameHeader_init\<lparr>fh_MessageType := opcode MT_AUTH_REQUEST\<rparr>"

lemma demo_fills: "fills_buffer demo_cng"
  by (simp add: fills_buffer_def demo_cng_def)

lemma paired_start:
  obtains outs s where "StartServiceComponents bare_api demo_start paired_service0 = Some (True, outs, s)" "sv_net s \<noteq> None"
    "auth_part s = (AuthenticationManager_new, crypto_state_init, demo_reg)"
proof -
  have "LoadConfiguration bare_api n w AppConfig_default = Some (True, AppConfig_default)" for n w
    by (simp add: LoadConfiguration_def bare_api_def win32_consts)
  then have "\<exists>outs s. StartServiceComponents bare_api demo_start paired_service0 = Some (True, outs, s) \<and> sv_net s \<noteq> None"
    by (simp add: paired_service0_def StartServiceComponents_def MobileUnlockService_new_def start_ipc_def start_network_def
        start_discovery_def demo_start_def Net_Start_def sample_env_def Ipc_Start_def NamedPipeServer_new_def NetworkEngine_new_def
        Mdns_Start_def MdnsResponder_new_def Svc_SetState_def Mdns_SetState_def Let_def)
  moreover have "auth_part paired_service0 = (AuthenticationManager_new, crypto_state_init, demo_reg)"
    by (simp add: auth_part_def paired_service0_def MobileUnlockService_new_def)
  ultimately show thesis using that Start_auth by metis
qed

text \<open>A frame from that phone which its manager answers, and the state that is left.\<close>

lemma paired_frame:
  assumes "sv_net s \<noteq> None" "fh_MessageType h \<in> {opcode MT_AUTH_REQUEST, opcode MT_AUTH_RESPONSE}"
    and "if fh_MessageType h = opcode MT_AUTH_REQUEST
      then HandleAuthRequest (ve_api env) (ve_cng env) (ve_nowMs env) (request_device (ve_garbage env) p) h FrameHeader_init
        (sv_auth s) (sv_crypto s) (sv_reg s) = Some r
      else HandleAuthResponse (ve_api env) (ve_cng env) (ve_nowFt env) (ve_nowMs env) h p (sv_auth s) (sv_crypto s) (sv_reg s) = Some r"
  obtains outs t where "HandleNetworkFrame env c h p s = Some (outs, t)" "auth_part t = (ar_am r, ar_crypto r, ar_reg r)"
    "sv_net t \<noteq> None" "answer_code (VFrame env c h p) s = Some (ar_code r)"
proof -
  let ?s = "s\<lparr>sv_diag := IncrementProcessedMessages (sv_diag s), sv_auth := ar_am r, sv_crypto := ar_crypto r, sv_reg := ar_reg r\<rparr>"
  obtain outs t where t: "svc_SendFrame env c (ar_header r) (ar_payload r) ?s = Some (outs, t)"
    using svc_SendFrame_defined [of ?s env c] assms(1) by fastforce
  then have "sv_net t \<noteq> None"
    by (auto simp: svc_SendFrame_def split: option.splits prod.splits)
  moreover have "HandleNetworkFrame env c h p s = Some (outs, t)"
    using t assms(2,3) by (auto simp: HandleNetworkFrame_def net_auth_request_def net_auth_response_def Let_def split: if_splits)
  moreover have "answer_code (VFrame env c h p) s = Some (ar_code r)"
    using assms(2,3) by (auto split: if_splits)
  ultimately show thesis
    using that svc_SendFrame_auth [OF t] by (simp add: auth_part_def)
qed

lemma paired_request:
  assumes "auth_part s = (AuthenticationManager_new, crypto_state_init, demo_reg)" "sv_net s \<noteq> None"
  obtains outs t ch where "HandleNetworkFrame demo_svc_env 1 auth_request (dr_deviceId demo_record) s = Some (outs, t)"
    "am_activeChallenges (sv_auth t) demo_dev = Some ch"
proof -
  have dev: "request_device g (dr_deviceId demo_record) = dr_deviceId demo_record" for g
    by (simp add: request_device_def demo_record_def sample_record_def)
  obtain r where r: "HandleAuthRequest sim_api demo_cng 1000 (dr_deviceId demo_record) auth_request FrameHeader_init AuthenticationManager_new
      crypto_state_init demo_reg = Some r" "ar_am r = demo_issued AuthenticationManager_new"
    using demo_request [OF new_unlimited(1)] by blast
  obtain outs t where t: "HandleNetworkFrame demo_svc_env 1 auth_request (dr_deviceId demo_record) s = Some (outs, t)"
    "auth_part t = (ar_am r, ar_crypto r, ar_reg r)"
    by (rule paired_frame [OF assms(2), of auth_request demo_svc_env "dr_deviceId demo_record" r 1])
      (use assms(1) r(1) in \<open>simp_all add: auth_part_def demo_svc_env_def dev auth_request_def [THEN arg_cong, of fh_MessageType]\<close>)
  moreover have "am_activeChallenges (sv_auth t) demo_dev = Some (demo_challenge (am_sessionCounter AuthenticationManager_new))"
    using t(2) r(2) by (simp add: auth_part_def demo_issued_def)
  ultimately show thesis using that by blast
qed

text \<open>The phone asks for a challenge and answers it a second later.\<close>

definition paired_service :: "(nat, sim_world) MobileUnlockService" where
  "paired_service = demo_service\<lparr>sv_auth := AuthenticationManager_new, sv_crypto := crypto_state_init, sv_reg := demo_reg\<rparr>"

definition auth_response :: FrameHeader where
  "auth_response = FrameHeader_init\<lparr>fh_MessageType := opcode MT_AUTH_RESPONSE\<rparr>"

lemma paired_round:
  obtains o1 o2 t where "run (svc_step_coded sim_api) paired_service
    [((VFrame demo_svc_env 1 auth_request (dr_deviceId demo_record), o1), Some AR_SUCCESS),
     ((VFrame (demo_svc_env\<lparr>ve_nowMs := 2000\<rparr>) 1 auth_response (demo_payload MT_AUTH_RESPONSE 1), o2), Some AR_SUCCESS)] t"
proof -
  have dev: "request_device g (dr_deviceId demo_record) = dr_deviceId demo_record" for g
    by (simp add: request_device_def demo_record_def sample_record_def)
  obtain r1 where r1: "HandleAuthRequest sim_api demo_cng 1000 (dr_deviceId demo_record) auth_request FrameHeader_init AuthenticationManager_new
      crypto_state_init demo_reg = Some r1" "ar_code r1 = AR_SUCCESS" "ar_am r1 = demo_issued AuthenticationManager_new" "ar_reg r1 = demo_reg"
    using demo_request [OF new_unlimited(1)] by blast
  obtain o1 s1 where s1: "HandleNetworkFrame demo_svc_env 1 auth_request (dr_deviceId demo_record) paired_service = Some (o1, s1)"
    "auth_part s1 = (ar_am r1, ar_crypto r1, ar_reg r1)" "sv_net s1 \<noteq> None"
    "answer_code (VFrame demo_svc_env 1 auth_request (dr_deviceId demo_record)) paired_service = Some (ar_code r1)"
    by (rule paired_frame [of paired_service auth_request demo_svc_env "dr_deviceId demo_record" r1 1])
      (simp_all add: paired_service_def demo_service_sel auth_request_def [THEN arg_cong, of fh_MessageType] demo_svc_env_def dev r1(1))
  obtain r2 where r2: "HandleAuthResponse sim_api demo_cng FILETIME_zero 2000 auth_response (demo_payload MT_AUTH_RESPONSE 1)
      (demo_issued AuthenticationManager_new) (ar_crypto r1) demo_reg = Some r2" "ar_code r2 = AR_SUCCESS"
    using demo_response [OF new_unlimited(1), of MT_AUTH_RESPONSE auth_response "ar_crypto r1"] by (auto simp: new_unlimited)
  obtain o2 t where t: "HandleNetworkFrame (demo_svc_env\<lparr>ve_nowMs := 2000\<rparr>) 1 auth_response (demo_payload MT_AUTH_RESPONSE 1) s1 = Some (o2, t)"
    "answer_code (VFrame (demo_svc_env\<lparr>ve_nowMs := 2000\<rparr>) 1 auth_response (demo_payload MT_AUTH_RESPONSE 1)) s1 = Some (ar_code r2)"
    by (rule paired_frame [OF s1(3), of auth_response "demo_svc_env\<lparr>ve_nowMs := 2000\<rparr>" "demo_payload MT_AUTH_RESPONSE 1" r2 1])
      (use s1(2) r1(3,4) r2(1) in \<open>simp_all add: auth_part_def demo_svc_env_def auth_response_def [THEN arg_cong, of fh_MessageType]\<close>)
  have "ve_api demo_svc_env = sim_api" by (simp add: demo_svc_env_def)
  with s1(1,4) t r1(2) r2(2) show thesis
    by (intro that [of o1 o2 t]) (auto simp: svc_step_coded_iff svc_step_on_def svc_step_def simp del: answer_code.simps)
qed

theorem challenges_typed_witness:
  "\<exists>es s ch. run svc_step paired_service0 es s \<and> am_activeChallenges (sv_auth s) demo_dev = Some ch \<and>
     demo_dev = DeviceIdToString (ac_deviceId ch) \<and> length (ac_deviceId ch) = 16 \<and> length (ac_nonce ch) = 32"
proof -
  obtain o1 s where s: "StartServiceComponents bare_api demo_start paired_service0 = Some (True, o1, s)" "sv_net s \<noteq> None"
    "auth_part s = (AuthenticationManager_new, crypto_state_init, demo_reg)" by (rule paired_start)
  obtain o2 t ch where t: "HandleNetworkFrame demo_svc_env 1 auth_request (dr_deviceId demo_record) s = Some (o2, t)"
    "am_activeChallenges (sv_auth t) demo_dev = Some ch" by (rule paired_request [OF s(3,2)])
  let ?es = "[(VStart bare_api demo_start, o1), (VFrame demo_svc_env 1 auth_request (dr_deviceId demo_record), o2)]"
  have r: "run svc_step paired_service0 ?es t"
    using s(1) t(1) by (auto simp: svc_step_def)
  have "\<forall>e\<in>set ?es. typed_op (fst e)"
    by (simp add: demo_svc_env_def demo_fills)
  from challenges_typed [OF r [unfolded paired_service0_def] this t(2)] r t(2) show ?thesis by blast
qed

end
