(* ===== verification/Agent.thy ===== *)
theory Agent
  imports Protocol Ipc Config
begin

text \<open>
  \<^verbatim>\<open>windows/user_session_agent/UserSessionAgent.h/.cpp\<close>: the program in the user's session that locks the workstation. The session
  queries, the lock function and the pipe's answers are inputs of one turn of its loop; what it writes to the pipe and its calls of
  the lock function are outputs. A wait on the pipe that does not end leaves the turn without a result. Console output is left out.
\<close>

section \<open>Sessions\<close>

datatype WTS_CONNECTSTATE_CLASS =
    WTSActive | WTSConnected | WTSConnectQuery | WTSShadow | WTSDisconnected | WTSIdle | WTSListen | WTSReset | WTSDown | WTSInit

record SessionInfo =
  si_SessionId :: u32
  si_UserName :: wstring
  si_DomainName :: wstring
  si_ConnectState :: WTS_CONNECTSTATE_CLASS
  si_IsActiveInteractive :: bool

definition SessionInfo_new :: SessionInfo where
  "SessionInfo_new = \<lparr>si_SessionId = 0xFFFFFFFF, si_UserName = [], si_DomainName = [], si_ConnectState = WTSDisconnected,
     si_IsActiveInteractive = False\<rparr>"

text \<open>The console session and the three queries about it, \<open>None\<close> for a query that fails or returns no buffer.\<close>

record wts_env =
  wts_console :: u32
  wts_userName :: "u32 \<Rightarrow> wstring option"
  wts_domainName :: "u32 \<Rightarrow> wstring option"
  wts_connectState :: "u32 \<Rightarrow> WTS_CONNECTSTATE_CLASS option"

definition DiscoverCurrentSession :: "wts_env \<Rightarrow> SessionInfo" where
  "DiscoverCurrentSession w =
     (let info = SessionInfo_new\<lparr>si_SessionId := wts_console w\<rparr> in
      if si_SessionId info = 0xFFFFFFFF then info
      else
        let sid = si_SessionId info;
            info = (case wts_userName w sid of None \<Rightarrow> info | Some n \<Rightarrow> info\<lparr>si_UserName := n\<rparr>);
            info = (case wts_domainName w sid of None \<Rightarrow> info | Some n \<Rightarrow> info\<lparr>si_DomainName := n\<rparr>)
        in case wts_connectState w sid of
             None \<Rightarrow> info
           | Some st \<Rightarrow> info\<lparr>si_ConnectState := st, si_IsActiveInteractive := (st = WTSActive)\<rparr>)"

section \<open>The lock function\<close>

text \<open>
  The default function looks \<^verbatim>\<open>LockWorkStation\<close> up once and keeps the address in a static variable: the cached address,
  what the three loader calls answer, and what the function answers.
\<close>

record user32_env =
  u32_moduleHandle :: "nat option"
  u32_loadLibrary :: "nat option"
  u32_procAddress :: "nat \<Rightarrow> nat option"
  u32_call :: "nat \<Rightarrow> bool"

definition DefaultLockWorkStation :: "user32_env \<Rightarrow> nat option \<Rightarrow> bool \<times> nat option" where
  "DefaultLockWorkStation u fnLockWS =
     (let fnLockWS = (case fnLockWS of
            Some f \<Rightarrow> Some f
          | None \<Rightarrow>
              let hUser32 = (case u32_moduleHandle u of Some h \<Rightarrow> Some h | None \<Rightarrow> u32_loadLibrary u)
              in case hUser32 of None \<Rightarrow> None | Some h \<Rightarrow> u32_procAddress u h)
      in case fnLockWS of Some f \<Rightarrow> (u32_call u f, fnLockWS) | None \<Rightarrow> (False, fnLockWS))"

text \<open>The function pointer of the agent: the default or an injected one, which is never null.\<close>

datatype lock_fn = DefaultLock | InjectedLock bool

record UserSessionAgent =
  ag_isRunning :: bool
  ag_currentSession :: SessionInfo
  ag_ipcClient :: NamedPipeClient
  ag_lockWorkStationFn :: lock_fn
  ag_fnLockWS :: "nat option"

definition UserSessionAgent_new :: UserSessionAgent where
  "UserSessionAgent_new = \<lparr>ag_isRunning = False, ag_currentSession = SessionInfo_new,
     ag_ipcClient = NamedPipeClient_new SECURE_IPC_PIPE_NAME, ag_lockWorkStationFn = DefaultLock, ag_fnLockWS = None\<rparr>"

definition SetLockFunctionForTesting :: "bool option \<Rightarrow> UserSessionAgent \<Rightarrow> UserSessionAgent" where
  "SetLockFunctionForTesting lockFn a =
     a\<lparr>ag_lockWorkStationFn := (case lockFn of Some f \<Rightarrow> InjectedLock f | None \<Rightarrow> DefaultLock)\<rparr>"

definition Agent_Stop :: "UserSessionAgent \<Rightarrow> UserSessionAgent" where
  "Agent_Stop a = a\<lparr>ag_isRunning := False\<rparr>"

definition call_lock :: "user32_env \<Rightarrow> UserSessionAgent \<Rightarrow> bool \<times> UserSessionAgent" where
  "call_lock u a =
     (case ag_lockWorkStationFn a of
        InjectedLock result \<Rightarrow> (result, a)
      | DefaultLock \<Rightarrow> let (result, f) = DefaultLockWorkStation u (ag_fnLockWS a) in (result, a\<lparr>ag_fnLockWS := f\<rparr>))"

section \<open>Messages\<close>

text \<open>What the system answers in one turn: the attempts to connect, the polls and the read of a message, the writes.\<close>

record agent_env =
  ae_stopped :: bool
  ae_connectStart :: u32
  ae_connectTries :: "(u32 \<times> nat option) list"
  ae_setMode :: bool
  ae_readStart :: u32
  ae_readPolls :: "(nat option \<times> u32) list"
  ae_readFile :: "nat \<Rightarrow> bytes option"
  ae_writeFile :: "bytes \<Rightarrow> nat option"
  ae_user32 :: user32_env
  ae_wts :: wts_env

datatype agent_out = APipe bytes | ALock

definition ConnectToService :: "agent_env \<Rightarrow> UserSessionAgent \<Rightarrow> (bool \<times> UserSessionAgent) option" where
  "ConnectToService env a =
     map_option (\<lambda>(ok, c). (ok, a\<lparr>ag_ipcClient := c\<rparr>))
       (Client_Connect 5000 (ae_connectStart env) (ae_connectTries env) (ae_setMode env) (ag_ipcClient a))"

definition agent_send :: "agent_env \<Rightarrow> bytes \<Rightarrow> UserSessionAgent \<Rightarrow> bool \<times> agent_out list" where
  "agent_send env message a =
     (let (ok, written) = SendMessageToServer (ae_writeFile env) message (ag_ipcClient a)
      in (ok, case written of None \<Rightarrow> [] | Some bs \<Rightarrow> [APipe bs]))"

definition state_report :: "PcState \<Rightarrow> bytes" where
  "state_report state =
     (let payload = bytes_of_string (''{\"state\":'' @ print_u (unat (pc_state_code state)) @ ''}'')
      in SerializeFrameHeader (FrameHeader_init\<lparr>fh_MessageType := opcode MT_STATUS_RESPONSE, fh_MessageID := 1,
           fh_SequenceNumber := 1, fh_PayloadLength := of_nat (length payload)\<rparr>) @ payload)"

definition ReportSessionState :: "agent_env \<Rightarrow> PcState \<Rightarrow> UserSessionAgent \<Rightarrow> (bool \<times> agent_out list \<times> UserSessionAgent) option" where
  "ReportSessionState env state a = do {
     (connected, a) \<leftarrow> (if Client_IsConnected (ag_ipcClient a) then Some (True, a) else ConnectToService env a);
     Some (if \<not> connected then (False, [], a)
           else let (ok, outs) = agent_send env (state_report state) a in (ok, outs, a))
   }"

definition ProcessLockCommand ::
  "user32_env \<Rightarrow> FrameHeader \<Rightarrow> bytes \<Rightarrow> UserSessionAgent \<Rightarrow> bool \<times> FrameHeader \<times> bytes \<times> UserSessionAgent" where
  "ProcessLockCommand u header payload a =
     (let (lockSuccess, a) = call_lock u a;
          outPayload = bytes_of_string (if lockSuccess then ''{\"status\":\"SUCCESS\"}''
            else ''{\"status\":\"FAILURE\",\"reason\":\"LOCK_FAILED\"}'');
          outHeader = \<lparr>fh_Magic = PROTOCOL_MAGIC, fh_MajorVersion = PROTOCOL_MAJOR_VERSION,
            fh_MinorVersion = PROTOCOL_MINOR_VERSION, fh_MessageType = opcode MT_LOCK_RESPONSE, fh_Reserved = 0,
            fh_MessageID = fh_MessageID header, fh_PayloadLength = of_nat (length outPayload),
            fh_SequenceNumber = fh_SequenceNumber header + 1\<rparr>
      in (lockSuccess, outHeader, outPayload, a))"

text \<open>What the agent does with a message it has read.\<close>

definition agent_message :: "agent_env \<Rightarrow> bytes \<Rightarrow> UserSessionAgent \<Rightarrow> agent_out list \<times> UserSessionAgent" where
  "agent_message env data a =
     (case DeserializeFrameHeader (Some data) of
        None \<Rightarrow> ([], a)
      | Some hdr \<Rightarrow>
          let payload = (if length data > FRAME_HEADER_SIZE then drop FRAME_HEADER_SIZE data else []) in
          if fh_MessageType hdr = opcode MT_LOCK_REQUEST
          then
            let (_, respHeader, respPayload, a) = ProcessLockCommand (ae_user32 env) hdr payload a;
                respMsg = SerializeFrameHeader respHeader @ respPayload
            in (ALock # snd (agent_send env respMsg a), a)
          else if fh_MessageType hdr = opcode MT_PING
          then (snd (agent_send env (SerializeFrameHeader (FrameHeader_init\<lparr>fh_MessageType := opcode MT_PONG,
                  fh_MessageID := fh_MessageID hdr, fh_SequenceNumber := fh_SequenceNumber hdr + 1, fh_PayloadLength := 0\<rparr>)) a), a)
          else ([], a))"

section \<open>The loop\<close>

definition refresh_session :: "agent_env \<Rightarrow> UserSessionAgent \<Rightarrow> UserSessionAgent" where
  "refresh_session env a =
     (let latestSession = DiscoverCurrentSession (ae_wts env) in
      if si_ConnectState latestSession \<noteq> si_ConnectState (ag_currentSession a)
      then a\<lparr>ag_currentSession := latestSession\<rparr> else a)"

definition connect_and_report :: "agent_env \<Rightarrow> UserSessionAgent \<Rightarrow> (bool \<times> agent_out list \<times> UserSessionAgent) option" where
  "connect_and_report env a = do {
     (ok, a) \<leftarrow> ConnectToService env a;
     if ok then map_option (\<lambda>(_, outs, a). (True, outs, a)) (ReportSessionState env PC_ONLINE a)
     else Some (False, [], a)
   }"

text \<open>One turn: a lost connection is opened again first, and a turn without one ends there.\<close>

definition agent_iter :: "agent_env \<Rightarrow> UserSessionAgent \<Rightarrow> (agent_out list \<times> UserSessionAgent) option" where
  "agent_iter env a = do {
     (connected, outs, a) \<leftarrow> (if Client_IsConnected (ag_ipcClient a) then Some (True, [], a) else connect_and_report env a);
     if \<not> connected then Some (outs, a)
     else do {
       readRes \<leftarrow> ReadMessageFromServer 1000 (ae_readStart env) (ae_readPolls env) (ae_readFile env) (ag_ipcClient a);
       let (outs', a) = (case readRes of None \<Rightarrow> ([], a) | Some data \<Rightarrow> agent_message env data a);
       Some (outs @ outs', refresh_session env a)
     }
   }"

fun agent_loop :: "agent_env list \<Rightarrow> UserSessionAgent \<Rightarrow> (agent_out list \<times> UserSessionAgent) option" where
  "agent_loop [] a = None"
| "agent_loop (env # envs) a =
     (if ae_stopped env
      then Some ([], (Agent_Stop a)\<lparr>ag_ipcClient := (if Client_IsConnected (ag_ipcClient a) then Disconnect (ag_ipcClient a) else ag_ipcClient a)\<rparr>)
      else do {
        (outs, a) \<leftarrow> agent_iter env a;
        (outs', a) \<leftarrow> agent_loop envs a;
        Some (outs @ outs', a)
      })"

definition Agent_Run :: "agent_env \<Rightarrow> agent_env list \<Rightarrow> UserSessionAgent \<Rightarrow> (agent_out list \<times> UserSessionAgent) option" where
  "Agent_Run env envs a = do {
     let a = a\<lparr>ag_isRunning := True, ag_currentSession := DiscoverCurrentSession (ae_wts env)\<rparr>;
     (_, outs, a) \<leftarrow> connect_and_report env a;
     (outs', a) \<leftarrow> agent_loop envs a;
     Some (outs @ outs', a)
   }"

section \<open>Turns return\<close>

text \<open>Time passes: the tick counts that the two waits read reach their limits.\<close>

definition time_passes :: "agent_env \<Rightarrow> bool" where
  "time_passes env \<longleftrightarrow> (\<exists>t\<in>fst ` set (ae_connectTries env). \<not> t - ae_connectStart env < 5000) \<and>
     (\<exists>t\<in>snd ` set (ae_readPolls env). 1000 \<le> t - ae_readStart env)"

lemma ConnectToService_returns: "time_passes env \<Longrightarrow> \<exists>b a'. ConnectToService env a = Some (b, a')"
  using connect_returns [of "ae_connectTries env" "ae_connectStart env" 5000]
  by (auto simp: ConnectToService_def Client_Connect_def time_passes_def)

lemma connected_after: "ConnectToService env a = Some (True, a') \<Longrightarrow> Client_IsConnected (ag_ipcClient a')"
  by (auto simp: ConnectToService_def Client_Connect_def Client_IsConnected_def split: if_splits option.splits)

lemma connect_and_report_returns: "time_passes env \<Longrightarrow> \<exists>b outs a'. connect_and_report env a = Some (b, outs, a')"
  using ConnectToService_returns [of env a] connected_after [of env a]
  by (auto simp: connect_and_report_def ReportSessionState_def case_prod_unfold Let_def)

lemma Read_returns:
  "time_passes env \<Longrightarrow> \<exists>r. ReadMessageFromServer 1000 (ae_readStart env) (ae_readPolls env) (ae_readFile env) c = Some r"
  using read_wait_returns [of "ae_readPolls env" 1000 "ae_readStart env"]
  by (auto simp: ReadMessageFromServer_def time_passes_def)

lemma agent_iter_returns:
  assumes "time_passes env"
  shows "\<exists>outs a'. agent_iter env a = Some (outs, a')"
proof -
  obtain b outs a1 where "(if Client_IsConnected (ag_ipcClient a) then Some (True, [], a) else connect_and_report env a) = Some (b, outs, a1)"
    using connect_and_report_returns [OF assms, of a] by (cases "Client_IsConnected (ag_ipcClient a)") auto
  moreover obtain r where "ReadMessageFromServer 1000 (ae_readStart env) (ae_readPolls env) (ae_readFile env) (ag_ipcClient a1) = Some r"
    using Read_returns [OF assms] by blast
  ultimately show ?thesis
    by (simp add: agent_iter_def Let_def case_prod_unfold)
qed

lemma agent_loop_returns:
  assumes "\<forall>env\<in>set envs. time_passes env" "\<exists>env\<in>set envs. ae_stopped env"
  shows "\<exists>outs a'. agent_loop envs a = Some (outs, a')"
  using assms
proof (induction envs arbitrary: a)
  case (Cons env envs)
  show ?case
  proof (cases "ae_stopped env")
    case False
    obtain outs a' where "agent_iter env a = Some (outs, a')"
      using agent_iter_returns [of env a] Cons.prems(1) by auto
    moreover obtain outs' a'' where "agent_loop envs a' = Some (outs', a'')"
      using Cons.IH [of a'] Cons.prems False by auto
    ultimately show ?thesis using False by simp
  qed simp
qed simp

lemma Agent_Run_ends:
  assumes "\<forall>e\<in>set (env # envs). time_passes e" "\<exists>e\<in>set envs. ae_stopped e"
  shows "\<exists>outs a'. Agent_Run env envs a = Some (outs, a') \<and> \<not> ag_isRunning a' \<and> \<not> Client_IsConnected (ag_ipcClient a')"
proof -
  have stop: "\<not> ag_isRunning a' \<and> \<not> Client_IsConnected (ag_ipcClient a')" if "agent_loop es b = Some (outs, a')" for es b outs a'
    using that by (induction es arbitrary: b outs)
      (auto simp: Agent_Stop_def Client_IsConnected_def Disconnect_def bind_eq_Some_conv split: if_splits)
  obtain b outs a1 where "connect_and_report env (a\<lparr>ag_isRunning := True, ag_currentSession := DiscoverCurrentSession (ae_wts env)\<rparr>) = Some (b, outs, a1)"
    using connect_and_report_returns assms(1) by fastforce
  moreover obtain outs' a2 where "agent_loop envs a1 = Some (outs', a2)"
    using agent_loop_returns [of envs a1] assms by auto
  ultimately show ?thesis
    using stop by (simp add: Agent_Run_def Let_def)
qed

text \<open>C26: the agent stops when it is told to. If its clock advances past the time limits of its waits in every turn, and in some
  turn it is found stopped, then \<^verbatim>\<open>Run\<close> returns, whatever the pipe, the session queries and the lock function answer.\<close>

theorem agent_run_returns:
  assumes "\<forall>e\<in>set (env # envs). time_passes e" "\<exists>e\<in>set envs. ae_stopped e"
  shows "\<exists>outs a'. Agent_Run env envs a = Some (outs, a') \<and> \<not> ag_isRunning a' \<and> \<not> Client_IsConnected (ag_ipcClient a')"
  using assms by (rule Agent_Run_ends)

definition demo_wts :: wts_env where
  "demo_wts = \<lparr>wts_console = 1, wts_userName = \<lambda>_. Some (wide ''ann''), wts_domainName = \<lambda>_. None, wts_connectState = \<lambda>_. Some WTSActive\<rparr>"

definition demo_user32 :: user32_env where
  "demo_user32 = \<lparr>u32_moduleHandle = None, u32_loadLibrary = Some 11, u32_procAddress = \<lambda>h. Some (h + 1), u32_call = \<lambda>f. f = 12\<rparr>"

definition demo_turn :: "bool \<Rightarrow> bytes \<Rightarrow> agent_env" where
  "demo_turn stopped message = \<lparr>ae_stopped = stopped, ae_connectStart = 100, ae_connectTries = [(100, None), (200, Some 21), (6000, None)],
     ae_setMode = True, ae_readStart = 300, ae_readPolls = [(Some (length message), 310), (Some 0, 1400)],
     ae_readFile = \<lambda>n. Some message, ae_writeFile = \<lambda>bs. Some (length bs), ae_user32 = demo_user32, ae_wts = demo_wts\<rparr>"

lemma demo_turn_time: "time_passes (demo_turn b m)"
  by (simp add: time_passes_def demo_turn_def)

theorem agent_run_returns_witness:
  "\<exists>outs a'. Agent_Run (demo_turn False []) [demo_turn False [], demo_turn True []] UserSessionAgent_new = Some (outs, a') \<and>
     \<not> ag_isRunning a' \<and> \<not> Client_IsConnected (ag_ipcClient a')"
  by (rule agent_run_returns) (simp_all add: demo_turn_time, simp add: demo_turn_def)

section \<open>The agent answers\<close>

definition lock_outcome :: "bool \<Rightarrow> bytes" where
  "lock_outcome success = bytes_of_string (if success then ''{\"status\":\"SUCCESS\"}'' else ''{\"status\":\"FAILURE\",\"reason\":\"LOCK_FAILED\"}'')"

lemma length_lock_outcome: "length (lock_outcome b) \<le> 43"
  by (simp add: lock_outcome_def bytes_of_string_def)

definition lock_response :: "FrameHeader \<Rightarrow> bytes \<Rightarrow> FrameHeader" where
  "lock_response hdr payload = \<lparr>fh_Magic = PROTOCOL_MAGIC, fh_MajorVersion = PROTOCOL_MAJOR_VERSION,
     fh_MinorVersion = PROTOCOL_MINOR_VERSION, fh_MessageType = opcode MT_LOCK_RESPONSE, fh_Reserved = 0,
     fh_MessageID = fh_MessageID hdr, fh_PayloadLength = of_nat (length payload), fh_SequenceNumber = fh_SequenceNumber hdr + 1\<rparr>"

lemma lock_response_ok: "length payload \<le> 4096 \<Longrightarrow> frame_header_ok (lock_response hdr payload)"
  by (simp add: frame_header_ok_def lock_response_def protocol_consts word_le_nat_alt unat_of_nat take_bit_nat_eq_self del: opcode.simps)

lemma ProcessLockCommand_alt:
  "ProcessLockCommand u h p a = (fst (call_lock u a), lock_response h (lock_outcome (fst (call_lock u a))),
     lock_outcome (fst (call_lock u a)), snd (call_lock u a))"
  by (simp add: ProcessLockCommand_def lock_response_def lock_outcome_def Let_def case_prod_unfold)

lemma call_lock_frame [simp]: "ag_ipcClient (snd (call_lock u a)) = ag_ipcClient a"
  by (simp add: call_lock_def case_prod_unfold Let_def split: lock_fn.splits)

lemma agent_send_connected:
  "Client_IsConnected (ag_ipcClient a) \<Longrightarrow> m \<noteq> [] \<Longrightarrow> snd (agent_send env m a) = [APipe m]"
  by (simp add: agent_send_def SendMessageToServer_def Client_IsConnected_def)

lemma header_nonempty: "SerializeFrameHeader h @ p \<noteq> []"
proof -
  have "length (SerializeFrameHeader h @ p) \<noteq> 0" by (simp add: protocol_consts)
  then show ?thesis by (metis list.size(3))
qed

lemma agent_message_lock:
  assumes "Client_IsConnected (ag_ipcClient a)" "frame_header_ok hdr" "fh_MessageType hdr = opcode MT_LOCK_REQUEST"
  shows "agent_message env (SerializeFrameHeader hdr @ p) a =
    (let ok = fst (call_lock (ae_user32 env) a)
     in ([ALock, APipe (SerializeFrameHeader (lock_response hdr (lock_outcome ok)) @ lock_outcome ok)], snd (call_lock (ae_user32 env) a)))"
  using assms by (simp add: agent_message_def Deserialize_Serialize_FrameHeader ProcessLockCommand_alt Let_def agent_send_connected
      header_nonempty del: opcode.simps append_is_Nil_conv)

lemma agent_iter_message:
  assumes "Client_IsConnected (ag_ipcClient a)"
    and "ReadMessageFromServer 1000 (ae_readStart env) (ae_readPolls env) (ae_readFile env) (ag_ipcClient a) = Some (Some m)"
  shows "agent_iter env a = Some (fst (agent_message env m a), refresh_session env (snd (agent_message env m a)))"
  using assms by (simp add: agent_iter_def Let_def case_prod_unfold)

text \<open>The agent answers every lock command. When a turn of the connected agent reads a LOCK\_REQUEST, it calls the lock
  function once and then writes one LOCK\_RESPONSE, which the other side parses, with the request's message number and the next
  sequence number, and with a payload that says whether the lock function succeeded.\<close>

theorem agent_answers_lock:
  assumes "Client_IsConnected (ag_ipcClient a)" "frame_header_ok hdr" "fh_MessageType hdr = opcode MT_LOCK_REQUEST"
    and "ReadMessageFromServer 1000 (ae_readStart env) (ae_readPolls env) (ae_readFile env) (ag_ipcClient a) =
      Some (Some (SerializeFrameHeader hdr @ p))"
  shows "\<exists>m h a'. agent_iter env a = Some ([ALock, APipe m], a') \<and> DeserializeFrameHeader (Some m) = Some h \<and>
    fh_MessageType h = opcode MT_LOCK_RESPONSE \<and> fh_MessageID h = fh_MessageID hdr \<and> fh_SequenceNumber h = fh_SequenceNumber hdr + 1 \<and>
    drop FRAME_HEADER_SIZE m = lock_outcome (fst (call_lock (ae_user32 env) a))"
proof -
  let ?ok = "fst (call_lock (ae_user32 env) a)"
  let ?h = "lock_response hdr (lock_outcome ?ok)"
  have "length (lock_outcome ?ok) \<le> 4096"
    using length_lock_outcome [of ?ok] by simp
  then have "DeserializeFrameHeader (Some (SerializeFrameHeader ?h @ lock_outcome ?ok)) = Some ?h"
    by (simp add: Deserialize_Serialize_FrameHeader lock_response_ok)
  moreover have "\<exists>a'. agent_iter env a = Some ([ALock, APipe (SerializeFrameHeader ?h @ lock_outcome ?ok)], a')"
    using agent_iter_message [OF assms(1,4)] by (simp add: agent_message_lock [OF assms(1-3)] Let_def)
  moreover have "fh_MessageType ?h = opcode MT_LOCK_RESPONSE" "fh_MessageID ?h = fh_MessageID hdr"
    "fh_SequenceNumber ?h = fh_SequenceNumber hdr + 1"
    by (simp_all add: lock_response_def)
  ultimately show ?thesis
    by (intro exI [of _ "SerializeFrameHeader ?h @ lock_outcome ?ok"] exI [of _ ?h]) simp
qed

definition demo_agent :: UserSessionAgent where
  "demo_agent = UserSessionAgent_new\<lparr>ag_isRunning := True, ag_ipcClient := (NamedPipeClient_new SECURE_IPC_PIPE_NAME)\<lparr>pc_hPipe := Some 21\<rparr>\<rparr>"

definition demo_command :: FrameHeader where
  "demo_command = FrameHeader_init\<lparr>fh_MessageType := opcode MT_LOCK_REQUEST, fh_MessageID := 5, fh_SequenceNumber := 1\<rparr>"

lemma demo_command_ok: "frame_header_ok demo_command" "fh_MessageType demo_command = opcode MT_LOCK_REQUEST"
  by (simp_all add: demo_command_def frame_header_ok_def FrameHeader_init_def protocol_consts del: opcode.simps)

lemma demo_turn_read:
  "m \<noteq> [] \<Longrightarrow> ReadMessageFromServer 1000 (ae_readStart (demo_turn b m)) (ae_readPolls (demo_turn b m)) (ae_readFile (demo_turn b m))
     (ag_ipcClient demo_agent) = Some (Some m)"
  by (simp add: ReadMessageFromServer_def demo_turn_def demo_agent_def)

theorem agent_answers_lock_witness:
  "\<exists>m h a'. agent_iter (demo_turn False (SerializeFrameHeader demo_command @ [])) demo_agent = Some ([ALock, APipe m], a') \<and>
     DeserializeFrameHeader (Some m) = Some h \<and> fh_MessageID h = 5 \<and> drop FRAME_HEADER_SIZE m = lock_outcome True"
proof -
  have "fst (call_lock (ae_user32 (demo_turn b m)) demo_agent)" for b m
    by (simp add: call_lock_def DefaultLockWorkStation_def demo_turn_def demo_agent_def UserSessionAgent_new_def demo_user32_def Let_def)
  moreover have "Client_IsConnected (ag_ipcClient demo_agent)"
    by (simp add: Client_IsConnected_def demo_agent_def)
  moreover have "fh_MessageID demo_command = 5" by (simp add: demo_command_def)
  ultimately show ?thesis
    using agent_answers_lock [OF _ demo_command_ok demo_turn_read [OF header_nonempty]] by metis
qed

section \<open>The connection is never renewed\<close>

lemma agent_message_client: "ag_ipcClient (snd (agent_message env m a)) = ag_ipcClient a"
  by (auto simp: agent_message_def ProcessLockCommand_alt Let_def split: option.splits)

lemma agent_iter_client:
  assumes "agent_iter env a = Some (outs, a')" "Client_IsConnected (ag_ipcClient a)"
  shows "ag_ipcClient a' = ag_ipcClient a"
proof -
  have "ag_ipcClient (refresh_session env b) = ag_ipcClient b" for b
    by (simp add: refresh_session_def Let_def)
  with assms show ?thesis
    by (auto simp: agent_iter_def Let_def case_prod_unfold bind_eq_Some_conv agent_message_client split: option.splits)
qed

definition agent_step :: "UserSessionAgent \<Rightarrow> agent_env \<times> agent_out list \<Rightarrow> UserSessionAgent \<Rightarrow> bool" where
  "agent_step a e a' \<longleftrightarrow> agent_iter (fst e) a = Some (snd e, a')"

interpretation agent_pipe: invariant_machine agent_step "\<lambda>a. ag_ipcClient a = c \<and> Client_IsConnected c"
  by unfold_locales (use agent_iter_client in \<open>force simp: agent_step_def\<close>)

text \<open>The agent does not notice that its pipe is gone. While it has a handle, no turn changes it, whatever peeking, reading
  and writing answer in any number of turns: after a restart of the service the agent stays on the dead pipe and never comes
  to the connection attempt in its loop.\<close>

theorem agent_keeps_pipe:
  assumes "Client_IsConnected (ag_ipcClient a)" "run agent_step a es a'"
  shows "ag_ipcClient a' = ag_ipcClient a"
  using agent_pipe.run_inv [OF assms(2)] assms(1) by blast

text \<open>A turn in which the pipe answers nothing but errors.\<close>

definition dead_turn :: agent_env where
  "dead_turn = (demo_turn False [])\<lparr>ae_readPolls := [(None, 310), (None, 1400)], ae_readFile := \<lambda>_. None, ae_writeFile := \<lambda>_. None\<rparr>"

theorem agent_keeps_pipe_witness:
  "\<exists>a1 a2. run agent_step demo_agent [(dead_turn, []), (dead_turn, [])] a2 \<and> run agent_step demo_agent [(dead_turn, [])] a1 \<and>
     ag_ipcClient a2 = ag_ipcClient demo_agent"
proof -
  have c: "Client_IsConnected (ag_ipcClient demo_agent)"
    by (simp add: Client_IsConnected_def demo_agent_def)
  have step: "agent_step a (dead_turn, []) (refresh_session dead_turn a)" if "Client_IsConnected (ag_ipcClient a)" for a
    using that by (simp add: agent_step_def agent_iter_def ReadMessageFromServer_def dead_turn_def demo_turn_def Client_IsConnected_def)
  define a1 where "a1 = refresh_session dead_turn demo_agent"
  have r1: "run agent_step demo_agent [(dead_turn, [])] a1"
    using step [OF c] by (simp add: a1_def)
  moreover have "Client_IsConnected (ag_ipcClient a1)"
    using agent_keeps_pipe [OF c r1] c by simp
  then have r2: "run agent_step demo_agent [(dead_turn, []), (dead_turn, [])] (refresh_session dead_turn a1)"
    using step [OF c] step [of a1] by (auto simp: a1_def)
  ultimately show ?thesis
    using agent_keeps_pipe [OF c r2] by blast
qed

end
