(* ===== verification/Credential.thy ===== *)
theory Credential
  imports Lsa Ipc
begin

text \<open>
  \<^verbatim>\<open>windows/credential_provider/MobileUnlockCredential.h/.cpp\<close>: the tile on the logon screen. Its status thread polls the service
  and keeps the logon buffer it receives, and \<^verbatim>\<open>GetSerialization\<close> hands the buffer to Winlogon. Null pointer
  arguments are \<open>False\<close> or \<open>None\<close>; the results of system calls are inputs, what the tile does to other objects is an output.
  The critical section makes the guarded blocks atomic; the thread's program is split where it leaves them.
\<close>

section \<open>Result codes and data\<close>

type_synonym HRESULT = u32

definition S_OK :: HRESULT where "S_OK = 0"
definition S_FALSE :: HRESULT where "S_FALSE = 1"
definition E_NOTIMPL :: HRESULT where "E_NOTIMPL = 0x80004001"
definition E_NOINTERFACE :: HRESULT where "E_NOINTERFACE = 0x80004002"
definition E_POINTER :: HRESULT where "E_POINTER = 0x80004003"
definition E_OUTOFMEMORY :: HRESULT where "E_OUTOFMEMORY = 0x8007000E"
definition E_INVALIDARG :: HRESULT where "E_INVALIDARG = 0x80070057"

lemmas hresult_consts = S_OK_def S_FALSE_def E_NOTIMPL_def E_NOINTERFACE_def E_POINTER_def E_OUTOFMEMORY_def E_INVALIDARG_def

datatype GUID = GUID u32 u16 u16 "u8 list"

definition CLSID_MobileUnlockProvider :: GUID where
  "CLSID_MobileUnlockProvider = GUID 0xA82D1234 0x5678 0x90AB [0xCD, 0xEF, 0x12, 0x34, 0x56, 0x78, 0x90, 0xAB]"

definition FIELD_NAME :: u32 where "FIELD_NAME = 0"
definition FIELD_STATUS :: u32 where "FIELD_STATUS = 1"
definition FIELD_COUNT :: u32 where "FIELD_COUNT = 2"

lemmas field_consts = FIELD_NAME_def FIELD_STATUS_def FIELD_COUNT_def

datatype GET_SERIALIZATION_RESPONSE =
    CPGSR_NO_CREDENTIAL_NOT_FINISHED | CPGSR_NO_CREDENTIAL_FINISHED | CPGSR_RETURN_CREDENTIAL_FINISHED | CPGSR_RETURN_NO_CREDENTIAL_FINISHED

record CREDENTIAL_SERIALIZATION =
  ulAuthenticationPackage :: u32
  clsidCredentialProvider :: GUID
  cbSerialization :: u32
  rgbSerialization :: "bytes option"

definition CREDENTIAL_SERIALIZATION_zero :: CREDENTIAL_SERIALIZATION where
  "CREDENTIAL_SERIALIZATION_zero = \<lparr>ulAuthenticationPackage = 0, clsidCredentialProvider = GUID 0 0 0 (replicate 8 0),
     cbSerialization = 0, rgbSerialization = None\<rparr>"

definition LSA_LOGON_BUFFER_zero :: LSA_LOGON_BUFFER where
  "LSA_LOGON_BUFFER_zero = lsa_buffer_of_image (replicate LSA_LOGON_BUFFER_SIZE 0)"

section \<open>Fetching the state from the service\<close>

record IpcStateToken =
  tk_valid :: bool
  tk_lsaBuffer :: LSA_LOGON_BUFFER

text \<open>What the pipe answers to one attempt.\<close>

record fetch_env =
  fe_connectStart :: u32
  fe_connectTries :: "(u32 \<times> nat option) list"
  fe_setMode :: bool
  fe_writeFile :: "bytes \<Rightarrow> nat option"
  fe_readStart :: u32
  fe_readPolls :: "(nat option \<times> u32) list"
  fe_readFile :: "nat \<Rightarrow> bytes option"

definition auth_probe :: bytes where
  "auth_probe = bytes_of_string ''{\"type\":\"AUTH_REQUEST\",\"source\":\"CredentialProvider\"}''"

definition credential_pipe :: wstring where
  "credential_pipe = wide (CHR 0x5C # CHR 0x5C # ''.'' @ CHR 0x5C # ''pipe'' @ CHR 0x5C # ''MobileUnlockSecureIPC'')"

definition no_token :: IpcStateToken where
  "no_token = \<lparr>tk_valid = False, tk_lsaBuffer = LSA_LOGON_BUFFER_zero\<rparr>"

text \<open>The token in the bytes of a response: the structure is copied and its magic and version are checked.\<close>

definition token_of_response :: "bytes \<Rightarrow> IpcStateToken" where
  "token_of_response data =
     (if length data < LSA_LOGON_BUFFER_SIZE then no_token
      else
        let lsaBuffer = lsa_buffer_of_image data;
            token = no_token\<lparr>tk_lsaBuffer := lsaBuffer\<rparr>
        in if lb_Magic lsaBuffer \<noteq> LSA_SUBMIT_BUFFER_MAGIC \<or> lb_Version lsaBuffer \<noteq> LSA_SUBMIT_BUFFER_VERSION then token
           else token\<lparr>tk_valid := True\<rparr>)"

definition FetchAuthState :: "u32 \<Rightarrow> u32 \<Rightarrow> fetch_env \<Rightarrow> IpcStateToken option" where
  "FetchAuthState connectTimeoutMs readTimeoutMs env = do {
     (connected, client) \<leftarrow> Client_Connect connectTimeoutMs (fe_connectStart env) (fe_connectTries env) (fe_setMode env)
       (NamedPipeClient_new credential_pipe);
     if \<not> connected then Some no_token
     else if \<not> fst (SendMessageToServer (fe_writeFile env) auth_probe client) then Some no_token
     else do {
       result \<leftarrow> ReadMessageFromServer readTimeoutMs (fe_readStart env) (fe_readPolls env) (fe_readFile env) client;
       Some (case result of None \<Rightarrow> no_token | Some data \<Rightarrow> token_of_response data)
     }
   }"

section \<open>The tile\<close>

record MobileUnlockCredential =
  cr_cRef :: u32
  cr_credentialEvents :: "nat option"
  cr_statusText :: wstring
  cr_authStateReady :: bool
  cr_internalAuthBuffer :: LSA_LOGON_BUFFER
  cr_hStatusThread :: "nat option"
  cr_stopThread :: bool
  cr_hStopEvent :: "nat option"
  cr_ipcFactory :: bool
  cr_ownsIpcFactory :: bool

datatype cred_out = EventsAddRef nat | EventsRelease nat | SetFieldString nat u32 wstring | SignalEvent nat | WaitThread nat | CloseHandle nat

text \<open>The constructor for tests takes a factory, or none; the production constructor then makes one, if memory allows.\<close>

definition MobileUnlockCredential_with :: "bool \<Rightarrow> MobileUnlockCredential" where
  "MobileUnlockCredential_with factory = \<lparr>cr_cRef = 1, cr_credentialEvents = None, cr_statusText = wide ''Waiting for phone...'',
     cr_authStateReady = False, cr_internalAuthBuffer = LSA_LOGON_BUFFER_zero, cr_hStatusThread = None, cr_stopThread = False,
     cr_hStopEvent = None, cr_ipcFactory = factory, cr_ownsIpcFactory = False\<rparr>"

definition MobileUnlockCredential_new :: "bool \<Rightarrow> MobileUnlockCredential" where
  "MobileUnlockCredential_new allocated = (MobileUnlockCredential_with False)\<lparr>cr_ipcFactory := allocated, cr_ownsIpcFactory := True\<rparr>"

definition SetInternalAuthStateForTesting :: "LSA_LOGON_BUFFER \<Rightarrow> MobileUnlockCredential \<Rightarrow> MobileUnlockCredential" where
  "SetInternalAuthStateForTesting buf c =
     c\<lparr>cr_internalAuthBuffer := buf, cr_authStateReady := True, cr_statusText := wide ''Authentication ready''\<rparr>"

definition ClearInternalAuthState :: "MobileUnlockCredential \<Rightarrow> MobileUnlockCredential" where
  "ClearInternalAuthState c = c\<lparr>cr_internalAuthBuffer := LSA_LOGON_BUFFER_zero, cr_authStateReady := False\<rparr>"

definition UpdateStatusField :: "string \<Rightarrow> MobileUnlockCredential \<Rightarrow> cred_out list \<times> MobileUnlockCredential" where
  "UpdateStatusField text c =
     ((case cr_credentialEvents c of None \<Rightarrow> [] | Some e \<Rightarrow> [SetFieldString e FIELD_STATUS (wide text)]),
      c\<lparr>cr_statusText := wide text\<rparr>)"

text \<open>\<open>event\<close> and \<open>thread\<close> are the handles the two creation calls return.\<close>

definition Cred_Advise ::
  "nat option \<Rightarrow> nat option \<Rightarrow> nat option \<Rightarrow> MobileUnlockCredential \<Rightarrow> HRESULT \<times> cred_out list \<times> MobileUnlockCredential" where
  "Cred_Advise pcpce event thread c =
     (case pcpce of
        None \<Rightarrow> (E_POINTER, [], c)
      | Some e \<Rightarrow>
          let released = (case cr_credentialEvents c of None \<Rightarrow> [] | Some old \<Rightarrow> [EventsRelease old]);
              c = c\<lparr>cr_credentialEvents := Some e\<rparr>;
              c = (if cr_hStatusThread c = None
                then c\<lparr>cr_stopThread := False, cr_hStopEvent := event, cr_hStatusThread := thread\<rparr> else c)
          in (S_OK, released @ [EventsAddRef e], c))"

text \<open>\<^verbatim>\<open>UnAdvise\<close> as one step, as its caller sees it; the source clears \<^verbatim>\<open>m_hStopEvent\<close> after it has left the lock and waited for the thread.\<close>

definition Cred_UnAdvise :: "MobileUnlockCredential \<Rightarrow> HRESULT \<times> cred_out list \<times> MobileUnlockCredential" where
  "Cred_UnAdvise c =
     (let outs_stop = (case cr_hStopEvent c of None \<Rightarrow> [] | Some h \<Rightarrow> [SignalEvent h]);
          outs_events = (case cr_credentialEvents c of None \<Rightarrow> [] | Some e \<Rightarrow> [EventsRelease e]);
          outs_thread = (case cr_hStatusThread c of None \<Rightarrow> [] | Some h \<Rightarrow> [WaitThread h, CloseHandle h]);
          outs_close = (case cr_hStopEvent c of None \<Rightarrow> [] | Some h \<Rightarrow> [CloseHandle h])
      in (S_OK, outs_stop @ outs_events @ outs_thread @ outs_close,
          c\<lparr>cr_stopThread := True, cr_hStatusThread := None, cr_credentialEvents := None, cr_hStopEvent := None\<rparr>))"

text \<open>The destructor: what it does before the memory is released.\<close>

definition MobileUnlockCredential_destroy :: "MobileUnlockCredential \<Rightarrow> cred_out list \<times> MobileUnlockCredential" where
  "MobileUnlockCredential_destroy c =
     (let (_, outs, c) = Cred_UnAdvise c
      in (outs, if cr_ownsIpcFactory c \<and> cr_ipcFactory c then c\<lparr>cr_ipcFactory := False\<rparr> else c))"

section \<open>The status thread\<close>

text \<open>Where a thread is: before the test of its loop, inside \<^verbatim>\<open>FetchAuthState\<close>, or in the wait at the end of a turn.\<close>

datatype thread_pc = AtLoop | InFetch | InWait

definition status_loop_head :: "MobileUnlockCredential \<Rightarrow> cred_out list \<times> thread_pc option \<times> MobileUnlockCredential" where
  "status_loop_head c =
     (if cr_stopThread c then ([], None, ClearInternalAuthState c)
      else if \<not> cr_ipcFactory c
      then (let (outs, c) = UpdateStatusField ''Internal error'' c in (outs, Some InWait, c))
      else ([], Some InFetch, c))"

definition status_fetched :: "IpcStateToken \<Rightarrow> MobileUnlockCredential \<Rightarrow> cred_out list \<times> thread_pc option \<times> MobileUnlockCredential" where
  "status_fetched token c =
     (if cr_stopThread c then ([], None, ClearInternalAuthState c)
      else if tk_valid token
      then
        let c = c\<lparr>cr_internalAuthBuffer := tk_lsaBuffer token, cr_authStateReady := True\<rparr>;
            (outs, c) = UpdateStatusField ''Authentication ready'' c
        in (outs, Some InWait, c)
      else
        let c = c\<lparr>cr_authStateReady := False\<rparr>;
            (outs, c) = UpdateStatusField ''Waiting for phone...'' c
        in (outs, Some InWait, c))"

fun status_thread :: "fetch_env \<Rightarrow> thread_pc \<Rightarrow> MobileUnlockCredential \<Rightarrow> (cred_out list \<times> thread_pc option \<times> MobileUnlockCredential) option" where
  "status_thread env AtLoop c = Some (status_loop_head c)"
| "status_thread env InFetch c = map_option (\<lambda>token. status_fetched token c) (FetchAuthState 5000 5000 env)"
| "status_thread env InWait c = Some ([], Some AtLoop, c)"

section \<open>The calls of Winlogon\<close>

definition SetSelected :: "bool \<Rightarrow> HRESULT \<times> bool option" where
  "SetSelected nonnull = (if \<not> nonnull then (E_POINTER, None) else (S_OK, Some False))"

definition SetDeselected :: "MobileUnlockCredential \<Rightarrow> HRESULT \<times> cred_out list \<times> MobileUnlockCredential" where
  "SetDeselected c = (let (outs, c) = UpdateStatusField ''Waiting for phone...'' (ClearInternalAuthState c) in (S_OK, outs, c))"

text \<open>The field state (displayed in both tiles) and the interactive state (none) of the two fields.\<close>

definition GetFieldState :: "u32 \<Rightarrow> bool \<Rightarrow> HRESULT \<times> (u32 \<times> u32) option" where
  "GetFieldState dwFieldID nonnull =
     (if \<not> nonnull then (E_POINTER, None)
      else if dwFieldID \<ge> FIELD_COUNT then (E_INVALIDARG, None)
      else if dwFieldID = FIELD_NAME then (S_OK, Some (1 OR 2, 0))
      else if dwFieldID = FIELD_STATUS then (S_OK, Some (1 OR 2, 0))
      else (E_INVALIDARG, None))"

definition GetStringValue :: "u32 \<Rightarrow> bool \<Rightarrow> bool \<Rightarrow> MobileUnlockCredential \<Rightarrow> HRESULT \<times> wstring option" where
  "GetStringValue dwFieldID nonnull allocated c =
     (if \<not> nonnull then (E_POINTER, None)
      else if dwFieldID \<ge> FIELD_COUNT then (E_INVALIDARG, None)
      else
        let src = (if dwFieldID = FIELD_NAME then Some (wide ''MobileFingerprintUnlock'')
          else if dwFieldID = FIELD_STATUS then Some (takeWhile (\<lambda>x. x \<noteq> 0) (cr_statusText c)) else None)
        in case src of
             None \<Rightarrow> (E_INVALIDARG, None)
           | Some s \<Rightarrow> if \<not> allocated then (E_OUTOFMEMORY, None) else (S_OK, Some (s @ [0])))"

text \<open>The accessors of field kinds the tile does not have.\<close>

datatype unsupported_accessor =
    GetBitmapValue | GetCheckboxValue | GetComboBoxValueCount | GetComboBoxValueAt | GetSubmitButtonValue
  | SetStringValue | SetCheckboxValue | SetComboBoxSelectedValue | CommandLinkClicked

fun unsupported :: "unsupported_accessor \<Rightarrow> HRESULT" where
  "unsupported _ = E_NOTIMPL"

definition kDefaultLsaPackageName :: string where "kDefaultLsaPackageName = ''MobileUnlockLsaPackage''"

text \<open>\<open>None\<close> in place of the outputs when a pointer is null, for then none is written.\<close>

definition GetSerialization ::
  "bool \<Rightarrow> lsa_client_api \<Rightarrow> bool \<Rightarrow> MobileUnlockCredential \<Rightarrow>
   HRESULT \<times> (GET_SERIALIZATION_RESPONSE \<times> CREDENTIAL_SERIALIZATION) option" where
  "GetSerialization nonnull la allocated c =
     (if \<not> nonnull then (E_POINTER, None)
      else if \<not> cr_authStateReady c then (S_FALSE, Some (CPGSR_NO_CREDENTIAL_FINISHED, CREDENTIAL_SERIALIZATION_zero))
      else
        let (status, authPkgId) = GetAuthenticationPackageId la kDefaultLsaPackageName;
            authPkgId = (if status \<noteq> STATUS_SUCCESS \<or> authPkgId = 0 then 100 else authPkgId)
        in if \<not> allocated then (E_OUTOFMEMORY, Some (CPGSR_NO_CREDENTIAL_FINISHED, CREDENTIAL_SERIALIZATION_zero))
           else (S_OK, Some (CPGSR_RETURN_CREDENTIAL_FINISHED,
             \<lparr>ulAuthenticationPackage = authPkgId, clsidCredentialProvider = CLSID_MobileUnlockProvider,
              cbSerialization = of_nat LSA_LOGON_BUFFER_SIZE, rgbSerialization = Some (lsa_buffer_image (cr_internalAuthBuffer c))\<rparr>)))"

definition ReportResult :: "bool \<Rightarrow> bool \<Rightarrow> HRESULT \<times> unit option \<times> u32 option" where
  "ReportResult textNonnull iconNonnull =
     (S_OK, if textNonnull then Some () else None, if iconNonnull then Some 0 else None)"

section \<open>The tile as a machine\<close>

text \<open>
  The state is the tile with its threads, by handle. Winlogon's calls and the steps of the threads interleave; a thread that
  \<^verbatim>\<open>UnAdvise\<close> has given up waiting for goes on. A thread that can be created has a new handle.
\<close>

datatype cred_op = CAdvise "nat option" "nat option" "nat option" | CUnAdvise | CDeselect | CThread nat fetch_env

type_synonym tile = "MobileUnlockCredential \<times> (nat \<Rightarrow> thread_pc option)"

definition started :: "nat option \<Rightarrow> nat option \<Rightarrow> MobileUnlockCredential \<Rightarrow> (nat \<Rightarrow> thread_pc option) \<Rightarrow> nat \<Rightarrow> thread_pc option" where
  "started pcpce thread c T =
     (case thread of Some h \<Rightarrow> if pcpce \<noteq> None \<and> cr_hStatusThread c = None then T(h \<mapsto> AtLoop) else T | None \<Rightarrow> T)"

inductive cred_step :: "tile \<Rightarrow> cred_op \<times> cred_out list \<Rightarrow> tile \<Rightarrow> bool" where
  advise: "Cred_Advise pcpce event thread c = (hr, outs, c') \<Longrightarrow> (\<And>h. thread = Some h \<Longrightarrow> T h = None) \<Longrightarrow>
     cred_step (c, T) (CAdvise pcpce event thread, outs) (c', started pcpce thread c T)"
| unadvise: "Cred_UnAdvise c = (hr, outs, c') \<Longrightarrow> cred_step (c, T) (CUnAdvise, outs) (c', T)"
| deselect: "SetDeselected c = (hr, outs, c') \<Longrightarrow> cred_step (c, T) (CDeselect, outs) (c', T)"
| thread: "T h = Some pc \<Longrightarrow> status_thread env pc c = Some (outs, pc', c') \<Longrightarrow> cred_step (c, T) (CThread h env, outs) (c', T(h := pc'))"

inductive_cases cred_stepE: "cred_step s e t"

definition buffer_valid :: "LSA_LOGON_BUFFER \<Rightarrow> bool" where
  "buffer_valid b \<longleftrightarrow> lsa_buffer_wf b \<and> lb_Magic b = LSA_SUBMIT_BUFFER_MAGIC \<and> lb_Version b = LSA_SUBMIT_BUFFER_VERSION"

definition tile_inv :: "tile \<Rightarrow> bool" where
  "tile_inv s \<longleftrightarrow> (cr_authStateReady (fst s) \<longrightarrow> buffer_valid (cr_internalAuthBuffer (fst s)))"

lemma token_valid: "tk_valid (token_of_response data) \<Longrightarrow> buffer_valid (tk_lsaBuffer (token_of_response data))"
  by (auto simp: token_of_response_def no_token_def buffer_valid_def lsa_buffer_wf_def lsa_buffer_of_image_def lsa_consts Let_def
      split: if_splits)

lemma Read_data: "ReadMessageFromServer t s polls readFile c = Some (Some data) \<Longrightarrow> \<exists>n. readFile n = Some data"
  by (auto simp: ReadMessageFromServer_def split: if_splits option.splits)

lemma fetched_valid:
  assumes "FetchAuthState ct rt env = Some token" "tk_valid token"
  shows "\<exists>n data. fe_readFile env n = Some data \<and> token = token_of_response data"
proof -
  have no: "\<not> tk_valid no_token" by (simp add: no_token_def)
  obtain connected client where "Client_Connect ct (fe_connectStart env) (fe_connectTries env) (fe_setMode env)
      (NamedPipeClient_new credential_pipe) = Some (connected, client)"
    using assms(1) by (auto simp: FetchAuthState_def bind_eq_Some_conv)
  with assms no obtain result where
    "ReadMessageFromServer rt (fe_readStart env) (fe_readPolls env) (fe_readFile env) client = Some result"
    "token = (case result of None \<Rightarrow> no_token | Some data \<Rightarrow> token_of_response data)"
    by (auto simp: FetchAuthState_def bind_eq_Some_conv split: if_splits)
  with assms(2) no show ?thesis
    by (cases result) (simp, use Read_data in fastforce)
qed

lemma tile_ops_ready:
  "Cred_Advise e v t c = (hr, outs, c') \<Longrightarrow> cr_authStateReady c' = cr_authStateReady c \<and> cr_internalAuthBuffer c' = cr_internalAuthBuffer c"
  "Cred_UnAdvise c = (hr, outs, c') \<Longrightarrow> cr_authStateReady c' = cr_authStateReady c \<and> cr_internalAuthBuffer c' = cr_internalAuthBuffer c"
  "SetDeselected c = (hr, outs, c') \<Longrightarrow> \<not> cr_authStateReady c' \<and> cr_internalAuthBuffer c' = LSA_LOGON_BUFFER_zero"
  by (auto simp: Cred_Advise_def Cred_UnAdvise_def SetDeselected_def ClearInternalAuthState_def UpdateStatusField_def Let_def
      split: option.splits if_splits)

lemma status_fetched_ready:
  "status_fetched token c = (outs, pc, c') \<Longrightarrow> cr_authStateReady c' \<Longrightarrow> tk_valid token \<and> cr_internalAuthBuffer c' = tk_lsaBuffer token"
  by (auto simp: status_fetched_def ClearInternalAuthState_def UpdateStatusField_def Let_def split: if_splits)

lemma status_loop_head_ready:
  "status_loop_head c = (outs, pc, c') \<Longrightarrow> cr_authStateReady c' \<Longrightarrow> cr_authStateReady c \<and> cr_internalAuthBuffer c' = cr_internalAuthBuffer c"
  by (auto simp: status_loop_head_def ClearInternalAuthState_def UpdateStatusField_def Let_def split: if_splits)

text \<open>How a thread can make the tile ready: it was so already, or the thread has fetched a valid token.\<close>

lemma thread_ready:
  assumes "status_thread env pc c = Some (outs, pc', c')" "cr_authStateReady c'"
  shows "cr_authStateReady c \<and> cr_internalAuthBuffer c' = cr_internalAuthBuffer c \<or>
    (\<exists>token. FetchAuthState 5000 5000 env = Some token \<and> tk_valid token \<and> cr_internalAuthBuffer c' = tk_lsaBuffer token)"
  using assms by (cases pc) (auto dest: status_fetched_ready status_loop_head_ready)

interpretation tile_machine: invariant_machine cred_step tile_inv
proof
  show "tile_inv s \<Longrightarrow> cred_step s e t \<Longrightarrow> tile_inv t" for s e t
    by (erule cred_stepE)
      (auto simp: tile_inv_def dest!: tile_ops_ready dest!: thread_ready, (metis fetched_valid token_valid)+)
qed

text \<open>C28: what the tile hands to Winlogon is well formed. In every state that Winlogon's calls and the status threads reach, in any
  interleaving, a successful \<^verbatim>\<open>GetSerialization\<close> returns a credential of exactly 180 bytes, and they are a logon
  buffer with the magic number and the version that the authentication package requires.\<close>

theorem tile_serialization_valid:
  assumes "run cred_step (MobileUnlockCredential_new allocated, Map.empty) es (c, T)"
    and "GetSerialization nonnull la mem c = (S_OK, Some (resp, ser))"
  shows "resp = CPGSR_RETURN_CREDENTIAL_FINISHED \<and> cbSerialization ser = 180 \<and>
    (\<exists>bs b. rgbSerialization ser = Some bs \<and> length bs = 180 \<and> lsa_buffer_read bs = Some b \<and>
       lb_Magic b = LSA_SUBMIT_BUFFER_MAGIC \<and> lb_Version b = LSA_SUBMIT_BUFFER_VERSION)"
proof -
  have "tile_inv (MobileUnlockCredential_new allocated, Map.empty)"
    by (simp add: tile_inv_def MobileUnlockCredential_new_def MobileUnlockCredential_with_def)
  then have inv: "tile_inv (c, T)"
    by (rule tile_machine.run_inv [OF assms(1)])
  from assms(2) have c: "cr_authStateReady c" "resp = CPGSR_RETURN_CREDENTIAL_FINISHED" "cbSerialization ser = 180"
    "rgbSerialization ser = Some (lsa_buffer_image (cr_internalAuthBuffer c))"
    by (auto simp: GetSerialization_def hresult_consts lsa_consts Let_def case_prod_unfold split: if_splits)
  with inv have b: "buffer_valid (cr_internalAuthBuffer c)" by (simp add: tile_inv_def)
  then show ?thesis
    using c lsa_codec.enc_width [of "cr_internalAuthBuffer c"] lsa_codec.dec_enc [of "cr_internalAuthBuffer c"]
    by (auto simp: buffer_valid_def lsa_consts)
qed

text \<open>A tile whose thread has received a logon buffer.\<close>

definition demo_fetch :: fetch_env where
  "demo_fetch = \<lparr>fe_connectStart = 0, fe_connectTries = [(1, Some 5)], fe_setMode = True, fe_writeFile = \<lambda>bs. Some (length bs),
     fe_readStart = 0, fe_readPolls = [(Some 180, 3)], fe_readFile = \<lambda>_. Some demo_submit\<rparr>"

definition demo_la :: lsa_client_api where
  "demo_la = \<lparr>la_secur32 = True, la_procs = True, la_connect = (0, 1), la_lookup = \<lambda>_ _. (0, 17)\<rparr>"

lemma demo_fetch_token:
  "FetchAuthState 5000 5000 demo_fetch = Some \<lparr>tk_valid = True, tk_lsaBuffer = logon_buffer (demo_msg MT_AUTH_RESPONSE 1) (replicate 64 7)\<rparr>"
proof -
  let ?b = "logon_buffer (demo_msg MT_AUTH_RESPONSE 1) (replicate 64 7)"
  obtain cs' where "logon_message_ok (demo_msg MT_AUTH_RESPONSE 1) (replicate 64 7)" by (rule demo_logon_vouched)
  then have wf: "lsa_buffer_wf ?b" by (rule logon_buffer_wf)
  then have len: "length demo_submit = 180" and rd: "lsa_buffer_of_image demo_submit = ?b"
    using lsa_codec.enc_width [OF wf] lsa_codec.dec_enc [OF wf] by (simp_all add: demo_submit_def lsa_consts lsa_buffer_read_def)
  have "auth_probe \<noteq> []" by (simp add: auth_probe_def bytes_of_string_def)
  moreover have "demo_submit \<noteq> []" using len by auto
  moreover have "lb_Magic ?b = LSA_SUBMIT_BUFFER_MAGIC" "lb_Version ?b = LSA_SUBMIT_BUFFER_VERSION"
    by (simp_all add: logon_buffer_def)
  then have "token_of_response demo_submit = \<lparr>tk_valid = True, tk_lsaBuffer = ?b\<rparr>"
    using len rd by (simp add: token_of_response_def no_token_def LSA_LOGON_BUFFER_SIZE_def Let_def)
  ultimately show ?thesis
    by (simp add: FetchAuthState_def demo_fetch_def Client_Connect_def NamedPipeClient_new_def SendMessageToServer_def
        ReadMessageFromServer_def)
qed

definition demo_tile :: MobileUnlockCredential where
  "demo_tile = snd (snd (status_fetched \<lparr>tk_valid = True, tk_lsaBuffer = logon_buffer (demo_msg MT_AUTH_RESPONSE 1) (replicate 64 7)\<rparr>
     (snd (snd (Cred_Advise (Some 4) (Some 2) (Some 3) (MobileUnlockCredential_new True))))))"

lemma demo_tile_run:
  "\<exists>es. run cred_step (MobileUnlockCredential_new True, Map.empty) es (demo_tile, [3 \<mapsto> InWait])"
proof -
  let ?c = "MobileUnlockCredential_new True"
  obtain hr outs c1 where c1: "Cred_Advise (Some 4) (Some 2) (Some 3) ?c = (hr, outs, c1)" by (cases "Cred_Advise (Some 4) (Some 2) (Some 3) ?c")
  have "cred_step (?c, Map.empty) (CAdvise (Some 4) (Some 2) (Some 3), outs) (c1, [3 \<mapsto> AtLoop])"
    using cred_step.advise [OF c1, of Map.empty] by (simp add: started_def MobileUnlockCredential_new_def MobileUnlockCredential_with_def)
  moreover have f: "cr_ipcFactory c1" "\<not> cr_stopThread c1"
    using c1 by (auto simp: Cred_Advise_def MobileUnlockCredential_new_def MobileUnlockCredential_with_def Let_def)
  then have "cred_step (c1, [3 \<mapsto> AtLoop]) (CThread 3 demo_fetch, []) (c1, [3 \<mapsto> InFetch])"
    using cred_step.thread [of "[3 \<mapsto> AtLoop]" 3 AtLoop demo_fetch c1 "[]" "Some InFetch" c1] by (simp add: status_loop_head_def)
  moreover have "\<exists>outs'. cred_step (c1, [3 \<mapsto> InFetch]) (CThread 3 demo_fetch, outs') (demo_tile, [3 \<mapsto> InWait])"
  proof -
    obtain outs' where "status_thread demo_fetch InFetch c1 = Some (outs', Some InWait, demo_tile)"
      using f by (simp add: demo_fetch_token demo_tile_def c1 status_fetched_def UpdateStatusField_def Let_def)
    from cred_step.thread [OF _ this, of "[3 \<mapsto> InFetch]" 3] show ?thesis by auto
  qed
  ultimately show ?thesis by (meson run.intros)
qed

lemma demo_tile_serialization:
  "\<exists>ser. GetSerialization True demo_la True demo_tile = (S_OK, Some (CPGSR_RETURN_CREDENTIAL_FINISHED, ser)) \<and>
     rgbSerialization ser = Some demo_submit \<and> ulAuthenticationPackage ser = 17"
  by (simp add: GetSerialization_def demo_tile_def status_fetched_def UpdateStatusField_def Cred_Advise_def MobileUnlockCredential_new_def
      MobileUnlockCredential_with_def demo_submit_def demo_la_def GetAuthenticationPackageId_def status_consts Let_def)

theorem tile_serialization_valid_witness:
  "\<exists>ser. GetSerialization True demo_la True demo_tile = (S_OK, Some (CPGSR_RETURN_CREDENTIAL_FINISHED, ser)) \<and> cbSerialization ser = 180 \<and>
     (\<exists>bs b. rgbSerialization ser = Some bs \<and> length bs = 180 \<and> lsa_buffer_read bs = Some b \<and>
       lb_Magic b = LSA_SUBMIT_BUFFER_MAGIC \<and> lb_Version b = LSA_SUBMIT_BUFFER_VERSION)"
proof -
  obtain es where r: "run cred_step (MobileUnlockCredential_new True, Map.empty) es (demo_tile, [3 \<mapsto> InWait])"
    using demo_tile_run by blast
  obtain ser where s: "GetSerialization True demo_la True demo_tile = (S_OK, Some (CPGSR_RETURN_CREDENTIAL_FINISHED, ser))"
    using demo_tile_serialization by blast
  from tile_serialization_valid [OF r s] s show ?thesis by blast
qed

section \<open>Threads outlive their registration\<close>

definition unadvised :: MobileUnlockCredential where
  "unadvised = (MobileUnlockCredential_new True)\<lparr>cr_stopThread := True\<rparr>"

lemma advise_cycle:
  assumes "c = MobileUnlockCredential_new True \<or> c = unadvised" "T n = None"
  shows "\<exists>es. run cred_step (c, T) es (unadvised, T(n \<mapsto> InFetch))"
proof -
  let ?c1 = "snd (snd (Cred_Advise (Some 1) (Some 2) (Some n) c))"
  note new = MobileUnlockCredential_new_def MobileUnlockCredential_with_def unadvised_def
  have c1: "cr_ipcFactory ?c1" "\<not> cr_stopThread ?c1" "cr_hStatusThread c = None"
    "snd (snd (Cred_UnAdvise ?c1)) = unadvised"
    using assms(1) by (auto simp: Cred_Advise_def Cred_UnAdvise_def new Let_def)
  have "cred_step (c, T) (CAdvise (Some 1) (Some 2) (Some n), fst (snd (Cred_Advise (Some 1) (Some 2) (Some n) c))) (?c1, T(n \<mapsto> AtLoop))"
    using cred_step.advise [of "Some 1" "Some 2" "Some n" c _ _ ?c1 T] assms(2) c1(3) by (simp add: started_def prod_eq_iff)
  moreover have "cred_step (?c1, T(n \<mapsto> AtLoop)) (CThread n demo_fetch, []) (?c1, T(n \<mapsto> InFetch))"
    using cred_step.thread [of "T(n \<mapsto> AtLoop)" n AtLoop demo_fetch ?c1 "[]" "Some InFetch" ?c1] c1 by (simp add: status_loop_head_def)
  moreover have "cred_step (?c1, T(n \<mapsto> InFetch)) (CUnAdvise, fst (snd (Cred_UnAdvise ?c1))) (unadvised, T(n \<mapsto> InFetch))"
    using cred_step.unadvise [of ?c1 _ _ unadvised "T(n \<mapsto> InFetch)"] c1(4) by (simp add: prod_eq_iff)
  ultimately show ?thesis by (meson run.intros)
qed

text \<open>\<^verbatim>\<open>UnAdvise\<close> does not end the status thread. Its wait is bounded by three seconds while a fetch may take ten, so for
  every \<open>n\<close> Winlogon's calls can lead to a tile that has forgotten its thread, whose destructor therefore waits for
  nobody, while the \<open>n + 1\<close> threads with the handles up to \<open>n\<close> are still inside a fetch and will go on to use the tile.\<close>

theorem status_threads_accumulate:
  "\<exists>es c T. run cred_step (MobileUnlockCredential_new True, Map.empty) es (c, T) \<and>
     cr_hStatusThread c = None \<and> (\<forall>h. WaitThread h \<notin> set (fst (MobileUnlockCredential_destroy c))) \<and>
     {h. T h = Some InFetch} = {..n}"
proof -
  let ?T = "\<lambda>n h. if h \<le> n then Some InFetch else None :: thread_pc option"
  have "\<exists>es. run cred_step (MobileUnlockCredential_new True, Map.empty) es (unadvised, ?T n)"
  proof (induction n)
    case 0
    have "(\<lambda>h :: nat. if h \<le> 0 then Some InFetch else None) = [0 \<mapsto> InFetch]" by auto
    then show ?case using advise_cycle [of "MobileUnlockCredential_new True" Map.empty 0] by simp
  next
    case (Suc n)
    then obtain es where "run cred_step (MobileUnlockCredential_new True, Map.empty) es (unadvised, ?T n)" by blast
    moreover have "?T (Suc n) = (?T n)(Suc n \<mapsto> InFetch)" by auto
    then obtain fs where "run cred_step (unadvised, ?T n) fs (unadvised, ?T (Suc n))"
      using advise_cycle [of unadvised "?T n" "Suc n"] by auto
    ultimately have "run cred_step (MobileUnlockCredential_new True, Map.empty) (es @ fs) (unadvised, ?T (Suc n))"
      by (auto simp: run_append)
    then show ?case by blast
  qed
  moreover have "cr_hStatusThread unadvised = None" "\<forall>h. WaitThread h \<notin> set (fst (MobileUnlockCredential_destroy unadvised))"
    by (simp_all add: unadvised_def MobileUnlockCredential_new_def MobileUnlockCredential_with_def MobileUnlockCredential_destroy_def
        Cred_UnAdvise_def Let_def)
  moreover have "{h. ?T n h = Some InFetch} = {..n}" by auto
  ultimately show ?thesis by blast
qed

end
