(* ===== verification/Com.thy ===== *)
theory Com
  imports Credential
begin

text \<open>
  \<^verbatim>\<open>windows/credential_provider/CredentialProvider.h/.cpp\<close>, \<^verbatim>\<open>ClassFactory.h/.cpp\<close>, \<^verbatim>\<open>dllmain.cpp\<close> and the
  \<^verbatim>\<open>IUnknown\<close> part of the tile: the COM objects of the library. They live in a store, because Winlogon and the objects
  share them by pointer; a call on an object that has been deleted has no result (\<open>None\<close>). The address a successful
  allocation returns is an input.
\<close>

section \<open>Objects\<close>

definition CLASS_E_NOAGGREGATION :: HRESULT where "CLASS_E_NOAGGREGATION = 0x80040110"
definition CLASS_E_CLASSNOTAVAILABLE :: HRESULT where "CLASS_E_CLASSNOTAVAILABLE = 0x80040111"

lemmas com_consts = hresult_consts CLASS_E_NOAGGREGATION_def CLASS_E_CLASSNOTAVAILABLE_def

datatype IID = IID_IUnknown | IID_IClassFactory | IID_ICredentialProvider | IID_ICredentialProviderCredential | IID_other GUID

datatype USAGE_SCENARIO = CPUS_INVALID | CPUS_LOGON | CPUS_UNLOCK_WORKSTATION | CPUS_CHANGE_PASSWORD | CPUS_CREDUI | CPUS_PLAP

record CredentialProvider =
  cp_cRef :: u32
  cp_cpus :: USAGE_SCENARIO
  cp_usageScenarioSet :: bool
  cp_credential :: "nat option"
  cp_events :: "nat option"
  cp_upAdviseContext :: size_t

definition CredentialProvider_new :: CredentialProvider where
  "CredentialProvider_new = \<lparr>cp_cRef = 1, cp_cpus = CPUS_INVALID, cp_usageScenarioSet = False, cp_credential = None,
     cp_events = None, cp_upAdviseContext = 0\<rparr>"

datatype com_obj = OFactory u32 | OProvider CredentialProvider | OCredential MobileUnlockCredential

record com =
  g_cDllRef :: u32
  com_objs :: "nat \<Rightarrow> com_obj option"

definition com_init :: com where
  "com_init = \<lparr>g_cDllRef = 0, com_objs = Map.empty\<rparr>"

fun ref_of :: "com_obj \<Rightarrow> u32" where
  "ref_of (OFactory r) = r"
| "ref_of (OProvider p) = cp_cRef p"
| "ref_of (OCredential c) = cr_cRef c"

fun set_ref :: "u32 \<Rightarrow> com_obj \<Rightarrow> com_obj" where
  "set_ref r (OFactory _) = OFactory r"
| "set_ref r (OProvider p) = OProvider (p\<lparr>cp_cRef := r\<rparr>)"
| "set_ref r (OCredential c) = OCredential (c\<lparr>cr_cRef := r\<rparr>)"

definition put :: "nat \<Rightarrow> com_obj \<Rightarrow> com \<Rightarrow> com" where
  "put i ob st = st\<lparr>com_objs := (com_objs st)(i := Some ob)\<rparr>"

text \<open>Construction and deletion count the object in the library's reference count.\<close>

definition new_obj :: "nat \<Rightarrow> com_obj \<Rightarrow> com \<Rightarrow> com" where
  "new_obj i ob st = (put i ob st)\<lparr>g_cDllRef := g_cDllRef st + 1\<rparr>"

definition delete_obj :: "nat \<Rightarrow> com \<Rightarrow> com" where
  "delete_obj i st = st\<lparr>com_objs := (com_objs st)(i := None), g_cDllRef := g_cDllRef st - 1\<rparr>"

section \<open>Reference counting\<close>

definition com_AddRef :: "nat \<Rightarrow> com \<Rightarrow> com option" where
  "com_AddRef i st = map_option (\<lambda>ob. put i (set_ref (ref_of ob + 1) ob) st) (com_objs st i)"

definition ClassFactory_Release :: "nat \<Rightarrow> u32 \<Rightarrow> com \<Rightarrow> com" where
  "ClassFactory_Release i r st = (if r - 1 = 0 then delete_obj i st else put i (OFactory (r - 1)) st)"

definition Credential_Release :: "nat \<Rightarrow> MobileUnlockCredential \<Rightarrow> com \<Rightarrow> cred_out list \<times> com" where
  "Credential_Release i c st =
     (let r = cr_cRef c - 1 in
      if r = 0 then (fst (MobileUnlockCredential_destroy c), delete_obj i st) else ([], put i (OCredential (c\<lparr>cr_cRef := r\<rparr>)) st))"

definition CredentialProvider_destroy :: "nat \<Rightarrow> CredentialProvider \<Rightarrow> com \<Rightarrow> (cred_out list \<times> com) option" where
  "CredentialProvider_destroy i p st = do {
     (outs, st) \<leftarrow> (case cp_credential p of
         None \<Rightarrow> Some ([], st)
       | Some j \<Rightarrow> (case com_objs st j of Some (OCredential c) \<Rightarrow> Some (Credential_Release j c st) | _ \<Rightarrow> None));
     let outs_events = (case cp_events p of None \<Rightarrow> [] | Some e \<Rightarrow> [EventsRelease e]);
     Some (outs @ outs_events, delete_obj i st)
   }"

definition CredentialProvider_Release :: "nat \<Rightarrow> CredentialProvider \<Rightarrow> com \<Rightarrow> (cred_out list \<times> com) option" where
  "CredentialProvider_Release i p st =
     (let r = cp_cRef p - 1; st = put i (OProvider (p\<lparr>cp_cRef := r\<rparr>)) st in
      if r = 0 then CredentialProvider_destroy i p st else Some ([], st))"

definition com_Release :: "nat \<Rightarrow> com \<Rightarrow> (cred_out list \<times> com) option" where
  "com_Release i st =
     (case com_objs st i of
        None \<Rightarrow> None
      | Some (OFactory r) \<Rightarrow> Some ([], ClassFactory_Release i r st)
      | Some (OProvider p) \<Rightarrow> CredentialProvider_Release i p st
      | Some (OCredential c) \<Rightarrow> Some (Credential_Release i c st))"

fun supports :: "com_obj \<Rightarrow> IID \<Rightarrow> bool" where
  "supports (OFactory _) riid \<longleftrightarrow> riid = IID_IUnknown \<or> riid = IID_IClassFactory"
| "supports (OProvider _) riid \<longleftrightarrow> riid = IID_IUnknown \<or> riid = IID_ICredentialProvider"
| "supports (OCredential _) riid \<longleftrightarrow> riid = IID_IUnknown \<or> riid = IID_ICredentialProviderCredential"

text \<open>The result of a call that returns a pointer: the code, the pointer written (if any), and the store.\<close>

type_synonym com_result = "HRESULT \<times> nat option \<times> com"

definition com_QueryInterface :: "nat \<Rightarrow> IID \<Rightarrow> bool \<Rightarrow> com \<Rightarrow> com_result option" where
  "com_QueryInterface i riid ppv st =
     (case com_objs st i of
        None \<Rightarrow> None
      | Some ob \<Rightarrow>
          if \<not> ppv then Some (E_POINTER, None, st)
          else if supports ob riid then map_option (\<lambda>st. (S_OK, Some i, st)) (com_AddRef i st)
          else Some (E_NOINTERFACE, None, st))"

text \<open>The pattern of the two creating calls: construct, query, release the constructor's reference.\<close>

definition create_and_query :: "nat \<Rightarrow> com_obj \<Rightarrow> IID \<Rightarrow> com \<Rightarrow> com_result option" where
  "create_and_query a ob riid st = do {
     (hr, p, st) \<leftarrow> com_QueryInterface a riid True (new_obj a ob st);
     (_, st) \<leftarrow> com_Release a st;
     Some (hr, p, st)
   }"

section \<open>The class factory and the library's entry points\<close>

definition ClassFactory_CreateInstance :: "bool \<Rightarrow> IID \<Rightarrow> bool \<Rightarrow> nat option \<Rightarrow> com \<Rightarrow> com_result option" where
  "ClassFactory_CreateInstance outer riid ppv alloc st =
     (if \<not> ppv then Some (E_POINTER, None, st)
      else if outer then Some (CLASS_E_NOAGGREGATION, None, st)
      else case alloc of
        None \<Rightarrow> Some (E_OUTOFMEMORY, None, st)
      | Some a \<Rightarrow> create_and_query a (OProvider CredentialProvider_new) riid st)"

definition ClassFactory_LockServer :: "bool \<Rightarrow> com \<Rightarrow> HRESULT \<times> com" where
  "ClassFactory_LockServer fLock st = (S_OK, st\<lparr>g_cDllRef := (if fLock then g_cDllRef st + 1 else g_cDllRef st - 1)\<rparr>)"

definition DllGetClassObject :: "GUID \<Rightarrow> IID \<Rightarrow> bool \<Rightarrow> nat option \<Rightarrow> com \<Rightarrow> com_result option" where
  "DllGetClassObject rclsid riid ppv alloc st =
     (if \<not> ppv then Some (E_POINTER, None, st)
      else if rclsid \<noteq> CLSID_MobileUnlockProvider then Some (CLASS_E_CLASSNOTAVAILABLE, None, st)
      else case alloc of
        None \<Rightarrow> Some (E_OUTOFMEMORY, None, st)
      | Some a \<Rightarrow> create_and_query a (OFactory 1) riid st)"

definition DllCanUnloadNow :: "com \<Rightarrow> HRESULT" where
  "DllCanUnloadNow st = (if g_cDllRef st = 0 then S_OK else S_FALSE)"

definition DllMain :: "u32 \<Rightarrow> bool" where
  "DllMain dwReason = True"

section \<open>The provider\<close>

text \<open>
  A new tile: \<open>cred\<close> is the address of its memory, if there is any, and \<open>factory\<close> says whether its IPC
  factory could be allocated.
\<close>

definition SetUsageScenario :: "nat \<Rightarrow> CredentialProvider \<Rightarrow> USAGE_SCENARIO \<Rightarrow> nat option \<Rightarrow> bool \<Rightarrow> com \<Rightarrow> HRESULT \<times> com" where
  "SetUsageScenario i p cpus cred factory st =
     (if cpus = CPUS_LOGON \<or> cpus = CPUS_UNLOCK_WORKSTATION
      then
        let p = p\<lparr>cp_cpus := cpus, cp_usageScenarioSet := True\<rparr> in
        if cp_credential p = None
        then (case cred of
            None \<Rightarrow> (E_OUTOFMEMORY, put i (OProvider p) st)
          | Some a \<Rightarrow> (S_OK, put i (OProvider (p\<lparr>cp_credential := Some a\<rparr>)) (new_obj a (OCredential (MobileUnlockCredential_new factory)) st)))
        else (S_OK, put i (OProvider p) st)
      else (E_NOTIMPL, put i (OProvider (p\<lparr>cp_usageScenarioSet := False\<rparr>)) st))"

definition SetSerialization :: HRESULT where
  "SetSerialization = S_OK"

definition Provider_Advise :: "nat option \<Rightarrow> size_t \<Rightarrow> CredentialProvider \<Rightarrow> HRESULT \<times> cred_out list \<times> CredentialProvider" where
  "Provider_Advise pcpe upAdviseContext p =
     (S_OK, (case cp_events p of None \<Rightarrow> [] | Some e \<Rightarrow> [EventsRelease e]) @ (case pcpe of None \<Rightarrow> [] | Some e \<Rightarrow> [EventsAddRef e]),
      p\<lparr>cp_events := pcpe, cp_upAdviseContext := upAdviseContext\<rparr>)"

definition Provider_UnAdvise :: "CredentialProvider \<Rightarrow> HRESULT \<times> cred_out list \<times> CredentialProvider" where
  "Provider_UnAdvise p =
     (S_OK, (case cp_events p of None \<Rightarrow> [] | Some e \<Rightarrow> [EventsRelease e]), p\<lparr>cp_events := None, cp_upAdviseContext := 0\<rparr>)"

definition GetFieldDescriptorCount :: "bool \<Rightarrow> HRESULT \<times> u32 option" where
  "GetFieldDescriptorCount nonnull = (if \<not> nonnull then (E_POINTER, None) else (S_OK, Some FIELD_COUNT))"

datatype FIELD_TYPE = CPFT_LARGE_TEXT | CPFT_SMALL_TEXT

record FIELD_DESCRIPTOR =
  fd_dwFieldID :: u32
  fd_cpft :: FIELD_TYPE
  fd_pszLabel :: wstring
  fd_guidFieldType :: GUID

definition CPFG_CREDENTIAL_PROVIDER_LABEL :: GUID where
  "CPFG_CREDENTIAL_PROVIDER_LABEL = GUID 0xda15bbe8 0x954d 0x4fd3 [0xb0, 0xf4, 0x1f, 0xb5, 0xb9, 0x0b, 0x17, 0x4b]"

definition CPFG_CREDENTIAL_PROVIDER_LOGO :: GUID where
  "CPFG_CREDENTIAL_PROVIDER_LOGO = GUID 0x2d4d3d8e 0xc62b 0x4c09 [0xa2, 0x85, 0x4d, 0xc4, 0x85, 0x9d, 0xd5, 0x73]"

definition s_rgFieldDescriptors :: "FIELD_DESCRIPTOR list" where
  "s_rgFieldDescriptors =
     [\<lparr>fd_dwFieldID = FIELD_NAME, fd_cpft = CPFT_LARGE_TEXT, fd_pszLabel = wide ''Display Name'', fd_guidFieldType = CPFG_CREDENTIAL_PROVIDER_LABEL\<rparr>,
      \<lparr>fd_dwFieldID = FIELD_STATUS, fd_cpft = CPFT_SMALL_TEXT, fd_pszLabel = wide ''Status'', fd_guidFieldType = CPFG_CREDENTIAL_PROVIDER_LOGO\<rparr>]"

text \<open>The two allocations, of the descriptor and of its label; the label's failure frees the descriptor. The last result counts the blocks left.\<close>

definition GetFieldDescriptorAt :: "u32 \<Rightarrow> bool \<Rightarrow> bool \<Rightarrow> bool \<Rightarrow> HRESULT \<times> FIELD_DESCRIPTOR option \<times> nat" where
  "GetFieldDescriptorAt dwIndex nonnull alloc1 alloc2 =
     (if \<not> nonnull then (E_POINTER, None, 0)
      else if dwIndex \<ge> FIELD_COUNT then (E_INVALIDARG, None, 0)
      else if \<not> alloc1 then (E_OUTOFMEMORY, None, 0)
      else if \<not> alloc2 then (E_OUTOFMEMORY, None, 1 - 1)
      else (S_OK, Some ((s_rgFieldDescriptors ! unat dwIndex)), 1 + 1))"

definition CREDENTIAL_PROVIDER_NO_DEFAULT :: u32 where "CREDENTIAL_PROVIDER_NO_DEFAULT = -1"

text \<open>The number of tiles, the default and the flag for automatic logon.\<close>

definition GetCredentialCount :: "bool \<Rightarrow> CredentialProvider \<Rightarrow> HRESULT \<times> (u32 \<times> u32 \<times> bool) option" where
  "GetCredentialCount nonnull p =
     (if \<not> nonnull then (E_POINTER, None)
      else if \<not> cp_usageScenarioSet p \<or> cp_credential p = None then (S_OK, Some (0, CREDENTIAL_PROVIDER_NO_DEFAULT, False))
      else (S_OK, Some (1, CREDENTIAL_PROVIDER_NO_DEFAULT, False)))"

definition GetCredentialAt :: "u32 \<Rightarrow> bool \<Rightarrow> CredentialProvider \<Rightarrow> com \<Rightarrow> com_result option" where
  "GetCredentialAt dwIndex nonnull p st =
     (if \<not> nonnull then Some (E_POINTER, None, st)
      else case cp_credential p of
        None \<Rightarrow> Some (E_INVALIDARG, None, st)
      | Some j \<Rightarrow> if dwIndex \<noteq> 0 then Some (E_INVALIDARG, None, st) else map_option (\<lambda>st. (S_OK, Some j, st)) (com_AddRef j st))"

section \<open>Ownership\<close>

text \<open>
  Winlogon holds references \<open>ext\<close> and server locks; a provider holds one to its tile. The counts of the objects and of the
  library are the sums of these.
\<close>

definition owns :: "com \<Rightarrow> nat \<Rightarrow> nat \<Rightarrow> bool" where
  "owns st p j \<longleftrightarrow> (\<exists>P. com_objs st p = Some (OProvider P) \<and> cp_credential P = Some j)"

definition owners :: "com \<Rightarrow> nat \<Rightarrow> nat" where
  "owners st j = (if \<exists>p. owns st p j then 1 else 0)"

type_synonym com_world = "com \<times> (nat \<Rightarrow> nat) \<times> nat"

definition com_inv :: "com_world \<Rightarrow> bool" where
  "com_inv w = (case w of (st, ext, locks) \<Rightarrow>
     finite (dom (com_objs st)) \<and> g_cDllRef st = of_nat (card (dom (com_objs st)) + locks) \<and>
     (\<forall>i ob. com_objs st i = Some ob \<longrightarrow> unat (ref_of ob) = ext i + owners st i \<and> 0 < ext i + owners st i) \<and>
     (\<forall>i. com_objs st i = None \<longrightarrow> ext i = 0) \<and>
     (\<forall>p j. owns st p j \<longrightarrow> (\<exists>c. com_objs st j = Some (OCredential c))) \<and>
     (\<forall>p p' j. owns st p j \<longrightarrow> owns st p' j \<longrightarrow> p = p'))"

lemma com_invI:
  assumes "finite (dom (com_objs st))" "g_cDllRef st = of_nat (card (dom (com_objs st)) + locks)"
    and "\<And>i ob. com_objs st i = Some ob \<Longrightarrow> unat (ref_of ob) = ext i + owners st i \<and> 0 < ext i + owners st i"
    and "\<And>i. com_objs st i = None \<Longrightarrow> ext i = 0"
    and "\<And>p j. owns st p j \<Longrightarrow> \<exists>c. com_objs st j = Some (OCredential c)"
    and "\<And>p p' j. owns st p j \<Longrightarrow> owns st p' j \<Longrightarrow> p = p'"
  shows "com_inv (st, ext, locks)"
  unfolding com_inv_def case_prod_conv using assms by (intro conjI allI impI) metis+

lemma com_invD:
  assumes "com_inv (st, ext, locks)"
  shows "finite (dom (com_objs st))" "g_cDllRef st = of_nat (card (dom (com_objs st)) + locks)"
    and "com_objs st i = Some ob \<Longrightarrow> unat (ref_of ob) = ext i + owners st i" "com_objs st i = Some ob \<Longrightarrow> 0 < ext i + owners st i"
    and "com_objs st i = None \<Longrightarrow> ext i = 0"
    and "owns st p j \<Longrightarrow> \<exists>c. com_objs st j = Some (OCredential c)"
    and "owns st p j \<Longrightarrow> owns st p' j \<Longrightarrow> p = p'"
  using assms by (auto simp: com_inv_def)

fun tile_of :: "com_obj \<Rightarrow> nat option" where
  "tile_of (OProvider p) = cp_credential p"
| "tile_of _ = None"

fun same_kind :: "com_obj \<Rightarrow> com_obj \<Rightarrow> bool" where
  "same_kind (OFactory _) (OFactory _) \<longleftrightarrow> True"
| "same_kind (OProvider _) (OProvider _) \<longleftrightarrow> True"
| "same_kind (OCredential _) (OCredential _) \<longleftrightarrow> True"
| "same_kind _ _ \<longleftrightarrow> False"

lemma same_kind_set_ref [simp]: "same_kind ob (set_ref r ob)" "tile_of (set_ref r ob) = tile_of ob" "ref_of (set_ref r ob) = r"
  by (cases ob; simp)+

lemma put_sel [simp]: "com_objs (put i ob st) = (com_objs st)(i := Some ob)" "g_cDllRef (put i ob st) = g_cDllRef st"
  by (simp_all add: put_def)

lemma new_obj_sel [simp]: "com_objs (new_obj i ob st) = (com_objs st)(i := Some ob)" "g_cDllRef (new_obj i ob st) = g_cDllRef st + 1"
  by (simp_all add: new_obj_def)

lemma delete_obj_sel [simp]: "com_objs (delete_obj i st) = (com_objs st)(i := None)" "g_cDllRef (delete_obj i st) = g_cDllRef st - 1"
  by (simp_all add: delete_obj_def)

lemma owns_upd: "com_objs st' = (com_objs st)(i := Some ob) \<Longrightarrow> owns st' p j \<longleftrightarrow> (if p = i then tile_of ob = Some j else owns st p j)"
  by (cases ob) (auto simp: owns_def)

lemma owns_del: "com_objs st' = (com_objs st)(i := None) \<Longrightarrow> owns st' p j \<longleftrightarrow> p \<noteq> i \<and> owns st p j"
  by (auto simp: owns_def)

lemma owns_tile: "com_objs st p = Some ob \<Longrightarrow> owns st p j \<longleftrightarrow> tile_of ob = Some j"
  by (cases ob) (auto simp: owns_def)

text \<open>Changing an object in place, with its reference count.\<close>

lemma put_inv:
  assumes inv: "com_inv (st, ext, locks)" and ob: "com_objs st i = Some ob" "same_kind ob ob'" "tile_of ob' = tile_of ob"
    and r: "unat (ref_of ob') = n + owners st i" "0 < n + owners st i"
  shows "com_inv (put i ob' st, ext(i := n), locks)"
proof -
  note D = com_invD [OF inv]
  have own: "owns (put i ob' st) p j \<longleftrightarrow> owns st p j" for p j
    using owns_upd [of "put i ob' st" st i ob' p j] owns_tile [OF ob(1)] ob(3) by auto
  then have ow: "owners (put i ob' st) = owners st" by (simp add: owners_def fun_eq_iff)
  have dom: "dom (com_objs (put i ob' st)) = dom (com_objs st)" using ob(1) by auto
  show ?thesis
  proof (rule com_invI)
    show "\<exists>c. com_objs (put i ob' st) j = Some (OCredential c)" if "owns (put i ob' st) p j" for p j
      using D(6) [of p j] that own ob by (cases ob') auto
  qed (use D dom ow own r in \<open>auto split: if_splits\<close>)
qed

text \<open>A new object that owns nothing, with one outside reference.\<close>

lemma new_inv:
  assumes inv: "com_inv (st, ext, locks)" and a: "com_objs st a = None" and ob: "tile_of ob = None" "ref_of ob = 1"
  shows "com_inv (new_obj a ob st, ext(a := 1), locks)"
proof -
  note D = com_invD [OF inv]
  have own: "owns (new_obj a ob st) p j \<longleftrightarrow> owns st p j" for p j
    using owns_upd [of "new_obj a ob st" st a ob p j] a ob(1) by (auto simp: owns_def)
  then have ow: "owners (new_obj a ob st) = owners st" by (simp add: owners_def fun_eq_iff)
  have na: "\<not> owns st p a" for p using D(6) [of p a] a by auto
  then have "owners st a = 0" by (simp add: owners_def)
  moreover have "card (dom (com_objs (new_obj a ob st))) = Suc (card (dom (com_objs st)))"
    using D(1) a by (simp add: domIff)
  ultimately show ?thesis
    by (intro com_invI) (use D a ob ow own na in \<open>auto split: if_splits\<close>)
qed

text \<open>Deleting an object that nothing refers to any more and that owns nothing.\<close>

lemma delete_inv:
  assumes inv: "com_inv (st, ext, locks)" and ob: "com_objs st i = Some ob" "tile_of ob = None" and z: "owners st i = 0"
  shows "com_inv (delete_obj i st, ext(i := 0), locks)"
proof -
  note D = com_invD [OF inv]
  have own: "owns (delete_obj i st) p j \<longleftrightarrow> owns st p j" for p j
    using owns_del [of "delete_obj i st" st i p j] owns_tile [OF ob(1)] ob(2) by auto
  then have ow: "owners (delete_obj i st) = owners st" by (simp add: owners_def fun_eq_iff)
  have card: "card (dom (com_objs st)) = Suc (card (dom (com_objs (delete_obj i st))))"
    using D(1) ob(1) card.remove [of "dom (com_objs st)" i] by (simp add: domIff insert_absorb domI)
  have ne: "\<not> owns st p i" for p using z by (auto simp: owners_def split: if_splits)
  show ?thesis
    by (intro com_invI) (use D ow own card ne in \<open>auto split: if_splits\<close>)
qed

section \<open>Adding and releasing references\<close>

lemma owners_le: "owners st i \<le> 1"
  by (simp add: owners_def)

lemma unat_plus1: "unat (r :: u32) < 2 ^ 32 - 1 \<Longrightarrow> unat (r + 1) = unat r + 1"
  using unat_add_lem [of r 1] by simp

lemma AddRef_inv:
  assumes "com_inv (st, ext, locks)" "com_objs st i = Some ob" "ext i < 2 ^ 31"
  shows "\<exists>st'. com_AddRef i st = Some st' \<and> com_inv (st', ext(i := ext i + 1), locks) \<and> same_kind ob (the (com_objs st' i))"
proof -
  have "unat (ref_of ob) = ext i + owners st i"
    by (rule com_invD(3) [OF assms(1,2)])
  with assms(3) owners_le [of st i] have "unat (ref_of ob + 1) = ext i + 1 + owners st i"
    by (subst unat_plus1) auto
  then show ?thesis
    using put_inv [OF assms(1,2), of "set_ref (ref_of ob + 1) ob" "ext i + 1"] assms(2) by (simp add: com_AddRef_def)
qed

lemma ref_minus1:
  assumes "unat (r :: u32) = n" "0 < n"
  shows "unat (r - 1) = n - 1 \<and> (r - 1 = 0 \<longleftrightarrow> n = 1)"
proof -
  have "(1 :: u32) \<le> r" using assms by (simp add: word_le_nat_alt)
  then have "unat (r - 1) = n - 1" using assms(1) by (simp add: unat_sub)
  moreover have "r - 1 = 0 \<longleftrightarrow> unat (r - 1) = 0" by (simp add: unat_eq_zero)
  ultimately show ?thesis using assms(2) by auto
qed

lemma Credential_Release_inv:
  assumes inv: "com_inv (st, ext, locks)" and c: "com_objs st i = Some (OCredential c)" and e: "0 < ext i"
  shows "com_inv (snd (Credential_Release i c st), ext(i := ext i - 1), locks)"
proof -
  have r: "unat (cr_cRef c) = ext i + owners st i" using com_invD(3) [OF inv c] by simp
  note m = ref_minus1 [OF r]
  show ?thesis
  proof (cases "cr_cRef c - 1 = 0")
    case True
    with m e have "ext i = 1" "owners st i = 0" by auto
    with True delete_inv [OF inv c] show ?thesis by (simp add: Credential_Release_def Let_def)
  next
    case False
    with m e have "0 < ext i - 1 + owners st i" "unat (cr_cRef c - 1) = ext i - 1 + owners st i" by auto
    with False put_inv [OF inv c, of "OCredential (c\<lparr>cr_cRef := cr_cRef c - 1\<rparr>)" "ext i - 1"] show ?thesis
      by (simp add: Credential_Release_def Let_def)
  qed
qed

text \<open>A provider's reference to its tile becomes one of the outside.\<close>

lemma drop_tile_inv:
  assumes inv: "com_inv (st, ext, locks)" and p: "com_objs st i = Some (OProvider p)" "cp_credential p = Some j"
  shows "com_inv (put i (OProvider (p\<lparr>cp_credential := None\<rparr>)) st, ext(j := ext j + 1), locks)"
proof -
  let ?p = "OProvider (p\<lparr>cp_credential := None\<rparr>)"
  let ?s = "put i ?p st"
  note D = com_invD [OF inv]
  have ij: "owns st i j" using p by (simp add: owns_def)
  from D(6) [OF this] obtain c where c: "com_objs st j = Some (OCredential c)" by blast
  then have ne: "i \<noteq> j" using p(1) by auto
  have own: "owns ?s q k \<longleftrightarrow> q \<noteq> i \<and> owns st q k" for q k
    using owns_upd [of ?s st i ?p q k] by auto
  have ow: "owners ?s k = (if k = j then 0 else owners st k)" for k
  proof (cases "k = j")
    case False
    then have "owns ?s q k \<longleftrightarrow> owns st q k" for q
      using own [of q k] owns_tile [OF p(1), of k] p(2) by auto
    with False show ?thesis by (simp add: owners_def)
  qed (use own D(7) [OF ij] in \<open>auto simp: owners_def\<close>)
  have oj: "owners st j = 1" using ij by (auto simp: owners_def)
  have dom: "dom (com_objs ?s) = dom (com_objs st)" using p(1) by auto
  show ?thesis
  proof (rule com_invI)
    show "unat (ref_of ob) = (ext(j := ext j + 1)) k + owners ?s k \<and> 0 < (ext(j := ext j + 1)) k + owners ?s k"
      if ob: "com_objs ?s k = Some ob" for k ob
    proof (cases "k = i")
      case True
      with ob p ne ow D(3) [OF p(1)] D(4) [OF p(1)] show ?thesis by auto
    next
      case False
      with ob ow oj D(3) [of k ob] D(4) [of k ob] show ?thesis by auto
    qed
    show "\<exists>c. com_objs ?s k = Some (OCredential c)" if "owns ?s q k" for q k
      using that own D(6) [of q k] p(1) by fastforce
  qed (use D dom own c ne in \<open>auto split: if_splits\<close>)
qed

lemma delete_after_release:
  "i \<noteq> j \<Longrightarrow> delete_obj i (snd (Credential_Release j c (put i Q st))) = delete_obj i (snd (Credential_Release j c (put i Q' st)))"
  by (cases st) (simp add: Credential_Release_def delete_obj_def put_def Let_def fun_upd_twist)

lemma not_owned: "com_inv (st, ext, locks) \<Longrightarrow> com_objs st i = Some ob \<Longrightarrow> (\<nexists>c. ob = OCredential c) \<Longrightarrow> owners st i = 0"
  using com_invD(6) [of st ext locks _ i] by (fastforce simp: owners_def)

lemma provider_destroy_inv:
  assumes inv: "com_inv (st, ext, locks)" and p: "com_objs st i = Some (OProvider p)"
  shows "\<exists>outs st'. CredentialProvider_destroy i p (put i Q st) = Some (outs, st') \<and> com_inv (st', ext(i := 0), locks)"
proof (cases "cp_credential p")
  case None
  have eq: "delete_obj i (put i Q st) = delete_obj i st" by (cases st) (simp add: delete_obj_def put_def)
  have "com_inv (delete_obj i (put i Q st), ext(i := 0), locks)"
    unfolding eq by (rule delete_inv [OF inv p _ not_owned [OF inv p]]) (use None in simp_all)
  with None show ?thesis
    by (simp add: CredentialProvider_destroy_def Let_def)
next
  case (Some j)
  let ?p = "OProvider (p\<lparr>cp_credential := None\<rparr>)"
  obtain c where c: "com_objs st j = Some (OCredential c)"
    using com_invD(6) [OF inv, of i j] p Some by (auto simp: owns_def)
  then have ne: "i \<noteq> j" using p by auto
  define s2 where "s2 = snd (Credential_Release j c (put i ?p st))"
  have "com_inv (s2, (ext(j := ext j + 1))(j := (ext(j := ext j + 1)) j - 1), locks)"
    unfolding s2_def by (rule Credential_Release_inv [OF drop_tile_inv [OF inv p Some]]) (use c ne in auto)
  then have i2: "com_inv (s2, ext, locks)" by simp
  have o2: "com_objs s2 i = Some ?p"
    using ne by (simp add: s2_def Credential_Release_def Let_def)
  have "com_inv (delete_obj i s2, ext(i := 0), locks)"
    by (rule delete_inv [OF i2 o2 _ not_owned [OF i2 o2]]) simp_all
  moreover have "delete_obj i (snd (Credential_Release j c (put i Q st))) = delete_obj i s2"
    unfolding s2_def by (rule delete_after_release [OF ne])
  ultimately show ?thesis
    using Some c ne by (simp add: CredentialProvider_destroy_def Let_def case_prod_unfold)
qed

text \<open>Giving back a reference that is held: the call is defined and keeps the counts right.\<close>

lemma Release_inv:
  assumes inv: "com_inv (st, ext, locks)" and e: "0 < ext i"
  shows "\<exists>outs st'. com_Release i st = Some (outs, st') \<and> com_inv (st', ext(i := ext i - 1), locks)"
proof -
  from e com_invD(5) [OF inv] obtain ob where ob: "com_objs st i = Some ob" by fastforce
  note m = ref_minus1 [OF com_invD(3) [OF inv ob] com_invD(4) [OF inv ob]]
  show ?thesis
  proof (cases ob)
    case (OFactory r)
    have z: "owners st i = 0" using not_owned [OF inv ob] OFactory by simp
    have "com_inv (ClassFactory_Release i r st, ext(i := ext i - 1), locks)"
    proof (cases "r - 1 = 0")
      case True
      with m z OFactory delete_inv [OF inv ob _ z] show ?thesis by (simp add: ClassFactory_Release_def)
    next
      case False
      with m z e OFactory put_inv [OF inv ob, of "OFactory (r - 1)" "ext i - 1"] show ?thesis by (auto simp: ClassFactory_Release_def)
    qed
    then show ?thesis using ob OFactory by (simp add: com_Release_def)
  next
    case (OProvider p)
    have z: "owners st i = 0" using not_owned [OF inv ob] OProvider by simp
    show ?thesis
    proof (cases "cp_cRef p - 1 = 0")
      case True
      with m z OProvider have "ext i = 1" by simp
      with True provider_destroy_inv [OF inv ob [unfolded OProvider]] show ?thesis
        using ob OProvider by (simp add: com_Release_def CredentialProvider_Release_def Let_def)
    next
      case False
      have "com_inv (put i (OProvider (p\<lparr>cp_cRef := cp_cRef p - 1\<rparr>)) st, ext(i := ext i - 1), locks)"
        by (rule put_inv [OF inv ob]) (use m z e OProvider False in auto)
      then show ?thesis
        using ob OProvider False by (simp add: com_Release_def CredentialProvider_Release_def Let_def)
    qed
  next
    case (OCredential c)
    with Credential_Release_inv [OF inv _ e, of c] ob show ?thesis
      by (simp add: com_Release_def) (metis prod.collapse)
  qed
qed

section \<open>Winlogon's calls\<close>

datatype tile_call = TAdvise "nat option" "nat option" "nat option" | TUnAdvise | TDeselect

fun tile_exec :: "tile_call \<Rightarrow> MobileUnlockCredential \<Rightarrow> HRESULT \<times> cred_out list \<times> MobileUnlockCredential" where
  "tile_exec (TAdvise e v t) c = Cred_Advise e v t c"
| "tile_exec TUnAdvise c = Cred_UnAdvise c"
| "tile_exec TDeselect c = SetDeselected c"

datatype com_op =
    MGetClass GUID IID bool "nat option"
  | MCreate nat bool IID bool "nat option"
  | MLock nat bool
  | MAddRef nat
  | MRelease nat
  | MQuery nat IID bool
  | MScenario nat USAGE_SCENARIO "nat option" bool
  | MGetTile nat u32 bool
  | MAdvise nat "nat option" size_t
  | MUnAdvise nat
  | MTile nat tile_call

definition provider_at :: "nat \<Rightarrow> com \<Rightarrow> CredentialProvider option" where
  "provider_at i st = (case com_objs st i of Some (OProvider p) \<Rightarrow> Some p | _ \<Rightarrow> None)"

definition tile_at :: "nat \<Rightarrow> com \<Rightarrow> MobileUnlockCredential option" where
  "tile_at i st = (case com_objs st i of Some (OCredential c) \<Rightarrow> Some c | _ \<Rightarrow> None)"

definition factory_at :: "nat \<Rightarrow> com \<Rightarrow> bool" where
  "factory_at i st = (case com_objs st i of Some (OFactory r) \<Rightarrow> True | _ \<Rightarrow> False)"

fun com_exec :: "com_op \<Rightarrow> com \<Rightarrow> com_result option" where
  "com_exec (MGetClass clsid riid ppv alloc) st = DllGetClassObject clsid riid ppv alloc st"
| "com_exec (MCreate f outer riid ppv alloc) st =
     (if factory_at f st then ClassFactory_CreateInstance outer riid ppv alloc st else None)"
| "com_exec (MLock f b) st = (if factory_at f st then let (hr, st) = ClassFactory_LockServer b st in Some (hr, None, st) else None)"
| "com_exec (MAddRef i) st = map_option (\<lambda>st. (S_OK, Some i, st)) (com_AddRef i st)"
| "com_exec (MRelease i) st = map_option (\<lambda>r. (S_OK, None, snd r)) (com_Release i st)"
| "com_exec (MQuery i riid ppv) st = com_QueryInterface i riid ppv st"
| "com_exec (MScenario i cpus cred factory) st =
     map_option (\<lambda>p. let (hr, st) = SetUsageScenario i p cpus cred factory st in (hr, None, st)) (provider_at i st)"
| "com_exec (MGetTile i k ppv) st = do { p \<leftarrow> provider_at i st; GetCredentialAt k ppv p st }"
| "com_exec (MAdvise i e ctx) st =
     map_option (\<lambda>p. let (hr, _, p) = Provider_Advise e ctx p in (hr, None, put i (OProvider p) st)) (provider_at i st)"
| "com_exec (MUnAdvise i) st =
     map_option (\<lambda>p. let (hr, _, p) = Provider_UnAdvise p in (hr, None, put i (OProvider p) st)) (provider_at i st)"
| "com_exec (MTile i call) st =
     map_option (\<lambda>c. let (hr, _, c) = tile_exec call c in (hr, None, put i (OCredential c) st)) (tile_at i st)"

text \<open>
  What Winlogon may do: call through a pointer it holds a reference to and that has the method, and undo only its own locks.
  Memory comes from addresses in no use.
\<close>

definition unused :: "nat option \<Rightarrow> com \<Rightarrow> bool" where
  "unused alloc st \<longleftrightarrow> (case alloc of None \<Rightarrow> True | Some a \<Rightarrow> com_objs st a = None)"

fun may_call :: "com_op \<Rightarrow> com_world \<Rightarrow> bool" where
  "may_call (MGetClass _ _ _ alloc) (st, ext, locks) \<longleftrightarrow> unused alloc st"
| "may_call (MCreate f _ _ _ alloc) (st, ext, locks) \<longleftrightarrow> unused alloc st \<and> 0 < ext f \<and> factory_at f st"
| "may_call (MLock f b) (st, ext, locks) \<longleftrightarrow> 0 < ext f \<and> factory_at f st \<and> (b \<or> 0 < locks)"
| "may_call (MAddRef i) (st, ext, locks) \<longleftrightarrow> 0 < ext i"
| "may_call (MRelease i) (st, ext, locks) \<longleftrightarrow> 0 < ext i"
| "may_call (MQuery i _ _) (st, ext, locks) \<longleftrightarrow> 0 < ext i"
| "may_call (MScenario i _ cred _) (st, ext, locks) \<longleftrightarrow> unused cred st \<and> 0 < ext i \<and> provider_at i st \<noteq> None"
| "may_call (MGetTile i _ _) (st, ext, locks) \<longleftrightarrow> 0 < ext i \<and> provider_at i st \<noteq> None"
| "may_call (MAdvise i _ _) (st, ext, locks) \<longleftrightarrow> 0 < ext i \<and> provider_at i st \<noteq> None"
| "may_call (MUnAdvise i) (st, ext, locks) \<longleftrightarrow> 0 < ext i \<and> provider_at i st \<noteq> None"
| "may_call (MTile i _) (st, ext, locks) \<longleftrightarrow> 0 < ext i \<and> tile_at i st \<noteq> None"

fun ext_after :: "com_op \<Rightarrow> nat option \<Rightarrow> (nat \<Rightarrow> nat) \<Rightarrow> nat \<Rightarrow> nat" where
  "ext_after (MRelease i) _ ext = ext(i := ext i - 1)"
| "ext_after _ (Some j) ext = ext(j := ext j + 1)"
| "ext_after _ None ext = ext"

fun locks_after :: "com_op \<Rightarrow> nat \<Rightarrow> nat" where
  "locks_after (MLock _ b) locks = (if b then locks + 1 else locks - 1)"
| "locks_after _ locks = locks"

definition com_step :: "com_world \<Rightarrow> com_op \<times> HRESULT \<times> nat option \<Rightarrow> com_world \<Rightarrow> bool" where
  "com_step w e w' \<longleftrightarrow> may_call (fst e) w \<and> (\<forall>i. fst (snd w) i < 2 ^ 31) \<and>
     com_exec (fst e) (fst w) = Some (fst (snd e), snd (snd e), fst w') \<and>
     snd w' = (ext_after (fst e) (snd (snd e)) (fst (snd w)), locks_after (fst e) (snd (snd w)))"

section \<open>Every permitted call is defined and keeps the counts\<close>

lemma Query_inv:
  assumes "com_inv (st, ext, locks)" "com_objs st i = Some ob" "ext i < 2 ^ 31"
  shows "\<exists>hr q st'. com_QueryInterface i riid ppv st = Some (hr, q, st') \<and>
    (q = Some i \<and> com_inv (st', ext(i := ext i + 1), locks) \<or> q = None \<and> st' = st)"
  using AddRef_inv [OF assms] assms(2) by (auto simp: com_QueryInterface_def)

lemma create_inv:
  assumes inv: "com_inv (st, ext, locks)" and a: "com_objs st a = None" and ob: "tile_of ob = None" "ref_of ob = 1"
  shows "\<exists>hr q st'. create_and_query a ob riid st = Some (hr, q, st') \<and>
    (q = Some a \<and> com_inv (st', ext(a := ext a + 1), locks) \<or> q = None \<and> com_inv (st', ext, locks))"
proof -
  have z: "ext a = 0" by (rule com_invD(5) [OF inv a])
  have n: "com_inv (new_obj a ob st, ext(a := 1), locks)" by (rule new_inv [OF inv a ob])
  obtain hr q st1 where q: "com_QueryInterface a riid True (new_obj a ob st) = Some (hr, q, st1)"
    "q = Some a \<and> com_inv (st1, (ext(a := 1))(a := 1 + 1), locks) \<or> q = None \<and> st1 = new_obj a ob st"
    using Query_inv [OF n, of a ob riid True] by auto
  obtain k where k: "com_inv (st1, ext(a := Suc k), locks)" "k = (if q = None then 0 else 1)"
    using q(2) n by auto
  from Release_inv [OF k(1), of a] obtain outs st2 where r: "com_Release a st1 = Some (outs, st2)" "com_inv (st2, ext(a := k), locks)"
    by auto
  have "ext(a := 0) = ext" using z by auto
  with r k(2) q z show ?thesis
    by (auto simp: create_and_query_def split: if_splits)
qed

lemma create_ext:
  assumes "com_inv (st, ext, locks)" "com_objs st a = None" "tile_of ob = None" "ref_of ob = 1" "\<And>i. op \<noteq> MRelease i"
  shows "\<exists>hr q st'. create_and_query a ob riid st = Some (hr, q, st') \<and> com_inv (st', ext_after op q ext, locks)"
proof -
  have "ext_after op q ext = (case q of Some j \<Rightarrow> ext(j := ext j + 1) | None \<Rightarrow> ext)" for q
    using assms(5) by (cases op; cases q) auto
  with create_inv [OF assms(1-4), of riid] show ?thesis by auto
qed

text \<open>A provider gets its tile, and with it the constructor's reference.\<close>

lemma gain_tile_inv:
  assumes inv: "com_inv (st, ext, locks)" and p: "com_objs st i = Some (OProvider p)" "cp_credential p = None"
    and a: "com_objs st a = None" and c: "cr_cRef c = 1" and p': "cp_credential p' = Some a" "cp_cRef p' = cp_cRef p"
  shows "com_inv (put i (OProvider p') (new_obj a (OCredential c) st), ext, locks)"
proof -
  let ?s = "put i (OProvider p') (new_obj a (OCredential c) st)"
  note D = com_invD [OF inv]
  have ne: "i \<noteq> a" using p a by auto
  have na: "\<not> owns st q a" for q using D(6) [of q a] a by auto
  have own: "owns ?s q k \<longleftrightarrow> (if q = i then k = a else owns st q k)" for q k
    using ne p a p' by (auto simp: owns_def)
  have ni: "\<not> owns st i k" for k using p by (simp add: owns_def)
  have ow: "owners ?s k = (if k = a then 1 else owners st k)" for k
    using own na ni by (auto simp: owners_def)
  have "dom (com_objs ?s) = insert a (dom (com_objs st))" using p(1) by auto
  then have card: "finite (dom (com_objs ?s))" "card (dom (com_objs ?s)) = Suc (card (dom (com_objs st)))"
    using D(1) a by (simp_all add: domIff)
  show ?thesis
  proof (rule com_invI)
    show "unat (ref_of ob) = ext k + owners ?s k \<and> 0 < ext k + owners ?s k" if ob: "com_objs ?s k = Some ob" for k ob
    proof -
      consider "k = a" | "k = i" | "k \<noteq> a" "k \<noteq> i" by blast
      then show ?thesis
        by cases (use ob ne ow c p' D(3) [of i] D(4) [of i] D(3) [of k] D(4) [of k] D(5) [OF a] p in auto)
    qed
    show "\<exists>c. com_objs ?s k = Some (OCredential c)" if "owns ?s q k" for q k
      using that own ne p(1) D(6) [of q k] by (fastforce split: if_splits)
    show "q = q'" if "owns ?s q k" "owns ?s q' k" for q q' k
      using that own na D(7) by (auto split: if_splits)
  qed (use card D in \<open>auto split: if_splits\<close>)
qed

lemma tile_exec_ref: "tile_exec call c = (hr, outs, c') \<Longrightarrow> cr_cRef c' = cr_cRef c"
  by (cases call) (auto simp: Cred_Advise_def Cred_UnAdvise_def SetDeselected_def ClearInternalAuthState_def UpdateStatusField_def Let_def
      split: option.splits if_splits)

lemma provider_atD: "provider_at i st = Some p \<Longrightarrow> com_objs st i = Some (OProvider p)"
  by (simp add: provider_at_def split: option.splits com_obj.splits)

lemma tile_atD: "tile_at i st = Some c \<Longrightarrow> com_objs st i = Some (OCredential c)"
  by (simp add: tile_at_def split: option.splits com_obj.splits)

lemma keep_inv:
  assumes "com_inv (st, ext, locks)" "com_objs st i = Some ob" "same_kind ob ob'" "tile_of ob' = tile_of ob" "ref_of ob' = ref_of ob"
  shows "com_inv (put i ob' st, ext, locks)"
  using put_inv [OF assms(1-4), of "ext i"] com_invD(3,4) [OF assms(1,2)] assms(5) by simp

lemma lock_inv:
  assumes "com_inv (st, ext, locks)" "b \<or> 0 < locks"
  shows "com_inv (snd (ClassFactory_LockServer b st), ext, if b then locks + 1 else locks - 1)"
proof -
  let ?s = "snd (ClassFactory_LockServer b st)"
  have l: "(of_nat (locks - 1) :: u32) = of_nat locks - 1" if "0 < locks"
    using that by (simp add: of_nat_diff)
  have own: "owns ?s = owns st" "com_objs ?s = com_objs st"
    by (simp_all add: ClassFactory_LockServer_def owns_def fun_eq_iff)
  then have ow: "owners ?s = owners st" by (simp add: owners_def fun_eq_iff)
  note D = com_invD [OF assms(1)]
  have "g_cDllRef ?s = of_nat (card (dom (com_objs ?s)) + (if b then locks + 1 else locks - 1))"
    using D(2) assms(2) l by (auto simp: ClassFactory_LockServer_def)
  then show ?thesis
    by (rule com_invI [rotated]) (use D own ow in auto)
qed

lemma scenario_inv:
  assumes inv: "com_inv (st, ext, locks)" and p: "com_objs st i = Some (OProvider p)" and u: "unused cred st"
  shows "com_inv (snd (SetUsageScenario i p cpus cred factory st), ext, locks)"
proof -
  have put: "com_inv (put i (OProvider p') st, ext, locks)" if "cp_credential p' = cp_credential p" "cp_cRef p' = cp_cRef p" for p'
    by (rule keep_inv [OF inv p]) (use that in simp_all)
  have gain: "com_inv (put i (OProvider p') (new_obj a (OCredential (MobileUnlockCredential_new factory)) st), ext, locks)"
    if "cp_credential p = None" "cred = Some a" "cp_credential p' = Some a" "cp_cRef p' = cp_cRef p" for a p'
    by (rule gain_tile_inv [OF inv p]) (use that u in \<open>simp_all add: unused_def MobileUnlockCredential_new_def MobileUnlockCredential_with_def\<close>)
  show ?thesis
    by (auto simp: SetUsageScenario_def Let_def split: option.splits intro!: put gain)
qed

lemma com_exec_inv:
  assumes inv: "com_inv (st, ext, locks)" and may: "may_call op (st, ext, locks)" and room: "\<And>i. ext i < 2 ^ 31"
  shows "\<exists>hr q st'. com_exec op st = Some (hr, q, st') \<and> com_inv (st', ext_after op q ext, locks_after op locks)"
proof (cases op)
  case (MGetClass clsid riid ppv alloc)
  with inv may create_ext [OF inv, of _ "OFactory 1" op riid] show ?thesis
    by (auto simp: DllGetClassObject_def unused_def split: option.splits)
next
  case (MCreate f outer riid ppv alloc)
  with inv may create_ext [OF inv, of _ "OProvider CredentialProvider_new" op riid] show ?thesis
    by (auto simp: ClassFactory_CreateInstance_def unused_def CredentialProvider_new_def split: option.splits)
next
  case (MLock f b)
  with may lock_inv [OF inv, of b] show ?thesis by (simp add: case_prod_unfold Let_def)
next
  case (MAddRef i)
  with may com_invD(5) [OF inv, of i] AddRef_inv [OF inv _ room, of i] show ?thesis
    by (cases "com_objs st i") auto
next
  case (MRelease i)
  with may Release_inv [OF inv, of i] show ?thesis by auto
next
  case (MQuery i riid ppv)
  with may com_invD(5) [OF inv, of i] Query_inv [OF inv _ room, of i _ riid ppv] inv show ?thesis
    by (cases "com_objs st i") auto
next
  case (MScenario i cpus cred factory)
  with may scenario_inv [OF inv provider_atD, of i] show ?thesis by (auto simp: case_prod_unfold Let_def)
next
  case (MGetTile i k ppv)
  with may obtain p where p: "provider_at i st = Some p" by auto
  have "\<exists>st'. com_AddRef j st = Some st' \<and> com_inv (st', ext(j := ext j + 1), locks)" if "cp_credential p = Some j" for j
    using that provider_atD [OF p] com_invD(6) [OF inv, of i j] AddRef_inv [OF inv _ room, of j] by (auto simp: owns_def)
  with MGetTile p inv show ?thesis
    by (auto simp: GetCredentialAt_def split: option.splits)
next
  case (MAdvise i e ctx)
  with may keep_inv [OF inv provider_atD, of i] show ?thesis by (auto simp: Provider_Advise_def Let_def)
next
  case (MUnAdvise i)
  with may keep_inv [OF inv provider_atD, of i] show ?thesis by (auto simp: Provider_UnAdvise_def Let_def)
next
  case (MTile i call)
  with may obtain c where c: "tile_at i st = Some c" by auto
  obtain hr outs c' where "tile_exec call c = (hr, outs, c')" by (cases "tile_exec call c")
  with MTile c keep_inv [OF inv tile_atD [OF c], of "OCredential c'"] tile_exec_ref show ?thesis by fastforce
qed

interpretation com_machine: invariant_machine com_step com_inv
proof
  fix w e w'
  assume inv: "com_inv w" and st: "com_step w e w'"
  obtain s ext locks where w: "w = (s, ext, locks)" by (cases w)
  obtain op hr q where e: "e = (op, hr, q)" by (cases e)
  from com_exec_inv [of s ext locks op] inv st w e show "com_inv w'"
    by (cases w') (auto simp: com_step_def)
qed

lemma com_inv_init: "com_inv (com_init, (\<lambda>_. 0), 0)"
  by (simp add: com_inv_def com_init_def owns_def)

text \<open>C22: no permitted call touches a deleted object. Whatever Winlogon has done so far, each call it makes through a pointer that it
  holds a reference to is carried out: the object is still there, and so are the tile that a provider hands out and every
  object that a release deletes in turn.\<close>

theorem com_calls_defined:
  assumes "run com_step (com_init, (\<lambda>_. 0), 0) es (st, ext, locks)" "may_call op (st, ext, locks)" "\<forall>i. ext i < 2 ^ 31"
  shows "com_exec op st \<noteq> None"
  using com_exec_inv [OF com_machine.run_inv [OF assms(1) com_inv_init] assms(2)] assms(3) by auto

text \<open>C23: the library may be unloaded exactly when nothing of it is in use: \<^verbatim>\<open>DllCanUnloadNow\<close> answers S\_OK if and only if
  no factory, provider or tile is alive and Winlogon holds no server lock, as long as their number fits the counter.\<close>

theorem dll_unload_exact:
  assumes "run com_step (com_init, (\<lambda>_. 0), 0) es (st, ext, locks)" "card (dom (com_objs st)) + locks < 2 ^ 32"
  shows "DllCanUnloadNow st = S_OK \<longleftrightarrow> com_objs st = Map.empty \<and> locks = 0"
proof -
  have inv: "com_inv (st, ext, locks)" by (rule com_machine.run_inv [OF assms(1) com_inv_init])
  have "unat (g_cDllRef st) = card (dom (com_objs st)) + locks"
    using com_invD(2) [OF inv] assms(2) unat_of_nat_less [of "card (dom (com_objs st)) + locks", where 'a = 32] by simp
  then have "g_cDllRef st = 0 \<longleftrightarrow> card (dom (com_objs st)) + locks = 0"
    by (metis unat_0 unat_eq_zero)
  then show ?thesis
    using com_invD(1) [OF inv] by (auto simp: DllCanUnloadNow_def com_consts)
qed

text \<open>Winlogon loads the library and gets a provider with a tile.\<close>

definition demo_provider :: CredentialProvider where
  "demo_provider = CredentialProvider_new\<lparr>cp_cpus := CPUS_LOGON, cp_usageScenarioSet := True, cp_credential := Some 30\<rparr>"

definition demo_com :: com where
  "demo_com = \<lparr>g_cDllRef = 3, com_objs = [10 \<mapsto> OFactory 1, 30 \<mapsto> OCredential (MobileUnlockCredential_new True), 20 \<mapsto> OProvider demo_provider]\<rparr>"

definition demo_ext :: "nat \<Rightarrow> nat" where
  "demo_ext = (\<lambda>_. 0)(10 := 1, 20 := 1)"

lemma demo_com_run:
  "run com_step (com_init, (\<lambda>_. 0), 0)
     [(MGetClass CLSID_MobileUnlockProvider IID_IClassFactory True (Some 10), S_OK, Some 10),
      (MCreate 10 False IID_ICredentialProvider True (Some 20), S_OK, Some 20),
      (MScenario 20 CPUS_LOGON (Some 30) True, S_OK, None)] (demo_com, demo_ext, 0)"
proof -
  note create = create_and_query_def com_QueryInterface_def com_AddRef_def com_Release_def ClassFactory_Release_def
    CredentialProvider_Release_def new_obj_def put_def CredentialProvider_new_def Let_def
  let ?s1 = "\<lparr>g_cDllRef = 1, com_objs = [10 \<mapsto> OFactory 1]\<rparr>"
  let ?s2 = "\<lparr>g_cDllRef = 2, com_objs = [10 \<mapsto> OFactory 1, 20 \<mapsto> OProvider CredentialProvider_new]\<rparr>"
  have "com_step (com_init, (\<lambda>_. 0), 0) (MGetClass CLSID_MobileUnlockProvider IID_IClassFactory True (Some 10), S_OK, Some 10)
      (?s1, (\<lambda>_. 0)(10 := 1), 0)"
    by (simp add: com_step_def unused_def com_init_def DllGetClassObject_def create)
  moreover have "com_step (?s1, (\<lambda>_. 0)(10 := 1), 0) (MCreate 10 False IID_ICredentialProvider True (Some 20), S_OK, Some 20) (?s2, demo_ext, 0)"
    by (simp add: com_step_def unused_def factory_at_def ClassFactory_CreateInstance_def demo_ext_def create)
  moreover have "com_step (?s2, demo_ext, 0) (MScenario 20 CPUS_LOGON (Some 30) True, S_OK, None) (demo_com, demo_ext, 0)"
    by (simp add: com_step_def unused_def provider_at_def SetUsageScenario_def demo_ext_def demo_com_def demo_provider_def create fun_upd_twist)
  ultimately show ?thesis by (meson run.intros)
qed

theorem com_calls_defined_witness: "com_exec (MGetTile 20 0 True) demo_com \<noteq> None"
  by (rule com_calls_defined [OF demo_com_run]) (simp_all add: demo_ext_def provider_at_def demo_com_def)

theorem dll_unload_exact_witness: "DllCanUnloadNow demo_com = S_OK \<longleftrightarrow> com_objs demo_com = Map.empty \<and> (0 :: nat) = 0"
  by (rule dll_unload_exact [OF demo_com_run]) (simp add: demo_com_def)

end
