(* ===== verification/DeviceStore.thy ===== *)
theory DeviceStore
  imports DeviceRegistry
begin

text \<open>
  What the trusted-device records promise to the components that share them: they behave as a finite map from device
  identifiers to records. The contract is the locale \<open>device_table\<close>; the operations of \<open>DeviceRegistry\<close> satisfy it for
  every registry with the documented behaviour, and so every history of them is a history of map updates.
\<close>

section \<open>The contract\<close>

text \<open>
  Every operation is about one device, its \<open>subject\<close>: it changes the record of that device by its \<open>effect\<close> and leaves the
  records of all others alone.
\<close>

locale device_table =
  fixes step :: "'s \<Rightarrow> 'op \<Rightarrow> 's \<Rightarrow> bool"
    and devs :: "'s \<Rightarrow> 'k \<Rightarrow> 'r option"
    and subject :: "'op \<Rightarrow> 'k"
    and effect :: "'op \<Rightarrow> 'r option \<Rightarrow> 'r option"
  assumes own: "step s op t \<Longrightarrow> devs t (subject op) = effect op (devs s (subject op))"
    and others: "step s op t \<Longrightarrow> k \<noteq> subject op \<Longrightarrow> devs t k = devs s k"
begin

text \<open>A history is decided by the operations on the device, in order.\<close>

lemma run_devs: "run step s ops t \<Longrightarrow> devs t k = fold effect (filter (\<lambda>op. subject op = k) ops) (devs s k)"
  by (induction rule: run.induct) (auto simp: own others)

lemma run_untouched: "run step s ops t \<Longrightarrow> \<forall>op\<in>set ops. subject op \<noteq> k \<Longrightarrow> devs t k = devs s k"
  by (simp add: run_devs filter_False)

text \<open>What the operations on a device keep of its record holds after every history.\<close>

lemma run_keeps:
  assumes "run step s ops t" "P (devs s k)"
    and "\<And>op x. op \<in> set ops \<Longrightarrow> subject op = k \<Longrightarrow> P x \<Longrightarrow> P (effect op x)"
  shows "P (devs t k)"
  using assms by (induction rule: run.induct) (fastforce simp: own others, metis list.set_intros own others)

end

text \<open>The table refines the machine whose state is the map.\<close>

definition map_step :: "('op \<Rightarrow> 'k) \<Rightarrow> ('op \<Rightarrow> 'r option \<Rightarrow> 'r option) \<Rightarrow> ('k \<Rightarrow> 'r option) \<Rightarrow> 'op \<Rightarrow> ('k \<Rightarrow> 'r option) \<Rightarrow> bool" where
  "map_step subject effect m op m' \<longleftrightarrow> m' = m(subject op := effect op (m (subject op)))"

sublocale device_table \<subseteq> as_map: refinement step "map_step subject effect" devs "(=)"
  by unfold_locales (auto simp: map_step_def fun_eq_iff own others)

section \<open>The operations on the records\<close>

datatype store_op = StWrite DeviceRecord | StStatus DeviceId u32 | StSeen DeviceId FILETIME | StDelete DeviceId

fun store_exec :: "'w reg_api \<Rightarrow> store_op \<Rightarrow> 'w reg_state \<Rightarrow> u32 \<times> 'w reg_state" where
  "store_exec api (StWrite rec) st = WriteDeviceRecord api rec st"
| "store_exec api (StStatus a status) st = SetDeviceStatus api (DeviceIdToString a) status st"
| "store_exec api (StSeen a now) st = UpdateLastSeen api now (DeviceIdToString a) st"
| "store_exec api (StDelete a) st = DeleteDeviceRecord api (DeviceIdToString a) st"

fun store_subject :: "store_op \<Rightarrow> DeviceId" where
  "store_subject (StWrite rec) = dr_deviceId rec"
| "store_subject (StStatus a _) = a"
| "store_subject (StSeen a _) = a"
| "store_subject (StDelete a) = a"

fun store_effect :: "store_op \<Rightarrow> DeviceRecord option \<Rightarrow> DeviceRecord option" where
  "store_effect (StWrite rec) _ = Some rec"
| "store_effect (StStatus _ status) r = map_option (dr_pairStatus_update (\<lambda>_. status)) r"
| "store_effect (StSeen _ now) r = map_option (dr_lastSeen_update (\<lambda>_. now)) r"
| "store_effect (StDelete _) _ = None"

fun store_op_ok :: "store_op \<Rightarrow> bool" where
  "store_op_ok (StWrite rec) = storable rec"
| "store_op_ok op = (length (store_subject op) = 16)"

text \<open>
  A step: a write or a deletion that reports success, or a change of the status or the time stamp whatever it reports.
  A write that fell back to the other hive is none: the records of the old one are out of sight after it.
\<close>

fun must_succeed :: "store_op \<Rightarrow> bool" where
  "must_succeed (StWrite _) = True"
| "must_succeed (StDelete _) = True"
| "must_succeed _ = False"

definition store_step :: "'w reg_api \<Rightarrow> 'w reg_state \<Rightarrow> store_op \<Rightarrow> 'w reg_state \<Rightarrow> bool" where
  "store_step api st op st' \<longleftrightarrow> store_op_ok op \<and> s_registryRoot st' = s_registryRoot st \<and>
     (\<exists>err. store_exec api op st = (err, st') \<and> (must_succeed op \<longrightarrow> err = ERROR_SUCCESS))"

text \<open>The records as the program reads them.\<close>

definition devices :: "'w reg_api \<Rightarrow> 'w reg_state \<Rightarrow> DeviceId \<Rightarrow> DeviceRecord option" where
  "devices api st a =
     (if length a \<noteq> 16 then None
      else case ReadDeviceRecord api st (DeviceIdToString a) DeviceRecord_init of
        None \<Rightarrow> None
      | Some (err, rec) \<Rightarrow> if err = ERROR_SUCCESS then Some rec else None)"

section \<open>The records satisfy the contract\<close>

abbreviation device_values :: "(wstring \<Rightarrow> wstring) \<Rightarrow> 'w reg_view \<Rightarrow> 'w reg_state \<Rightarrow> DeviceId \<Rightarrow> reg_values option" where
  "device_values kf view st a \<equiv> view (reg_world st) (s_registryRoot st, kf (device_key (DeviceIdToString a)))"

lemma devices_None:
  assumes "reg_laws api kf view" "device_values kf view st a = None"
  shows "devices api st a = None"
proof -
  have "RegOpenKeyExW api (reg_world st) (s_registryRoot st) (device_key (DeviceIdToString a)) KEY_READ \<noteq> ERROR_SUCCESS"
    using laws_open [OF assms(1)] assms(2) by metis
  then show ?thesis by (simp add: devices_def ReadDeviceRecord_def)
qed

text \<open>Two readable keys with the same values, or both missing, hold the same record.\<close>

lemma devices_cong:
  assumes "reg_laws api kf view" "reg_available api kf view" "device_values kf view st' a = device_values kf view st a"
  shows "devices api st' a = devices api st a"
proof (cases "device_values kf view st a")
  case None
  with assms show ?thesis by (metis devices_None)
next
  case (Some m)
  with assms(3) have "device_values kf view st' a = Some m" by simp
  with Some assms(1,2) show ?thesis
    by (simp add: devices_def ReadDeviceRecord_view)
qed

lemma found_upd: "kf n \<noteq> kf n' \<Longrightarrow> found kf (m(kf n' := v)) n k = found kf m n k"
  by (simp add: found_def)

lemma found_same: "length d = k \<Longrightarrow> found kf (m(kf n := Some (t, d))) n k = Some (d, k)"
  by (simp add: found_def)

lemma devices_one_value:
  assumes laws: "reg_laws api kf view" "reg_available api kf view" and m: "device_values kf view st a = Some m"
    and m': "device_values kf view st' a = Some m'"
    and same: "\<And>n k. n \<noteq> u \<Longrightarrow> n \<in> {kRegValPairStatus, kRegValDeviceName, kRegValAccountSid, kRegValPublicKey, kRegValPairedTime,
      kRegValLastSeen} \<Longrightarrow> found kf m' n k = found kf m n k"
  shows "u = kRegValPairStatus \<Longrightarrow> found kf m' u 4 = Some (to_le 4 status, 4) \<Longrightarrow>
      devices api st' a = map_option (dr_pairStatus_update (\<lambda>_. status)) (devices api st a)"
    and "u = kRegValLastSeen \<Longrightarrow> found kf m' u 8 = Some (to_le 8 (toU64 now), 8) \<Longrightarrow>
      devices api st' a = map_option (dr_lastSeen_update (\<lambda>_. now)) (devices api st a)"
proof -
  have names: "distinct [kRegValPairStatus, kRegValDeviceName, kRegValAccountSid, kRegValPublicKey, kRegValPairedTime, kRegValLastSeen]"
    by code_simp
  note r = ReadDeviceRecord_view [OF laws m] ReadDeviceRecord_view [OF laws m']
  show "u = kRegValPairStatus \<Longrightarrow> found kf m' u 4 = Some (to_le 4 status, 4) \<Longrightarrow>
      devices api st' a = map_option (dr_pairStatus_update (\<lambda>_. status)) (devices api st a)"
    "u = kRegValLastSeen \<Longrightarrow> found kf m' u 8 = Some (to_le 8 (toU64 now), 8) \<Longrightarrow>
      devices api st' a = map_option (dr_lastSeen_update (\<lambda>_. now)) (devices api st a)"
    using names by (auto simp: devices_def r same from_le_to_le Let_def split: bind_splits)
qed

text \<open>A change of one value, as \<^verbatim>\<open>SetDeviceStatus\<close> and \<^verbatim>\<open>UpdateLastSeen\<close> make it: all or, without a key, nothing.\<close>

definition set_one :: "'w reg_api \<Rightarrow> wstring \<Rightarrow> wstring \<Rightarrow> u32 \<Rightarrow> bytes \<Rightarrow> 'w reg_state \<Rightarrow> u32 \<times> 'w reg_state" where
  "set_one api p n t d st =
     (let err = RegOpenKeyExW api (reg_world st) (s_registryRoot st) p KEY_SET_VALUE
      in if err \<noteq> ERROR_SUCCESS then (err, st)
         else let (err, w) = RegSetValueExW api (reg_world st) (s_registryRoot st, p) n t d in (err, st\<lparr>reg_world := w\<rparr>))"

lemma set_one_eqs:
  "SetDeviceStatus api d status st = set_one api (device_key d) kRegValPairStatus REG_DWORD (to_le 4 status) st"
  "UpdateLastSeen api now d st = set_one api (device_key d) kRegValLastSeen REG_QWORD (to_le 8 (toU64 now)) st"
  by (simp_all add: set_one_def SetDeviceStatus_def UpdateLastSeen_def Let_def)

lemma set_one_view:
  assumes laws: "reg_laws api kf view" "reg_available api kf view" and ok: "set_one api p n t d st = (e, st')"
  shows "s_registryRoot st' = s_registryRoot st"
    and "view (reg_world st') = (view (reg_world st))((s_registryRoot st, kf p) :=
      map_option (\<lambda>m. m(kf n := Some (t, d))) (view (reg_world st) (s_registryRoot st, kf p)))"
proof -
  show "s_registryRoot st' = s_registryRoot st"
    using ok by (auto simp: set_one_def Let_def split: if_splits prod.splits)
  show "view (reg_world st') = (view (reg_world st))((s_registryRoot st, kf p) :=
      map_option (\<lambda>m. m(kf n := Some (t, d))) (view (reg_world st) (s_registryRoot st, kf p)))"
  proof (cases "view (reg_world st) (s_registryRoot st, kf p)")
    case None
    then have "RegOpenKeyExW api (reg_world st) (s_registryRoot st) p KEY_SET_VALUE \<noteq> ERROR_SUCCESS"
      using laws_open [OF laws(1)] by metis
    with ok None show ?thesis by (auto simp: set_one_def)
  next
    case (Some m)
    then have "RegOpenKeyExW api (reg_world st) (s_registryRoot st) p KEY_SET_VALUE = ERROR_SUCCESS"
      "fst (RegSetValueExW api (reg_world st) (s_registryRoot st, p) n t d) = ERROR_SUCCESS"
      using available_open [OF laws(2)] available_set [OF laws(2)] by simp_all
    with ok Some laws_set [OF laws(1) Some] show ?thesis
      by (auto simp: set_one_def split: prod.splits)
  qed
qed

text \<open>The key of one device is neither the key of another nor on the way to it.\<close>

lemma device_key_apart:
  assumes "folds_ascii kf" "length a = 16" "length b = 16"
    and "kf (device_key (DeviceIdToString b)) = kf (take n (device_key (DeviceIdToString a)))"
  shows "a = b"
proof -
  let ?a = "device_key (DeviceIdToString a)" and ?b = "device_key (DeviceIdToString b)"
  have len: "length ?a = length ?b"
    using arg_cong [OF device_path_ascii(2) [of a], of length] arg_cong [OF device_path_ascii(2) [of b], of length] by simp
  have "ascii (take n ?a)"
    using device_path_ascii(1) [of a] by (auto simp: ascii_def dest: in_set_takeD)
  then have e: "map wlower ?b = map wlower (take n ?a)"
    using assms(1,4) device_path_ascii(1) [of b] by (auto simp: folds_ascii_def)
  then have "length ?b = length (take n ?a)" by (metis length_map)
  with len have "take n ?a = ?a" by simp
  with assms(4) show ?thesis using device_path_inject [OF assms(1-3)] by simp
qed

text \<open>The four operations, each on its device and on the others.\<close>

lemma set_one_devices:
  assumes laws: "reg_laws api kf view" "reg_available api kf view"
    and root: "s_registryRoot st' = s_registryRoot st"
    and v: "view (reg_world st') = (view (reg_world st))((s_registryRoot st, kf (device_key (DeviceIdToString a))) :=
      map_option (\<lambda>m. m(kf u := Some (t, d))) (device_values kf view st a))"
  shows "u = kRegValPairStatus \<Longrightarrow> d = to_le 4 status \<Longrightarrow>
      devices api st' a = map_option (dr_pairStatus_update (\<lambda>_. status)) (devices api st a)"
    and "u = kRegValLastSeen \<Longrightarrow> d = to_le 8 (toU64 now) \<Longrightarrow>
      devices api st' a = map_option (dr_lastSeen_update (\<lambda>_. now)) (devices api st a)"
    and "length a = 16 \<Longrightarrow> b \<noteq> a \<Longrightarrow> devices api st' b = devices api st b"
proof -
  have kf: "folds_ascii kf" using laws(1) by (simp add: reg_laws_def)
  have none: "devices api st' a = None \<and> devices api st a = None" if "device_values kf view st a = None"
    using that root v devices_None [OF laws(1)] by (metis fun_upd_same option.map_disc_iff)
  note names = value_names_distinct [OF kf]
  have upd: "device_values kf view st' a = Some (m(kf u := Some (t, d)))" if "device_values kf view st a = Some m" for m
    using that root v by simp
  have other: "found kf (m(kf u := x)) n k = found kf m n k" if "n \<noteq> u" "{n, u} \<subseteq> {kRegValPairStatus, kRegValDeviceName,
      kRegValAccountSid, kRegValPublicKey, kRegValPairedTime, kRegValLastSeen}" for m n k x
    using that names by (intro found_upd) auto
  show "devices api st' a = map_option (dr_pairStatus_update (\<lambda>_. status)) (devices api st a)"
    if "u = kRegValPairStatus" "d = to_le 4 status"
  proof (cases "device_values kf view st a")
    case (Some m)
    show ?thesis
      by (rule devices_one_value(1) [OF laws Some upd [OF Some] _ that(1)])
        (use that other in \<open>simp_all add: found_same del: fun_upd_apply\<close>)
  qed (simp add: none)
  show "devices api st' a = map_option (dr_lastSeen_update (\<lambda>_. now)) (devices api st a)"
    if "u = kRegValLastSeen" "d = to_le 8 (toU64 now)"
  proof (cases "device_values kf view st a")
    case (Some m)
    show ?thesis
      by (rule devices_one_value(2) [OF laws Some upd [OF Some] _ that(1)])
        (use that other in \<open>simp_all add: found_same del: fun_upd_apply\<close>)
  qed (simp add: none)
  show "length a = 16 \<Longrightarrow> b \<noteq> a \<Longrightarrow> devices api st' b = devices api st b"
  proof (cases "length b = 16")
    case True
    assume "length a = 16" "b \<noteq> a"
    then have "kf (device_key (DeviceIdToString b)) \<noteq> kf (device_key (DeviceIdToString a))"
      using device_path_inject [OF kf True] by blast
    then show ?thesis by (intro devices_cong [OF laws]) (simp add: v root)
  qed (simp add: devices_def)
qed

lemma write_devices:
  assumes laws: "reg_laws api kf view" "reg_available api kf view"
    and ok: "WriteDeviceRecord api rec st = (ERROR_SUCCESS, st')" "storable rec" and root: "s_registryRoot st' = s_registryRoot st"
  shows "devices api st' (dr_deviceId rec) = Some rec"
    and "b \<noteq> dr_deviceId rec \<Longrightarrow> devices api st' b = devices api st b"
proof -
  have len: "length (dr_deviceId rec) = 16" using ok(2) by (simp add: storable_def)
  have kf: "folds_ascii kf" using laws(1) by (simp add: reg_laws_def)
  show "devices api st' (dr_deviceId rec) = Some rec"
    using read_after_write [OF laws ok] len by (simp add: devices_def DeviceRecord_init_def)
  show "b \<noteq> dr_deviceId rec \<Longrightarrow> devices api st' b = devices api st b"
  proof (cases "length b = 16")
    case True
    assume "b \<noteq> dr_deviceId rec"
    then have "kf (device_key (DeviceIdToString b)) \<noteq> kf (take n (device_key (DeviceIdToString (dr_deviceId rec))))" for n
      using device_key_apart [OF kf len True] by metis
    with WriteDeviceRecord_view(2) [OF laws ok(1), of "(s_registryRoot st, kf (device_key (DeviceIdToString b)))"]
      this [of "length (device_key (DeviceIdToString (dr_deviceId rec)))"]
    show ?thesis by (intro devices_cong [OF laws]) (auto simp: root)
  qed (simp add: devices_def)
qed

lemma delete_devices:
  assumes laws: "reg_laws api kf view" "reg_available api kf view"
    and ok: "DeleteDeviceRecord api (DeviceIdToString a) st = (ERROR_SUCCESS, st')" and len: "length a = 16"
  shows "devices api st' a = None" and "b \<noteq> a \<Longrightarrow> devices api st' b = devices api st b"
proof -
  have kf: "folds_ascii kf" using laws(1) by (simp add: reg_laws_def)
  have v: "view (reg_world st') = (view (reg_world st))((s_registryRoot st, kf (device_key (DeviceIdToString a))) := None)"
    and root: "s_registryRoot st' = s_registryRoot st"
    using ok laws_delete [OF laws(1)] by (auto simp: DeleteDeviceRecord_def split: prod.splits)
  show "devices api st' a = None"
    by (rule devices_None [OF laws(1)]) (simp add: v root)
  show "b \<noteq> a \<Longrightarrow> devices api st' b = devices api st b"
  proof (cases "length b = 16")
    case True
    assume "b \<noteq> a"
    then have "kf (device_key (DeviceIdToString b)) \<noteq> kf (device_key (DeviceIdToString a))"
      using device_path_inject [OF kf True len] by blast
    then show ?thesis by (intro devices_cong [OF laws]) (simp add: v root)
  qed (simp add: devices_def)
qed

definition lawful_step ::
  "(wstring \<Rightarrow> wstring) \<Rightarrow> 'w reg_view \<Rightarrow> 'w reg_api \<Rightarrow> 'w reg_state \<Rightarrow> store_op \<Rightarrow> 'w reg_state \<Rightarrow> bool" where
  "lawful_step kf view api st op st' \<longleftrightarrow> reg_laws api kf view \<and> reg_available api kf view \<and> store_step api st op st'"

lemma lawful_own:
  assumes "lawful_step kf view api st op st'"
  shows "devices api st' (store_subject op) = store_effect op (devices api st (store_subject op))"
proof -
  have laws: "reg_laws api kf view" "reg_available api kf view" and root: "s_registryRoot st' = s_registryRoot st"
    using assms by (simp_all add: lawful_step_def store_step_def)
  note set_one = set_one_devices [OF laws set_one_view [OF laws]]
  show ?thesis
    using assms root
    by (cases op) (auto simp: lawful_step_def store_step_def write_devices [OF laws] delete_devices [OF laws]
        set_one_eqs intro: set_one)
qed

lemma lawful_others:
  assumes "lawful_step kf view api st op st'" "b \<noteq> store_subject op"
  shows "devices api st' b = devices api st b"
proof -
  have laws: "reg_laws api kf view" "reg_available api kf view" and root: "s_registryRoot st' = s_registryRoot st"
    using assms by (simp_all add: lawful_step_def store_step_def)
  note set_one = set_one_devices(3) [OF laws set_one_view [OF laws]]
  show ?thesis
    using assms root
    by (cases op) (auto simp: lawful_step_def store_step_def write_devices [OF laws] delete_devices [OF laws]
        set_one_eqs intro: set_one)
qed

interpretation store: device_table "lawful_step kf view api" "devices api" store_subject store_effect for kf view api
  by unfold_locales (fact lawful_own, fact lawful_others)

section \<open>Histories\<close>

lemma run_map_step:
  "run (map_step subject effect) m ops m' \<longleftrightarrow> m' = fold (\<lambda>op m. m(subject op := effect op (m (subject op)))) ops m"
  by (induction ops arbitrary: m) (auto simp: map_step_def)

lemma run_lawful:
  "reg_laws api kf view \<Longrightarrow> reg_available api kf view \<Longrightarrow> run (store_step api) st ops st' \<Longrightarrow> run (lawful_step kf view api) st ops st'"
  by (simp add: lawful_step_def [abs_def])

lemma store_run_map:
  assumes "reg_laws api kf view" "reg_available api kf view" "run (store_step api) st ops st'"
  shows "devices api st' =
    fold (\<lambda>op m. m(store_subject op := store_effect op (m (store_subject op)))) ops (devices api st)"
proof -
  obtain ls where "list_all2 (=) ops ls" "run (map_step store_subject store_effect) (devices api st) ls (devices api st')"
    using store.as_map.run_refines [OF run_lawful [OF assms]] by blast
  then show ?thesis by (simp add: list.rel_eq run_map_step)
qed

text \<open>C18: the records of the registry are a map from devices to records. Whatever operations are carried out on a registry with the documented
  behaviour, in whatever order, the records that the program reads afterwards are those of the map after the same updates: a
  written record replaces that of its device, a change of the status or of the time stamp changes that field of the
  device's record if there is one, a deletion removes it, and no operation touches the record of another device.\<close>

theorem registry_refines_map:
  assumes "reg_laws api kf view" "reg_available api kf view" "run (store_step api) st ops st'"
  shows "devices api st' =
    fold (\<lambda>op m. m(store_subject op := store_effect op (m (store_subject op)))) ops (devices api st)"
  using assms by (rule store_run_map)

text \<open>The witness: two phones are registered and the first is revoked.\<close>

abbreviation revoke_sample :: store_op where
  "revoke_sample \<equiv> StStatus (dr_deviceId sample_record) kStatusRevoked"

lemma sim_store_steps:
  "storable rec \<Longrightarrow> store_step sim_api st (StWrite rec) (snd (WriteDeviceRecord sim_api rec st))"
  "length a = 16 \<Longrightarrow> store_step sim_api st (StStatus a s) (snd (SetDeviceStatus sim_api (DeviceIdToString a) s st))"
proof -
  show "storable rec \<Longrightarrow> store_step sim_api st (StWrite rec) (snd (WriteDeviceRecord sim_api rec st))"
    using sim_write [of rec st] sim_write_root [of rec st] by (cases "WriteDeviceRecord sim_api rec st") (simp add: store_step_def)
  show "length a = 16 \<Longrightarrow> store_step sim_api st (StStatus a s) (snd (SetDeviceStatus sim_api (DeviceIdToString a) s st))"
    using set_one_view(1) [OF sim_laws sim_available]
    by (cases "SetDeviceStatus sim_api (DeviceIdToString a) s st") (simp add: store_step_def set_one_eqs)
qed

lemma sim_seen_step:
  "length a = 16 \<Longrightarrow> store_step sim_api st (StSeen a t) (snd (UpdateLastSeen sim_api t (DeviceIdToString a) st))"
  using set_one_view(1) [OF sim_laws sim_available]
  by (cases "UpdateLastSeen sim_api t (DeviceIdToString a) st") (simp add: store_step_def set_one_eqs)

lemma storable_second: "storable second_record"
  using storable_sample by (simp add: storable_def second_record_def)

theorem registry_refines_map_witness:
  "\<exists>st'. run (store_step sim_api) sample_state [StWrite sample_record, StWrite second_record, revoke_sample] st' \<and>
     devices sim_api st' (dr_deviceId sample_record) = Some (sample_record\<lparr>dr_pairStatus := kStatusRevoked\<rparr>) \<and>
     devices sim_api st' (replicate 16 7) = Some second_record"
proof -
  let ?st = "snd (SetDeviceStatus sim_api (DeviceIdToString (dr_deviceId sample_record)) kStatusRevoked two_devices)"
  have r: "run (store_step sim_api) sample_state [StWrite sample_record, StWrite second_record, revoke_sample] ?st"
    unfolding two_devices_def
    by (rule run_Cons, rule sim_store_steps(1) [OF storable_sample], rule run_Cons, rule sim_store_steps(1) [OF storable_second],
      rule run_Cons, rule sim_store_steps(2) [OF two_devices_ids(1)], rule run_Nil)
  have "dr_deviceId second_record = replicate 16 7" by (simp add: second_record_def)
  with registry_refines_map [OF sim_laws sim_available r] two_devices_ids(3) show ?thesis
    by (intro exI [of _ ?st] conjI r) simp_all
qed

end
