(* ===== verification/Lifecycle.thy ===== *)
theory Lifecycle
  imports Pairing DeviceStore Lsa Service
begin

text \<open>
  The life of a device across the components that share the device registry: the pairing manager writes its record, with which the
  authentication manager lets it in; once the record is deleted, it stays out of the authentication manager, the service's
  lock requests and the authentication package in every history of the service.
\<close>

section \<open>A device that was paired\<close>

text \<open>The complete exchange: a challenge is issued to a listed device, and its answer in time with a valid signature is accepted.\<close>

lemma auth_completes:
  assumes read: "ReadDeviceRecord api reg (DeviceIdToString a) DeviceRecord_init = Some (ERROR_SUCCESS, rec)"
    and rec: "dr_pairStatus rec = kStatusActive" "dr_publicKey rec \<noteq> []"
    and am: "am_rateLimits am (DeviceIdToString a) = None"
    and rand: "GenerateRandomBytes cng 32 cs = (Some nonce, cs1)"
    and msg: "response_message p = Inr (m, sig)" "sm_DeviceIdentity m = a" "sm_SessionID m = am_sessionCounter am" "sm_Nonce m = nonce"
    and time: "n1 \<le> n2" "n2 - n1 \<le> CHALLENGE_TTL_SECONDS * 1000"
    and sig: "VerifyCanonicalSignedMessage cng (dr_publicKey rec) m sig cs1 = Some (True, cs2)"
  shows "\<exists>r1 r2. HandleAuthRequest api cng n1 a h1 out am cs reg = Some r1 \<and> ar_code r1 = AR_SUCCESS \<and>
    HandleAuthResponse api cng ft n2 h2 p (ar_am r1) (ar_crypto r1) (ar_reg r1) = Some r2 \<and> ar_code r2 = AR_SUCCESS \<and>
    ar_payload r2 = bytes_of_string (''{\"status\":\"SUCCESS\",\"accountSid\":\"'' @ dr_accountSid rec @ ''\"}'')"
proof -
  have lim: "auth_IsRateLimited (DeviceIdToString a) n x = (False, x)" if "am_rateLimits x (DeviceIdToString a) = None" for n x
    using that by (simp add: auth_IsRateLimited_def)
  let ?am = "am\<lparr>am_sessionCounter := am_sessionCounter am + 1, am_activeChallenges := (am_activeChallenges am)(DeviceIdToString a :=
    Some \<lparr>ac_deviceId = a, ac_sessionId = am_sessionCounter am, ac_nonce = nonce, ac_createdAtMs = n1, ac_isConsumed = False\<rparr>)\<rparr>"
  obtain r1 where r1: "HandleAuthRequest api cng n1 a h1 out am cs reg = Some r1" "ar_code r1 = AR_SUCCESS"
    "ar_am r1 = ?am" "ar_crypto r1 = cs1" "ar_reg r1 = reg"
    using read rec by (simp add: HandleAuthRequest_def lim [OF am] issue_challenge_def rand Let_def)
  have "am_rateLimits ?am (DeviceIdToString a) = None" using am by simp
  then have "\<exists>r2. HandleAuthResponse api cng ft n2 h2 p ?am cs1 reg = Some r2 \<and> ar_code r2 = AR_SUCCESS \<and>
    ar_payload r2 = bytes_of_string (''{\"status\":\"SUCCESS\",\"accountSid\":\"'' @ dr_accountSid rec @ ''\"}'')"
    using read rec time sig
    by (simp add: HandleAuthResponse_def msg lim response_device_def response_challenge_def response_verify_def not_less Let_def)
  with r1 show ?thesis by metis
qed

text \<open>C12: a paired device can authenticate. After a PAIR\_CONFIRM has completed the pairing of a session whose fields fit the registry's
  buffers, the device's AUTH\_REQUEST is granted a challenge, and a message in its name with the session number and the nonce of
  that challenge, sent within 30 seconds under a signature that verifies with the key it paired with, succeeds and names the
  account it was paired for, provided the device has no recorded failures and random bytes are available.\<close>

theorem paired_device_authenticates:
  assumes "reg_laws api kf view" "reg_available api kf view"
    and "pr_type (HandlePairConfirm api env c payload pm reg) = MT_PAIR_COMPLETE"
    and "m_sessions pm c = Some s" "storable (pairing_record env s)"
    and "am_rateLimits am (DeviceIdToString (ps_deviceId s)) = None" "GenerateRandomBytes cng 32 cs = (Some nonce, cs1)"
    and "response_message p = Inr (m, sig)" "sm_DeviceIdentity m = ps_deviceId s"
    and "sm_SessionID m = am_sessionCounter am" "sm_Nonce m = nonce" "n1 \<le> n2" "n2 - n1 \<le> 30000"
    and "VerifyCanonicalSignedMessage cng (ps_clientPublicKey s) m sig cs1 = Some (True, cs2)"
  shows "\<exists>r1 r2. HandleAuthRequest api cng n1 (ps_deviceId s) h1 out am cs (pr_reg (HandlePairConfirm api env c payload pm reg)) = Some r1 \<and>
    ar_code r1 = AR_SUCCESS \<and>
    HandleAuthResponse api cng ft n2 h2 p (ar_am r1) (ar_crypto r1) (ar_reg r1) = Some r2 \<and> ar_code r2 = AR_SUCCESS \<and>
    ar_payload r2 = bytes_of_string (''{\"status\":\"SUCCESS\",\"accountSid\":\"'' @ ResolveCurrentAccountSid (pe_token env) @ ''\"}'')"
proof -
  let ?reg = "pr_reg (HandlePairConfirm api env c payload pm reg)" and ?rec = "pairing_record env s"
  have "WriteDeviceRecord api ?rec reg = (ERROR_SUCCESS, ?reg)"
    using HandlePairConfirm_complete [OF assms(3)] assms(4) by (metis option.inject)
  then have "ReadDeviceRecord api ?reg (DeviceIdToString (dr_deviceId ?rec)) DeviceRecord_init = Some (ERROR_SUCCESS, ?rec)"
    by (rule read_after_write [OF assms(1,2) _ assms(5)]) (simp add: DeviceRecord_init_def)
  moreover have "dr_deviceId ?rec = ps_deviceId s" "dr_pairStatus ?rec = kStatusActive" "dr_publicKey ?rec = ps_clientPublicKey s"
    "dr_accountSid ?rec = ResolveCurrentAccountSid (pe_token env)" "dr_publicKey ?rec \<noteq> []"
    using assms(5) by (simp_all add: pairing_record_def storable_def)
  moreover have "n2 - n1 \<le> CHALLENGE_TTL_SECONDS * 1000" using assms(13) by (simp add: CHALLENGE_TTL_SECONDS_def)
  ultimately show ?thesis
    using auth_completes [of api ?reg "ps_deviceId s" ?rec, OF _ _ _ assms(6-12)] assms(14) by simp
qed

text \<open>The witness: a session that waits for the PIN of the demonstration in theory Pairing, with the key of the one in theory Auth.\<close>

definition waiting_session :: PairingSession where
  "waiting_session = new_session 1 ''10.0.0.2'' \<lparr>prq_deviceId = demo_dev, prq_deviceName = ''Pixel'', prq_publicKey = replicate 64 3,
     prq_valid = True\<rparr> ''000042'' (pe_now demo_env 1)"

definition waiting_manager :: PairingManager where
  "waiting_manager = put_session 1 waiting_session PairingManager_new"

lemma waiting_session_sel:
  "m_sessions waiting_manager 1 = Some waiting_session" "ps_deviceId waiting_session = dr_deviceId demo_record"
  "ps_clientPublicKey waiting_session = replicate 64 3"
  by (simp_all add: waiting_manager_def waiting_session_def put_session_def new_session_def demo_dev_def DeviceIdFromString_ToString
      demo_record_def sample_record_def)

lemma waiting_confirmed: "pr_type (HandlePairConfirm sim_api demo_env 1 demo_confirm waiting_manager sample_state) = MT_PAIR_COMPLETE"
proof -
  have "pcf_valid (ParsePairConfirm demo_confirm)" "pcf_sasPin (ParsePairConfirm demo_confirm) = ''000042''" "IsValidPinFormat ''000042''"
    by code_simp+
  then have "HandlePairConfirm sim_api demo_env 1 demo_confirm waiting_manager sample_state =
      confirm_verified sim_api demo_env 1 waiting_session waiting_manager sample_state"
    by (simp add: HandlePairConfirm_def waiting_session_sel)
      (simp add: waiting_session_def new_session_def ValidateSasPin_iff demo_env_def SAS_MAX_ATTEMPTS_def)
  then show ?thesis by (simp add: sim_write)
qed

theorem paired_device_authenticates_witness:
  "\<exists>reg r1 r2. reg = pr_reg (HandlePairConfirm sim_api demo_env 1 demo_confirm waiting_manager sample_state) \<and>
     HandleAuthRequest sim_api demo_cng 1000 (dr_deviceId demo_record) FrameHeader_init FrameHeader_init AuthenticationManager_new
       crypto_state_init reg = Some r1 \<and>
     HandleAuthResponse sim_api demo_cng FILETIME_zero 2000 FrameHeader_init
       (demo_payload MT_AUTH_RESPONSE (am_sessionCounter AuthenticationManager_new)) (ar_am r1) (ar_crypto r1) (ar_reg r1) = Some r2 \<and>
     ar_code r2 = AR_SUCCESS"
proof -
  let ?m = "demo_msg MT_AUTH_RESPONSE (am_sessionCounter AuthenticationManager_new)"
  obtain cs1 where rand: "GenerateRandomBytes demo_cng 32 crypto_state_init = (Some (replicate 32 9), cs1)"
    using demo_random [of crypto_state_init] by (metis prod.collapse)
  have wf: "signed_message_wf ?m"
    by (simp add: signed_message_wf_def demo_msg_def SignedMessage_init_def demo_record_def sample_record_def)
  obtain cs2 where sig: "VerifyCanonicalSignedMessage demo_cng (ps_clientPublicKey waiting_session) ?m (replicate 64 7) cs1 = Some (True, cs2)"
    using demo_verify [OF wf] by (auto simp: waiting_session_sel)
  have st: "storable (pairing_record demo_env waiting_session)"
    by (simp add: storable_def pairing_record_def waiting_session_sel ResolveCurrentAccountSid_def demo_env_def demo_record_def
        sample_record_def) (simp add: waiting_session_def new_session_def)
  have m: "response_message (demo_payload MT_AUTH_RESPONSE (am_sessionCounter AuthenticationManager_new)) = Inr (?m, replicate 64 7)"
    by (rule demo_message) simp
  have "sm_DeviceIdentity ?m = ps_deviceId waiting_session" "sm_SessionID ?m = am_sessionCounter AuthenticationManager_new"
    "sm_Nonce ?m = replicate 32 9"
    by (simp_all add: demo_msg_def waiting_session_sel)
  from paired_device_authenticates [OF sim_laws sim_available waiting_confirmed waiting_session_sel(1) st new_unlimited(1) rand m this _ _ sig,
      of 1000 2000 FrameHeader_init FrameHeader_init FILETIME_zero FrameHeader_init]
  show ?thesis by (auto simp: waiting_session_sel)
qed

section \<open>A device that is not listed\<close>

definition unlisted ::
  "'w reg_api \<Rightarrow> (wstring \<Rightarrow> wstring) \<Rightarrow> 'w reg_view \<Rightarrow> DeviceId \<Rightarrow> 'w reg_state \<Rightarrow> bool" where
  "unlisted api kf view a reg \<longleftrightarrow> reg_laws api kf view \<and> reg_available api kf view \<and>
     view (reg_world reg) (s_registryRoot reg, kf (device_key (DeviceIdToString a))) = None"

lemma unlisted_read:
  assumes "unlisted api kf view a reg"
  shows "\<exists>err. err \<noteq> ERROR_SUCCESS \<and>
    ReadDeviceRecord api reg (DeviceIdToString a) DeviceRecord_init = Some (err, DeviceRecord_init)"
proof -
  have "RegOpenKeyExW api (reg_world reg) (s_registryRoot reg) (device_key (DeviceIdToString a)) KEY_READ \<noteq> ERROR_SUCCESS"
    using assms laws_open unfolding unlisted_def by metis
  then show ?thesis by (simp add: ReadDeviceRecord_def)
qed

lemma unlisted_delete:
  assumes "reg_laws api kf view" "reg_available api kf view" "fst (DeleteDeviceRecord api (DeviceIdToString a) reg) = ERROR_SUCCESS"
  shows "unlisted api kf view a (snd (DeleteDeviceRecord api (DeviceIdToString a) reg))"
proof -
  obtain w where w: "RegDeleteKeyW api (reg_world reg) (s_registryRoot reg) (device_key (DeviceIdToString a)) = (ERROR_SUCCESS, w)"
    using assms(3) by (auto simp: DeleteDeviceRecord_def split: prod.splits)
  with laws_delete [OF assms(1) this] assms(1,2) show ?thesis
    by (simp add: unlisted_def DeleteDeviceRecord_def)
qed

text \<open>The time stamp of a device is only written where there is a key.\<close>

lemma unlisted_last_seen:
  assumes "unlisted api kf view a reg"
  shows "unlisted api kf view a (snd (UpdateLastSeen api now d reg))"
proof (cases "RegOpenKeyExW api (reg_world reg) (s_registryRoot reg) (device_key d) KEY_SET_VALUE = ERROR_SUCCESS")
  case True
  have laws: "reg_laws api kf view" "reg_available api kf view" using assms by (simp_all add: unlisted_def)
  obtain m where m: "view (reg_world reg) (s_registryRoot reg, kf (device_key d)) = Some m"
    using laws_open [OF laws(1) True] by blast
  obtain err w where w: "RegSetValueExW api (reg_world reg) (s_registryRoot reg, device_key d) kRegValLastSeen REG_QWORD
      (to_le 8 (toU64 now)) = (err, w)" by fastforce
  then have "err = ERROR_SUCCESS" using available_set [OF laws(2)] m by (metis fst_conv option.distinct(1))
  with laws_set [OF laws(1) m] w have "view w = (view (reg_world reg))((s_registryRoot reg, kf (device_key d)) :=
      Some (m(kf kRegValLastSeen := Some (REG_QWORD, to_le 8 (toU64 now)))))" by blast
  with assms True m w show ?thesis
    by (auto simp: unlisted_def UpdateLastSeen_def)
qed (use assms in \<open>simp add: UpdateLastSeen_def\<close>)

section \<open>Who turns it away\<close>

lemma request_unlisted:
  assumes "unlisted api kf view a reg"
  shows "\<exists>r. HandleAuthRequest api cng now a h out am cs reg = Some r \<and> ar_code r \<in> {AR_RATE_LIMITED, AR_UNKNOWN_DEVICE}"
proof -
  obtain err where "err \<noteq> ERROR_SUCCESS"
    "ReadDeviceRecord api reg (DeviceIdToString a) DeviceRecord_init = Some (err, DeviceRecord_init)"
    using unlisted_read [OF assms] by blast
  then show ?thesis by (auto simp: HandleAuthRequest_def Let_def split: prod.splits)
qed

lemma response_unlisted:
  assumes "unlisted api kf view (sm_DeviceIdentity m) reg" "response_message p = Inr (m, sig)"
  shows "\<exists>r. HandleAuthResponse api cng ft now h p am cs reg = Some r \<and> ar_code r \<in> {AR_RATE_LIMITED, AR_UNKNOWN_DEVICE}"
proof -
  obtain err where "err \<noteq> ERROR_SUCCESS"
    "ReadDeviceRecord api reg (DeviceIdToString (sm_DeviceIdentity m)) DeviceRecord_init = Some (err, DeviceRecord_init)"
    using unlisted_read [OF assms(1)] by blast
  then show ?thesis by (auto simp: HandleAuthResponse_def response_device_def assms(2) Let_def split: prod.splits)
qed

lemma logon_unlisted:
  assumes "unlisted api kf view (sm_DeviceIdentity m) reg" "logon_message_ok m sig"
  shows "\<exists>res. LogonUserEx2 api cng lookup_sid alloc req (Some (lsa_buffer_image (logon_buffer m sig) @ r)) reg cs p = Some res \<and>
    lo_status res = STATUS_NO_SUCH_USER"
proof -
  obtain err where "err \<noteq> ERROR_SUCCESS"
    "ReadDeviceRecord api reg (DeviceIdToString (sm_DeviceIdentity m)) DeviceRecord_init = Some (err, DeviceRecord_init)"
    using unlisted_read [OF assms(1)] by blast
  then have "logon_device api reg (lb_DeviceId (logon_buffer m sig)) = Some (Inl STATUS_NO_SUCH_USER)"
    by (simp add: logon_device_def logon_buffer_def DeviceIdToString_not_Nil Let_def)
  moreover have "logon_message (Some (lsa_buffer_image (logon_buffer m sig) @ r)) = Inr (logon_buffer m sig, m)"
    using assms(2) by (auto simp: logon_message_Inr)
  ultimately show ?thesis
    by (simp add: LogonUserEx2_def logon_failed_status)
qed

lemma lock_unlisted:
  assumes "unlisted (ve_api env) kf view (named_device p) (sv_reg s)" "16 \<le> length p"
    and "fh_MessageType h = opcode MT_LOCK_REQUEST" "HandleNetworkFrame env c h p s = Some (outs, t)"
  shows "SIpc m \<notin> set outs"
proof -
  obtain err where "err \<noteq> ERROR_SUCCESS"
    "ReadDeviceRecord (ve_api env) (sv_reg s) (DeviceIdToString (named_device p)) DeviceRecord_init = Some (err, DeviceRecord_init)"
    using unlisted_read [OF assms(1)] by blast
  then have "lock_verdict (ve_api env) p (sv_reg s) = Some False"
    using assms(2) by (simp add: lock_verdict_def IsDeviceActive_def)
  with assms(4) have "lock_refused env c h ''DEVICE_UNAUTHORIZED'' (s\<lparr>sv_diag := IncrementProcessedMessages (sv_diag s)\<rparr>) = Some (outs, t)"
    by (simp add: lock_frame [OF assms(3)] net_lock_request_alt)
  then show ?thesis using lock_refused_outs by blast
qed

section \<open>Histories of the service\<close>

lemma request_reg: "HandleAuthRequest api cng now a h out am cs reg = Some r \<Longrightarrow> ar_reg r = reg"
  by (auto simp: HandleAuthRequest_def issue_challenge_def Let_def bind_eq_Some_conv split: if_splits prod.splits option.splits)

lemma verify_reg:
  assumes "response_verify api cng ft now h d rec m sig am cs reg = Some r"
  shows "ar_reg r = reg \<or> ar_reg r = snd (UpdateLastSeen api ft d reg)"
  using assms by (auto simp: response_verify_def Let_def bind_eq_Some_conv)

lemma response_reg:
  assumes "HandleAuthResponse api cng ft now h p am cs reg = Some r"
  shows "ar_reg r = reg \<or> (\<exists>d. ar_reg r = snd (UpdateLastSeen api ft d reg))"
proof (cases "response_message p")
  case (Inr ms)
  obtain m sig where ms: "ms = (m, sig)" by (cases ms)
  obtain lim am1 where lim: "auth_IsRateLimited (DeviceIdToString (sm_DeviceIdentity m)) now am = (lim, am1)" by fastforce
  obtain res am2 where ch: "response_challenge now (DeviceIdToString (sm_DeviceIdentity m)) m am1 = (res, am2)" by fastforce
  note go = assms [unfolded HandleAuthResponse_def Inr ms, simplified, unfolded Let_def lim, simplified]
  show ?thesis
  proof (cases "lim \<or> response_device api reg (DeviceIdToString (sm_DeviceIdentity m)) = None")
    case False
    then obtain dev where "response_device api reg (DeviceIdToString (sm_DeviceIdentity m)) = Some dev" by blast
    with False go ch show ?thesis
      by (cases dev; cases res) (auto dest: verify_reg)
  next
    case True
    with go show ?thesis by (cases lim) auto
  qed
qed (use assms in \<open>auto simp: HandleAuthResponse_def\<close>)

lemma step_reg:
  assumes "svc_step_on api s (op, outs) t"
  shows "sv_reg t = sv_reg s \<or> (\<exists>ft d. sv_reg t = snd (UpdateLastSeen api ft d (sv_reg s)))"
proof (cases "auth_part t = auth_part s")
  case False
  then obtain env c h p where op: "op = VFrame env c h p"
    using step_elsewhere [OF assms] by blast
  with assms have "HandleNetworkFrame env c h p s = Some (outs, t)"
    by (simp add: svc_step_on_def svc_step_def)
  with False frame_elsewhere have mt: "fh_MessageType h = opcode MT_AUTH_REQUEST \<or> fh_MessageType h = opcode MT_AUTH_RESPONSE"
    by blast
  have "svc_step_coded api s ((op, outs), answer_code op s) t"
    using assms by (simp add: svc_step_coded_def)
  then obtain code a where "auth_view ((op, outs), code) a" "auth_step api (auth_part s) a (auth_part t)"
    using svc_auth.refines by blast
  with mt show ?thesis
    by (auto simp: op auth_step_def auth_part_def map_option_case simp del: opcode.simps split: if_splits option.splits
        dest!: request_reg response_reg, metis)
qed (simp add: auth_part_def)

interpretation outsider: invariant_machine "svc_step_on api" "\<lambda>s. unlisted api kf view a (sv_reg s)" for api kf view a
  by unfold_locales (metis step_reg unlisted_last_seen surj_pair)

text \<open>C10: unpairing is final for the service. Once an UNPAIR\_REQUEST has deleted a device's record, then after any history of the service the
  device is a stranger to every component that reads the registry: its AUTH\_REQUEST gets no challenge, its
  AUTH\_RESPONSE is refused, also one that answers a challenge issued before it was unpaired, the authentication package does
  not know the user of its logon buffer, and a lock request in its name writes nothing to the agent's pipe.\<close>

theorem unpaired_stays_out:
  assumes "reg_laws api kf view" "reg_available api kf view"
    and "JsonGetString (string_of_bytes payload) ''deviceId'' = DeviceIdToString a"
    and "fst (DeleteDeviceRecord api (DeviceIdToString a) reg) = ERROR_SUCCESS"
    and "sv_reg s = pr_reg (HandleUnpairRequest api clientId payload pm reg)" "run (svc_step_on api) s es t"
    and "logon_message_ok m sig" "sm_DeviceIdentity m = a"
    and "fh_MessageType h = opcode MT_LOCK_REQUEST" "16 \<le> length p" "named_device p = a" "ve_api env = api"
  shows "(\<exists>r. HandleAuthRequest api cng now a h1 out (sv_auth t) (sv_crypto t) (sv_reg t) = Some r \<and>
      ar_code r \<in> {AR_RATE_LIMITED, AR_UNKNOWN_DEVICE}) \<and>
    (\<exists>r. HandleAuthResponse api cng ft now h1 (SerializeSignedMessage m @ sig) (sv_auth t) (sv_crypto t) (sv_reg t) = Some r \<and>
      ar_code r \<in> {AR_RATE_LIMITED, AR_UNKNOWN_DEVICE}) \<and>
    (\<exists>res. LogonUserEx2 api cng lookup_sid alloc req (Some (lsa_buffer_image (logon_buffer m sig) @ x)) (sv_reg t) cs lp = Some res \<and>
      lo_status res = STATUS_NO_SUCH_USER) \<and>
    (\<forall>outs t'. HandleNetworkFrame env c h p t = Some (outs, t') \<longrightarrow> (\<forall>msg. SIpc msg \<notin> set outs))"
proof -
  have "pr_reg (HandleUnpairRequest api clientId payload pm reg) = snd (DeleteDeviceRecord api (DeviceIdToString a) reg)"
    using assms(3) by (simp add: HandleUnpairRequest_def Let_def split: prod.splits)
  with unlisted_delete [OF assms(1,2,4)] assms(5) have "unlisted api kf view a (sv_reg s)" by simp
  then have u: "unlisted api kf view a (sv_reg t)" by (rule outsider.run_inv [OF assms(6)])
  have "response_message (SerializeSignedMessage m @ sig) = Inr (m, sig)"
    using assms(7) by (simp add: response_message_Inr logon_message_ok_def LSA_SIGNATURE_SIZE_def P1363_SIGNATURE_SIZE_def)
  moreover have "unlisted api kf view (sm_DeviceIdentity m) (sv_reg t)" "unlisted (ve_api env) kf view (named_device p) (sv_reg t)"
    using u assms(8,11,12) by simp_all
  ultimately show ?thesis
    using request_unlisted [OF u] response_unlisted logon_unlisted [OF _ assms(7)] lock_unlisted [OF _ assms(10,9)] by meson
qed

text \<open>The witness: a paired phone is unpaired while the service runs, and the service then handles a malformed message.\<close>

definition unpair_payload :: bytes where
  "unpair_payload = bytes_of_string (''{\"deviceId\":\"'' @ demo_dev @ ''\"}'')"

lemma unpair_payload_device: "JsonGetString (string_of_bytes unpair_payload) ''deviceId'' = DeviceIdToString (dr_deviceId demo_record)"
proof -
  have "CHR 0x22 \<notin> set demo_dev"
    using set_DeviceIdToString [of "dr_deviceId demo_record"] by (auto simp: demo_dev_def)
  from takeWhile_quote [OF this, of "''}''"] show ?thesis
    by (simp add: JsonGetString_def str_find_def unpair_payload_def demo_dev_def)
qed

lemma demo_delete: "fst (DeleteDeviceRecord sim_api (DeviceIdToString (dr_deviceId demo_record)) demo_reg) = ERROR_SUCCESS"
proof -
  obtain m where "sim_view (reg_world demo_reg) (s_registryRoot demo_reg, sim_fold (device_key demo_dev)) = Some m"
    by (rule ReadDeviceRecord_success_view [OF sim_laws demo_read])
  then show ?thesis by (simp add: DeleteDeviceRecord_def sim_api_def sim_view_def demo_dev_def)
qed

abbreviation unpaired_reg :: "sim_world reg_state" where
  "unpaired_reg \<equiv> pr_reg (HandleUnpairRequest sim_api 1 unpair_payload PairingManager_new demo_reg)"

theorem unpaired_stays_out_witness:
  "\<exists>es t r res. run (svc_step_on sim_api) (demo_service\<lparr>sv_reg := unpaired_reg\<rparr>) es t \<and> es \<noteq> [] \<and>
     HandleAuthResponse sim_api demo_cng FILETIME_zero 1000 FrameHeader_init (demo_payload MT_AUTH_RESPONSE 1)
       (sv_auth t) (sv_crypto t) (sv_reg t) = Some r \<and> ar_code r \<noteq> AR_SUCCESS \<and>
     LogonUserEx2 sim_api demo_cng (\<lambda>_. None) (\<lambda>_ _ _. True) demo_logon_request (Some demo_submit) (sv_reg t) crypto_state_init LsaPackage_new = Some res \<and>
     lo_status res = STATUS_NO_SUCH_USER"
proof -
  let ?s = "demo_service\<lparr>sv_reg := unpaired_reg\<rparr>" and ?m = "demo_msg MT_AUTH_RESPONSE 1"
  obtain outs t where t: "HandleIpcMessage demo_svc_env [] ?s = Some (outs, t)"
    by (simp add: HandleIpcMessage_def DeserializeFrameHeader_def FRAME_HEADER_SIZE_def Let_def)
  then have r: "run (svc_step_on sim_api) ?s [(VMessage demo_svc_env [], outs)] t"
    by (auto simp: svc_step_on_def svc_step_def demo_svc_env_def)
  have len: "length (dr_deviceId demo_record) = 16" by (simp add: demo_record_def sample_record_def)
  then have p: "named_device (dr_deviceId demo_record) = dr_deviceId demo_record"
    by (simp add: named_device_def DeserializeSignedMessage_short CANONICAL_SIGNED_MESSAGE_SIZE_def)
  have ok: "logon_message_ok ?m (replicate 64 7)" using demo_logon_vouched by metis
  have m: "sm_DeviceIdentity ?m = dr_deviceId demo_record" by (simp add: demo_msg_def)
  have reg: "sv_reg ?s = unpaired_reg" and api: "ve_api demo_svc_env = sim_api" by (simp_all add: demo_svc_env_def)
  have p16: "16 \<le> length (dr_deviceId demo_record)" using len by simp
  note out = unpaired_stays_out [OF sim_laws sim_available unpair_payload_device demo_delete reg r ok m demo_lock_sel(1) [of 5] p16 p api,
      of demo_cng 1000 FrameHeader_init FrameHeader_init FILETIME_zero "\<lambda>_. None" "\<lambda>_ _ _. True" demo_logon_request "[]"
        crypto_state_init LsaPackage_new 1]
  then obtain a where "HandleAuthResponse sim_api demo_cng FILETIME_zero 1000 FrameHeader_init (demo_payload MT_AUTH_RESPONSE 1)
      (sv_auth t) (sv_crypto t) (sv_reg t) = Some a" "ar_code a \<noteq> AR_SUCCESS"
    by (auto simp: demo_payload_def)
  moreover obtain res where "LogonUserEx2 sim_api demo_cng (\<lambda>_. None) (\<lambda>_ _ _. True) demo_logon_request (Some demo_submit) (sv_reg t)
      crypto_state_init LsaPackage_new = Some res" "lo_status res = STATUS_NO_SUCH_USER"
    using out by (auto simp: demo_submit_def)
  ultimately show ?thesis using r by blast
qed

section \<open>A device that was revoked\<close>

text \<open>A device with no record, or with one whose status is not active.\<close>

definition barred :: "'w reg_api \<Rightarrow> DeviceId \<Rightarrow> 'w reg_state \<Rightarrow> bool" where
  "barred api a reg \<longleftrightarrow> (\<forall>rec. devices api reg a = Some rec \<longrightarrow> dr_pairStatus rec \<noteq> kStatusActive)"

text \<open>The operations that could let it in again.\<close>

fun readmits :: "DeviceId \<Rightarrow> store_op \<Rightarrow> bool" where
  "readmits a (StWrite rec) \<longleftrightarrow> dr_deviceId rec = a \<and> dr_pairStatus rec = kStatusActive"
| "readmits a (StStatus b status) \<longleftrightarrow> b = a \<and> status = kStatusActive"
| "readmits a _ \<longleftrightarrow> False"

lemma barred_read:
  assumes "barred api a reg" "length a = 16" "ReadDeviceRecord api reg (DeviceIdToString a) DeviceRecord_init = Some (ERROR_SUCCESS, rec)"
  shows "dr_pairStatus rec \<noteq> kStatusActive"
  using assms by (simp add: barred_def devices_def)

lemma barred_kept:
  assumes "reg_laws api kf view" "reg_available api kf view" "barred api a reg"
    and "run (store_step api) reg ops reg'" "\<forall>op\<in>set ops. \<not> readmits a op"
  shows "barred api a reg'"
proof -
  let ?P = "\<lambda>r. \<forall>rec. r = Some rec \<longrightarrow> dr_pairStatus rec \<noteq> kStatusActive"
  have "?P (devices api reg' a)"
  proof (rule store.run_keeps [OF run_lawful [OF assms(1,2,4)]])
    show "?P (devices api reg a)" using assms(3) by (simp add: barred_def)
    show "?P (store_effect op x)" if "op \<in> set ops" "store_subject op = a" "?P x" for op x
      using that(2,3) bspec [OF assms(5) that(1)] by (cases op) auto
  qed
  then show ?thesis by (simp add: barred_def)
qed

lemma barred_request:
  assumes "barred api a reg" "length a = 16" "HandleAuthRequest api cng now a h out am cs reg = Some r"
  shows "ar_code r \<noteq> AR_SUCCESS"
  using assms(3) barred_read [OF assms(1,2)]
  by (auto simp: HandleAuthRequest_def Let_def bind_eq_Some_conv split: if_splits prod.splits)

lemma barred_response:
  assumes "barred api (sm_DeviceIdentity m) reg" "length (sm_DeviceIdentity m) = 16" "response_message p = Inr (m, sig)"
    and "HandleAuthResponse api cng ft now h p am cs reg = Some r"
  shows "ar_code r \<noteq> AR_SUCCESS"
proof -
  let ?dev = "response_device api reg (DeviceIdToString (sm_DeviceIdentity m))"
  have "?dev = None \<or> (\<exists>code reason. ?dev = Some (Inl (code, reason)) \<and> code \<noteq> AR_SUCCESS)"
    using barred_read [OF assms(1,2)] by (auto simp: response_device_def split: bind_splits)
  then show ?thesis
    using assms(4) by (auto simp: HandleAuthResponse_def assms(3) response_failed_def Let_def split: if_splits prod.splits)
qed

lemma barred_logon:
  assumes "barred api (sm_DeviceIdentity m) reg" "logon_message_ok m sig"
    and "LogonUserEx2 api cng lookup_sid alloc req (Some (lsa_buffer_image (logon_buffer m sig) @ x)) reg cs lp = Some res"
  shows "lo_status res \<noteq> STATUS_SUCCESS"
proof -
  have "length (sm_DeviceIdentity m) = 16"
    using assms(2) by (simp add: logon_message_ok_def signed_message_ok_def signed_message_wf_def)
  then have "logon_device api reg (sm_DeviceIdentity m) \<noteq> Some (Inr rec)" for rec
    using barred_read [OF assms(1)] by (auto simp: logon_device_Inr)
  then have dev: "logon_device api reg (lb_DeviceId (logon_buffer m sig)) = None \<or>
      (\<exists>st. logon_device api reg (lb_DeviceId (logon_buffer m sig)) = Some (Inl st) \<and> st \<noteq> STATUS_SUCCESS)"
    using logon_device_Inl [of api reg "sm_DeviceIdentity m"]
    by (cases "logon_device api reg (sm_DeviceIdentity m)"; cases "the (logon_device api reg (sm_DeviceIdentity m))")
      (auto simp: logon_buffer_def)
  have "logon_message (Some (lsa_buffer_image (logon_buffer m sig) @ x)) = Inr (logon_buffer m sig, m)"
    using assms(2) by (auto simp: logon_message_Inr)
  with dev assms(3) show ?thesis by (auto simp: LogonUserEx2_def)
qed

lemma barred_lock:
  assumes "barred (ve_api env) (named_device p) (sv_reg s)" "length (named_device p) = 16" "16 \<le> length p"
    and "fh_MessageType h = opcode MT_LOCK_REQUEST" "HandleNetworkFrame env c h p s = Some (outs, t)"
  shows "SIpc m \<notin> set outs"
proof -
  have "lock_verdict (ve_api env) p (sv_reg s) \<in> {None, Some False}"
    using assms(3) barred_read [OF assms(1,2)] by (auto simp: lock_verdict_def IsDeviceActive_def split: bind_splits)
  with assms(5) have "lock_refused env c h ''DEVICE_UNAUTHORIZED'' (s\<lparr>sv_diag := IncrementProcessedMessages (sv_diag s)\<rparr>) = Some (outs, t)"
    by (auto simp: lock_frame [OF assms(4)] net_lock_request_alt)
  then show ?thesis using lock_refused_outs by blast
qed

text \<open>C11: revocation holds for every component that reads the registry, until the device is written as active again. Once a device's
  status has been set to revoked, then after any history of operations on the registry, on this device and on others, none of
  which makes this device active, its AUTH\_REQUEST gets no challenge, its AUTH\_RESPONSE does not succeed, the authentication
  package lets no logon buffer of it in, and a lock request in its name writes nothing to the agent's pipe.\<close>

theorem revoked_stays_out:
  assumes "reg_laws api kf view" "reg_available api kf view" "length a = 16"
    and "run (store_step api) (snd (SetDeviceStatus api (DeviceIdToString a) kStatusRevoked reg)) ops reg'" "\<forall>op\<in>set ops. \<not> readmits a op"
    and "logon_message_ok m sig" "sm_DeviceIdentity m = a"
    and "fh_MessageType h = opcode MT_LOCK_REQUEST" "16 \<le> length p" "named_device p = a" "ve_api env = api" "sv_reg s = reg'"
  shows "(\<forall>r. HandleAuthRequest api cng now a h1 out am cs reg' = Some r \<longrightarrow> ar_code r \<noteq> AR_SUCCESS) \<and>
    (\<forall>r. HandleAuthResponse api cng ft now h1 (SerializeSignedMessage m @ sig) am cs reg' = Some r \<longrightarrow> ar_code r \<noteq> AR_SUCCESS) \<and>
    (\<forall>res. LogonUserEx2 api cng lookup_sid alloc req (Some (lsa_buffer_image (logon_buffer m sig) @ x)) reg' cs lp = Some res \<longrightarrow>
      lo_status res \<noteq> STATUS_SUCCESS) \<and>
    (\<forall>outs t. HandleNetworkFrame env c h p s = Some (outs, t) \<longrightarrow> (\<forall>msg. SIpc msg \<notin> set outs))"
proof -
  let ?reg = "snd (SetDeviceStatus api (DeviceIdToString a) kStatusRevoked reg)"
  have "lawful_step kf view api reg (StStatus a kStatusRevoked) ?reg"
    using assms(1-3) set_one_view(1) [OF assms(1,2)]
    by (cases "SetDeviceStatus api (DeviceIdToString a) kStatusRevoked reg") (simp add: lawful_step_def store_step_def set_one_eqs)
  from store.own [OF this] have "barred api a ?reg"
    by (auto simp: barred_def kStatusRevoked_def kStatusActive_def)
  then have b: "barred api a reg'" by (rule barred_kept [OF assms(1,2) _ assms(4,5)])
  have m: "response_message (SerializeSignedMessage m @ sig) = Inr (m, sig)"
    using assms(6) by (simp add: response_message_Inr logon_message_ok_def LSA_SIGNATURE_SIZE_def P1363_SIGNATURE_SIZE_def)
  have lock: "barred (ve_api env) (named_device p) (sv_reg s)" "length (named_device p) = 16"
    using b assms(3,10-12) by simp_all
  show ?thesis
    using barred_request [OF b assms(3)] barred_response [OF _ _ m] barred_logon [OF _ assms(6)] barred_lock [OF lock assms(9,8)]
      b assms(3,7) by meson
qed

text \<open>The witness: the phone of the other demonstrations is revoked, and its time stamp is updated once more.\<close>

theorem revoked_stays_out_witness:
  "\<exists>reg'. run (store_step sim_api) (snd (SetDeviceStatus sim_api (DeviceIdToString (dr_deviceId demo_record)) kStatusRevoked demo_reg))
       [StSeen (dr_deviceId demo_record) FILETIME_zero] reg' \<and>
     (\<forall>r. HandleAuthResponse sim_api demo_cng FILETIME_zero 1000 FrameHeader_init (demo_payload MT_AUTH_RESPONSE 1)
       AuthenticationManager_new crypto_state_init reg' = Some r \<longrightarrow> ar_code r \<noteq> AR_SUCCESS) \<and>
     (\<forall>res. LogonUserEx2 sim_api demo_cng (\<lambda>_. None) (\<lambda>_ _ _. True) demo_logon_request (Some demo_submit) reg' crypto_state_init
       LsaPackage_new = Some res \<longrightarrow> lo_status res \<noteq> STATUS_SUCCESS)"
proof -
  let ?m = "demo_msg MT_AUTH_RESPONSE 1" and ?reg = "snd (SetDeviceStatus sim_api (DeviceIdToString (dr_deviceId demo_record)) kStatusRevoked demo_reg)"
  let ?reg' = "snd (UpdateLastSeen sim_api FILETIME_zero (DeviceIdToString (dr_deviceId demo_record)) ?reg)"
  have len: "length (dr_deviceId demo_record) = 16" by (simp add: demo_record_def sample_record_def)
  then have p: "named_device (dr_deviceId demo_record) = dr_deviceId demo_record"
    by (simp add: named_device_def DeserializeSignedMessage_short CANONICAL_SIGNED_MESSAGE_SIZE_def)
  have r: "run (store_step sim_api) ?reg [StSeen (dr_deviceId demo_record) FILETIME_zero] ?reg'"
    by (rule run_Cons, rule sim_seen_step [OF len], rule run_Nil)
  have ok: "logon_message_ok ?m (replicate 64 7)" using demo_logon_vouched by metis
  have m: "sm_DeviceIdentity ?m = dr_deviceId demo_record" by (simp add: demo_msg_def)
  have api: "ve_api demo_svc_env = sim_api" by (simp add: demo_svc_env_def)
  have p16: "16 \<le> length (dr_deviceId demo_record)" using len by simp
  have s: "sv_reg (demo_service\<lparr>sv_reg := ?reg'\<rparr>) = ?reg'" by simp
  have none: "\<forall>op\<in>set [StSeen (dr_deviceId demo_record) FILETIME_zero]. \<not> readmits (dr_deviceId demo_record) op" by simp
  note out = revoked_stays_out [OF sim_laws sim_available len r none ok m demo_lock_sel(1) [of 5] p16 p api s,
      of demo_cng 1000 FrameHeader_init FrameHeader_init AuthenticationManager_new crypto_state_init FILETIME_zero "\<lambda>_. None" "\<lambda>_ _ _. True"
        demo_logon_request "[]" LsaPackage_new 1]
  show ?thesis
    using out by (intro exI [of _ ?reg'] conjI r) (simp_all add: demo_payload_def demo_submit_def)
qed

section \<open>The number of devices of an account\<close>

definition account_devices :: "'w reg_api \<Rightarrow> 'w reg_state \<Rightarrow> string \<Rightarrow> DeviceId set" where
  "account_devices api reg sid =
     {a. \<exists>rec. devices api reg a = Some rec \<and> dr_pairStatus rec = kStatusActive \<and> dr_accountSid rec = sid}"

text \<open>C38: the limit of five devices for an account is only looked at when a pairing is requested. A PAIR\_CONFIRM with the right PIN in
  time, for a session that waits for it, completes whenever the registry takes the record, whatever number of active devices the
  account has by then, also at or above the limit, and adds its device to them; so sessions that were opened in time take the account
  past the limit.\<close>

theorem confirm_ignores_limit:
  assumes "reg_laws api kf view" "reg_available api kf view"
    and "m_sessions pm c = Some s" "ps_state s = PS_WAITING_FOR_SAS" "pcf_valid (ParsePairConfirm payload)"
    and "ValidateSasPin (pe_now env 0) (pcf_sasPin (ParsePairConfirm payload)) (ps_sasPin s) (ps_sasGeneratedAt s) (ps_sasAttempts s)"
    and "storable (pairing_record env s)" "WriteDeviceRecord api (pairing_record env s) reg = (ERROR_SUCCESS, reg')"
    and "s_registryRoot reg' = s_registryRoot reg"
  shows "pr_type (HandlePairConfirm api env c payload pm reg) = MT_PAIR_COMPLETE \<and>
    account_devices api (pr_reg (HandlePairConfirm api env c payload pm reg)) (ResolveCurrentAccountSid (pe_token env)) =
      insert (ps_deviceId s) (account_devices api reg (ResolveCurrentAccountSid (pe_token env)))"
proof -
  let ?rec = "pairing_record env s"
  have "HandlePairConfirm api env c payload pm reg = confirm_verified api env c s pm reg"
    using assms(3-6) by (simp add: HandlePairConfirm_def)
  then have conf: "pr_type (HandlePairConfirm api env c payload pm reg) = MT_PAIR_COMPLETE" "pr_reg (HandlePairConfirm api env c payload pm reg) = reg'"
    using assms(8) by (simp_all add: confirm_verified_def Let_def)
  have rec: "dr_deviceId ?rec = ps_deviceId s" "dr_pairStatus ?rec = kStatusActive" "dr_accountSid ?rec = ResolveCurrentAccountSid (pe_token env)"
    by (simp_all add: pairing_record_def)
  have d: "devices api reg' a = (if a = ps_deviceId s then Some ?rec else devices api reg a)" for a
    using write_devices [OF assms(1,2,8,7,9)] rec(1) by auto
  show ?thesis
    using rec(2,3) by (auto simp: account_devices_def conf d)
qed

text \<open>The witness: an account with five phones, and a sixth whose session was opened before.\<close>

definition account_env :: pair_env where
  "account_env = demo_env\<lparr>pe_token := \<lparr>tk_open = True, tk_size = 28, tk_user = Some [1, 5], tk_convert = Some (\<lambda>_. Some ''S-1-5-21-7'')\<rparr>\<rparr>"

definition phone_record :: "u8 \<Rightarrow> DeviceRecord" where
  "phone_record i = sample_record\<lparr>dr_deviceId := replicate 16 i\<rparr>"

definition five_phones :: "sim_world reg_state" where
  "five_phones = fold (\<lambda>i reg. snd (WriteDeviceRecord sim_api (phone_record i) reg)) [21, 22, 23, 24, 25] sample_state"

lemma sim_writes:
  "\<forall>i\<in>set is. storable (f i) \<Longrightarrow>
   run (store_step sim_api) st (map (\<lambda>i. StWrite (f i)) is) (fold (\<lambda>i reg. snd (WriteDeviceRecord sim_api (f i) reg)) is st)"
proof (induction "is" arbitrary: st)
  case (Cons i "is")
  have "store_step sim_api st (StWrite (f i)) (snd (WriteDeviceRecord sim_api (f i) st))"
    by (rule sim_store_steps(1)) (use Cons.prems in simp)
  with Cons show ?case by auto
qed simp

lemma five_phones_account:
  "account_devices sim_api five_phones ''S-1-5-21-7'' = {replicate 16 21, replicate 16 22, replicate 16 23, replicate 16 24, replicate 16 25}"
proof -
  let ?is = "[21, 22, 23, 24, 25] :: u8 list"
  have "storable (phone_record i)" for i
    using storable_sample by (simp add: storable_def phone_record_def)
  then have "run (store_step sim_api) sample_state (map (\<lambda>i. StWrite (phone_record i)) ?is) five_phones"
    unfolding five_phones_def by (intro sim_writes) blast
  from store_run_map [OF sim_laws sim_available this]
  have d: "devices sim_api five_phones = fold (\<lambda>i m. m(replicate 16 i \<mapsto> phone_record i)) ?is (devices sim_api sample_state)"
    by (simp add: phone_record_def)
  have "devices sim_api sample_state a = None" for a
    by (simp add: devices_def ReadDeviceRecord_def sim_api_def sample_state_def win32_consts)
  moreover have "dr_pairStatus (phone_record i) = kStatusActive" "dr_accountSid (phone_record i) = ''S-1-5-21-7''" for i
    by (simp_all add: phone_record_def sample_record_def)
  ultimately show ?thesis
    by (auto simp: account_devices_def d split: if_splits)
qed

lemma sixth_confirm:
  "ps_state waiting_session = PS_WAITING_FOR_SAS" "pcf_valid (ParsePairConfirm demo_confirm)"
  "ValidateSasPin (pe_now account_env 0) (pcf_sasPin (ParsePairConfirm demo_confirm)) (ps_sasPin waiting_session)
     (ps_sasGeneratedAt waiting_session) (ps_sasAttempts waiting_session)"
proof -
  have pin: "pcf_valid (ParsePairConfirm demo_confirm)" "pcf_sasPin (ParsePairConfirm demo_confirm) = ''000042''" "IsValidPinFormat ''000042''"
    by code_simp+
  then show "pcf_valid (ParsePairConfirm demo_confirm)" "ps_state waiting_session = PS_WAITING_FOR_SAS"
    "ValidateSasPin (pe_now account_env 0) (pcf_sasPin (ParsePairConfirm demo_confirm)) (ps_sasPin waiting_session)
       (ps_sasGeneratedAt waiting_session) (ps_sasAttempts waiting_session)"
    by (simp_all add: waiting_session_def new_session_def ValidateSasPin_iff demo_env_def account_env_def SAS_MAX_ATTEMPTS_def)
qed

theorem confirm_ignores_limit_witness:
  "int (card (account_devices sim_api five_phones ''S-1-5-21-7'')) = kMaxDevicesPerAccount \<and>
   int (card (account_devices sim_api (pr_reg (HandlePairConfirm sim_api account_env 1 demo_confirm waiting_manager five_phones)) ''S-1-5-21-7'')) =
     kMaxDevicesPerAccount + 1"
proof -
  have st: "storable (pairing_record account_env waiting_session)"
    by (simp add: storable_def pairing_record_def waiting_session_sel ResolveCurrentAccountSid_def account_env_def demo_record_def
        sample_record_def) (simp add: waiting_session_def new_session_def)
  have sid: "ResolveCurrentAccountSid (pe_token account_env) = ''S-1-5-21-7''"
    by (simp add: ResolveCurrentAccountSid_def account_env_def)
  have new: "dr_deviceId demo_record \<noteq> replicate 16 i" for i
    by (simp add: demo_record_def sample_record_def numeral_eq_Suc)
  have card: "card {replicate 16 21, replicate 16 22, replicate 16 23, replicate 16 24, replicate 16 (25 :: u8)} = 5"
    by simp
  have w: "WriteDeviceRecord sim_api (pairing_record account_env waiting_session) five_phones =
      (ERROR_SUCCESS, snd (WriteDeviceRecord sim_api (pairing_record account_env waiting_session) five_phones))"
    by (simp add: prod_eq_iff sim_write)
  note added = confirm_ignores_limit [OF sim_laws sim_available waiting_session_sel(1) sixth_confirm st w sim_write_root]
  show ?thesis
    using card added by (simp add: sid five_phones_account waiting_session_sel new kMaxDevicesPerAccount_def)
qed

end
