(* ===== verification/ServiceWorker.thy ===== *)
theory ServiceWorker
  imports Service
begin

text \<open>
  \<^verbatim>\<open>NetworkEngine::ClientWorkerLoop\<close> with the callback it is given in the running program,
  \<^verbatim>\<open>MobileUnlockService::HandleNetworkFrame\<close>: the frames of a chunk are handled one after the other in the worker's thread, and
  what a handler sends goes out before the next frame is taken from the buffer. The theorem shows that this composition
  makes the service a function of the frames in the client's byte stream.
\<close>

section \<open>The worker's iteration with the service's callback\<close>

text \<open>The frames of the buffer in order, each handled in the environment of its moment.\<close>

fun handle_frames ::
  "(nat \<Rightarrow> ('c, 'w) svc_env) \<Rightarrow> nat \<Rightarrow> u64 \<Rightarrow> (FrameHeader \<times> bytes) list \<Rightarrow> ('c, 'w) MobileUnlockService \<Rightarrow> ('c, 'w) svc_result option" where
  "handle_frames envs n clientId [] s = Some ([], s)"
| "handle_frames envs n clientId ((header, payload) # fs) s = do {
     (outs, s) \<leftarrow> HandleNetworkFrame (envs n) clientId header payload s;
     (outs', s) \<leftarrow> handle_frames envs (Suc n) clientId fs s;
     Some (outs @ outs', s)
   }"

text \<open>The end of an iteration: the buffer keeps the unused bytes, and a malformed header has cost the session its socket.\<close>

definition worker_drain :: "u64 \<Rightarrow> bytes \<Rightarrow> bool \<Rightarrow> ('c, 'w) MobileUnlockService \<Rightarrow> ('c, 'w) svc_result option" where
  "worker_drain clientId rest dropped s = do {
     e \<leftarrow> sv_net s;
     session \<leftarrow> ne_objs e clientId;
     let session = session\<lparr>cs_ReceiveBuffer := rest, cs_Socket := (if dropped then None else cs_Socket session)\<rparr>;
     let (outs, e) = (if cs_Socket session = None then worker_exit clientId session e else ([], put_obj clientId session e));
     Some (map SNet outs, s\<lparr>sv_net := Some e\<rparr>)
   }"

definition svc_worker_iter ::
  "'c sch_api \<Rightarrow> (nat \<Rightarrow> ('c, 'w) svc_env) \<Rightarrow> nat \<Rightarrow> u64 \<Rightarrow> recv_result \<Rightarrow> u32 \<Rightarrow> ('c, 'w) MobileUnlockService \<Rightarrow>
   (svc_out list \<times> nat \<times> ('c, 'w) MobileUnlockService) option" where
  "svc_worker_iter sch envs n clientId r now s = do {
     e \<leftarrow> sv_net s;
     let engine_only = (let (outs, e) = worker_loop sch clientId r now e in Some (map SNet outs, n, s\<lparr>sv_net := Some e\<rparr>));
     case (ne_objs e clientId, r) of
       (Some session, RecvData rawBuffer) \<Rightarrow>
         (let session' = detect_transport rawBuffer (session\<lparr>cs_LastActiveTimestampMs := now\<rparr>) in
          if ne_isRunning e \<and> cs_Socket session \<noteq> None \<and> ne_callback e \<and> cs_State session' = ACTIVE_SESSION
          then do {
            let session' = receive_bytes sch rawBuffer session';
            let (frames, rest, dropped) = extract_frames (cs_ReceiveBuffer session');
            (outs, s) \<leftarrow> handle_frames envs n clientId frames (s\<lparr>sv_net := Some (put_obj clientId session' e)\<rparr>);
            (outs', s) \<leftarrow> worker_drain clientId rest dropped s;
            Some (outs @ outs', n + length frames, s)
          }
          else engine_only)
     | _ \<Rightarrow> engine_only
   }"

fun svc_worker_run ::
  "'c sch_api \<Rightarrow> (nat \<Rightarrow> ('c, 'w) svc_env) \<Rightarrow> nat \<Rightarrow> u64 \<Rightarrow> (recv_result \<times> u32) list \<Rightarrow> ('c, 'w) MobileUnlockService \<Rightarrow>
   ('c, 'w) svc_result option" where
  "svc_worker_run sch envs n clientId [] s = Some ([], s)"
| "svc_worker_run sch envs n clientId ((r, now) # rs) s = do {
     (outs, n, s) \<leftarrow> svc_worker_iter sch envs n clientId r now s;
     (outs', s) \<leftarrow> svc_worker_run sch envs n clientId rs s;
     Some (outs @ outs', s)
   }"

section \<open>The handlers and the engine\<close>

text \<open>For a client without TLS a handler only reads the client's socket from the engine.\<close>

lemma send_plain:
  assumes "plain_client c k s" "sv_net t = sv_net s"
  shows "svc_SendFrame env c h p t = Some ([SNet (NSend k (SerializeFrameHeader h @ p))], t)"
  using assms svc_SendFrame_plain [of c k t env h p] by (simp add: plain_client_def)

lemma HandleNetworkFrame_net:
  assumes "plain_client c k s" "plain_client c k (s\<lparr>sv_net := x\<rparr>)"
  shows "HandleNetworkFrame env c h p (s\<lparr>sv_net := x\<rparr>) =
    map_option (\<lambda>(outs, t). (outs, t\<lparr>sv_net := x\<rparr>)) (HandleNetworkFrame env c h p s)"
proof -
  note send = send_plain [OF assms(1)] send_plain [OF assms(2)]
  let ?d = "IncrementProcessedMessages (sv_diag s)"
  have req: "net_auth_request env c h p (s\<lparr>sv_net := x, sv_diag := ?d\<rparr>) =
      map_option (\<lambda>(outs, t). (outs, t\<lparr>sv_net := x\<rparr>)) (net_auth_request env c h p (s\<lparr>sv_diag := ?d\<rparr>))"
    by (simp add: net_auth_request_def send split: bind_splits)
  have resp: "net_auth_response env c h p (s\<lparr>sv_net := x, sv_diag := ?d\<rparr>) =
      map_option (\<lambda>(outs, t). (outs, t\<lparr>sv_net := x\<rparr>)) (net_auth_response env c h p (s\<lparr>sv_diag := ?d\<rparr>))"
    by (simp add: net_auth_response_def send split: bind_splits)
  have lock: "net_lock_request env c h p (s\<lparr>sv_net := x, sv_diag := ?d\<rparr>) =
      map_option (\<lambda>(outs, t). (outs, t\<lparr>sv_net := x\<rparr>)) (net_lock_request env c h p (s\<lparr>sv_diag := ?d\<rparr>))"
    by (simp add: net_lock_request_def lock_refused_def svc_SendIpc_def send case_prod_unfold Let_def split: bind_splits option.split)
  show ?thesis
    by (simp add: HandleNetworkFrame_def req resp lock send Let_def)
qed

lemma HandleNetworkFrame_engine:
  assumes "plain_client c k s" "HandleNetworkFrame env c h p s = Some (outs, t)"
  shows "sv_net t = sv_net s"
  using assms(2)
  by (auto simp: HandleNetworkFrame_def net_auth_request_def net_auth_response_def net_lock_request_def lock_refused_def svc_SendIpc_def
      send_plain [OF assms(1)] bind_eq_Some_conv Let_def split: if_splits prod.splits option.splits)

lemma handle_frames_append:
  "handle_frames envs n c (fs @ gs) s = do {
     (outs, s) \<leftarrow> handle_frames envs n c fs s;
     (outs', s) \<leftarrow> handle_frames envs (n + length fs) c gs s;
     Some (outs @ outs', s)
   }"
  by (induction envs n c fs s rule: handle_frames.induct) (auto simp: case_prod_unfold Option.bind_assoc split: bind_split)

lemma handle_frames_engine: "plain_client c k s \<Longrightarrow> handle_frames envs n c fs s = Some (outs, t) \<Longrightarrow> sv_net t = sv_net s"
proof (induction envs n c fs s arbitrary: outs rule: handle_frames.induct)
  case (2 envs n c h p fs s)
  obtain o1 s1 o2 where s1: "HandleNetworkFrame (envs n) c h p s = Some (o1, s1)" and t: "handle_frames envs (Suc n) c fs s1 = Some (o2, t)"
    using 2(3) by (auto simp: bind_eq_Some_conv)
  have e: "sv_net s1 = sv_net s" by (rule HandleNetworkFrame_engine [OF 2(2) s1])
  with 2(2) have "plain_client c k s1" by (simp add: plain_client_def)
  from 2(1) [OF s1 _ this t] e show ?case by simp
qed simp

lemma handle_frames_net:
  "plain_client c k s \<Longrightarrow> plain_client c k (s\<lparr>sv_net := x\<rparr>) \<Longrightarrow>
   handle_frames envs n c fs (s\<lparr>sv_net := x\<rparr>) = map_option (\<lambda>(outs, t). (outs, t\<lparr>sv_net := x\<rparr>)) (handle_frames envs n c fs s)"
proof (induction envs n c fs s rule: handle_frames.induct)
  case (2 envs n c h p fs s)
  show ?case
  proof (cases "HandleNetworkFrame (envs n) c h p s")
    case (Some r)
    obtain o1 s1 where r: "r = (o1, s1)" by (cases r)
    have "sv_net s1 = sv_net s" by (rule HandleNetworkFrame_engine [OF 2(2) Some [unfolded r]])
    with 2(2,3) have "plain_client c k s1" "plain_client c k (s1\<lparr>sv_net := x\<rparr>)" by (simp_all add: plain_client_def)
    with 2(1) [OF Some r [symmetric]] show ?thesis
      by (simp add: HandleNetworkFrame_net [OF 2(2,3)] Some r map_option_bind case_prod_unfold bind_map_option comp_def)
  qed (simp add: HandleNetworkFrame_net [OF 2(2,3)])
qed simp

section \<open>The reaction to a byte stream\<close>

text \<open>What the service does and what it becomes, without the engine's bookkeeping of the connection.\<close>

abbreviation reaction :: "('c, 'w) svc_result option \<Rightarrow> ('c, 'w) svc_result option" where
  "reaction r \<equiv> map_option (\<lambda>(outs, t). (outs, t\<lparr>sv_net := None\<rparr>)) r"

lemma reaction_prefix:
  "reaction (do { (outs', s) \<leftarrow> r; Some (outs @ outs', s) }) = map_option (\<lambda>(outs', t). (outs @ outs', t)) (reaction r)"
  by (cases r) auto

text \<open>A session whose socket is gone takes no further part.\<close>

lemma svc_worker_closed:
  assumes "sv_net s = Some e" "ne_objs e c = Some cs" "cs_Socket cs = None"
  shows "reaction (svc_worker_run sch envs n c rs s) = Some ([], s\<lparr>sv_net := None\<rparr>)"
  using assms
proof (induction rs arbitrary: n s e cs)
  case (Cons x rs)
  obtain r now where x: "x = (r, now)" by (cases x)
  let ?cs = "cs\<lparr>cs_State := DISCONNECTED, cs_Socket := None\<rparr>"
  let ?s = "s\<lparr>sv_net := Some ((put_obj c ?cs e)\<lparr>ne_clients := removeAll c (ne_clients e)\<rparr>)\<rparr>"
  have "svc_worker_iter sch envs n c r now s = Some ([], n, ?s)"
    using Cons.prems by (cases r) (simp_all add: svc_worker_iter_def worker_loop_def worker_exit_def Let_def)
  moreover have "reaction (svc_worker_run sch envs n c rs ?s) = Some ([], ?s\<lparr>sv_net := None\<rparr>)"
    by (rule Cons.IH [of ?s "(put_obj c ?cs e)\<lparr>ne_clients := removeAll c (ne_clients e)\<rparr>" ?cs]) (simp_all add: put_obj_def)
  ultimately show ?case
    by (auto simp: x split: bind_splits)
qed simp

lemma svc_worker_dropped:
  "reaction (svc_worker_run sch envs n c rs (s\<lparr>sv_net := Some (snd (worker_exit c cs e))\<rparr>)) = Some ([], s\<lparr>sv_net := None\<rparr>)"
  by (subst svc_worker_closed [where e = "snd (worker_exit c cs e)" and cs = "cs\<lparr>cs_State := DISCONNECTED, cs_Socket := None\<rparr>"])
    (simp_all add: worker_exit_def put_obj_def)

lemma reaction_net:
  "plain_client c k s \<Longrightarrow> plain_client c k (s\<lparr>sv_net := x\<rparr>) \<Longrightarrow>
   reaction (handle_frames envs n c fs (s\<lparr>sv_net := x\<rparr>)) = reaction (handle_frames envs n c fs s)"
  by (simp add: handle_frames_net option.map_comp comp_def case_prod_unfold)

lemma receive_plain:
  fixes s :: "('c, 'w) MobileUnlockService" and now :: u32
  assumes "sv_net s = Some e" "ne_isRunning e" "ne_callback e" "c \<in> set (ne_clients e)" "ne_objs e c = Some cs" "plain_session cs"
    and "extract_frames (cs_ReceiveBuffer cs @ bs) = (fs, r, d)"
  defines "cs' \<equiv> cs\<lparr>cs_LastActiveTimestampMs := now, cs_ReceiveBuffer := r\<rparr>"
  shows "svc_worker_iter sch envs n c (RecvData bs) now s =
    map_option (\<lambda>(outs, t). (outs, n + length fs, t\<lparr>sv_net := Some (if d then snd (worker_exit c (cs'\<lparr>cs_Socket := None\<rparr>) e) else put_obj c cs' e)\<rparr>))
      (handle_frames envs n c fs s)"
proof -
  let ?cs = "cs\<lparr>cs_LastActiveTimestampMs := now, cs_ReceiveBuffer := cs_ReceiveBuffer cs @ bs\<rparr>"
  let ?x = "Some (put_obj c ?cs e)"
  obtain k where k: "cs_Socket cs = Some k" using assms(6) by (auto simp: plain_session_def)
  have plain: "plain_client c k s" "plain_client c k (s\<lparr>sv_net := ?x\<rparr>)"
    using assms(1,4,5,6) k by (simp_all add: plain_client_def plain_session_def put_obj_def)
  have rest: "worker_drain c r d (t\<lparr>sv_net := ?x\<rparr>) =
      Some ([], t\<lparr>sv_net := Some (if d then snd (worker_exit c (cs'\<lparr>cs_Socket := None\<rparr>) e) else put_obj c cs' e)\<rparr>)" for t :: "('c, 'w) MobileUnlockService"
    using k by (cases cs) (simp add: worker_drain_def put_obj_def worker_exit_def cs'_def)
  have "detect_transport bs (cs\<lparr>cs_LastActiveTimestampMs := now\<rparr>) = cs\<lparr>cs_LastActiveTimestampMs := now\<rparr>"
    using assms(6) by (simp add: detect_transport_def plain_session_def)
  then show ?thesis
    using assms(1-7) rest
    by (cases d) (simp_all add: svc_worker_iter_def plain_session_def receive_bytes_def handle_frames_net [OF plain] bind_map_option comp_def
        map_option_case case_prod_unfold split: option.split)
qed

text \<open>An active session without TLS, in the middle of a stream.\<close>

lemma frames_of_stream:
  assumes "extract_frames (b @ bs) = (fs, r, d)"
  shows "fst (extract_frames (b @ concat (map fst ((bs, now) # xs)))) = fs @ (if d then [] else fst (extract_frames (r @ concat (map fst xs))))"
  using extract_append [of "b @ bs" "concat (map fst xs)"] assms by (simp split: prod.split)

lemma reaction_put:
  assumes "sv_net s = Some e" "plain_client c k s" "plain_session cs" "cs_Socket cs = Some k"
  shows "reaction (handle_frames envs n c fs (s\<lparr>sv_net := Some (put_obj c cs e)\<rparr>)) = reaction (handle_frames envs n c fs s)"
  using assms by (subst reaction_net [where k = k]) (auto simp: plain_client_def put_obj_def plain_session_def)

lemma svc_worker_plain:
  assumes "sv_net s = Some e" "ne_isRunning e" "ne_callback e" "c \<in> set (ne_clients e)" "ne_objs e c = Some cs" "plain_session cs"
    and "extract_frames (cs_ReceiveBuffer cs) = ([], cs_ReceiveBuffer cs, False)"
  shows "reaction (svc_worker_run sch envs n c (data_events xs) s) =
    reaction (handle_frames envs n c (fst (extract_frames (cs_ReceiveBuffer cs @ concat (map fst xs)))) s)"
  using assms
proof (induction xs arbitrary: n s e cs)
  case Nil
  then show ?case by (simp add: data_events_def)
next
  case (Cons x xs)
  obtain bs now where x: "x = (bs, now)" by (cases x)
  obtain fs r d where ex: "extract_frames (cs_ReceiveBuffer cs @ bs) = (fs, r, d)" by (metis surj_pair)
  let ?cs = "cs\<lparr>cs_LastActiveTimestampMs := now, cs_ReceiveBuffer := r\<rparr>"
  note iter = receive_plain [OF Cons.prems(1-6) ex, of sch envs n now]
  obtain k where k: "cs_Socket cs = Some k" using Cons.prems(6) by (auto simp: plain_session_def)
  have plain: "plain_client c k s" using Cons.prems k by (simp add: plain_client_def plain_session_def)
  note total = frames_of_stream [OF ex, of now xs, folded x]
  show ?case
  proof (cases "handle_frames envs n c fs s")
    case None
    then show ?thesis unfolding total using iter x by (simp add: data_events_def handle_frames_append)
  next
    case (Some res)
    obtain o1 s1 where res: "res = (o1, s1)" by (cases res)
    have net: "sv_net s1 = Some e" using handle_frames_engine [OF plain Some [unfolded res]] Cons.prems(1) by simp
    show ?thesis
    proof (cases d)
      case True
      have "reaction (svc_worker_run sch envs (n + length fs) c (data_events xs)
          (s1\<lparr>sv_net := Some (snd (worker_exit c (?cs\<lparr>cs_Socket := None\<rparr>) e))\<rparr>)) = Some ([], s1\<lparr>sv_net := None\<rparr>)"
        by (rule svc_worker_dropped)
      then show ?thesis
        unfolding total using iter True Some res x by (auto simp: data_events_def split: bind_splits)
    next
      case False
      let ?s = "s1\<lparr>sv_net := Some (put_obj c ?cs e)\<rparr>" and ?gs = "fst (extract_frames (r @ concat (map fst xs)))"
      have "reaction (svc_worker_run sch envs (n + length fs) c (data_events xs) ?s) =
          reaction (handle_frames envs (n + length fs) c (fst (extract_frames (cs_ReceiveBuffer ?cs @ concat (map fst xs)))) ?s)"
        by (rule Cons.IH [of _ "put_obj c ?cs e"])
          (use Cons.prems extract_rest [of "cs_ReceiveBuffer cs @ bs" fs r] ex False in \<open>auto simp: put_obj_def plain_session_def\<close>)
      also have "\<dots> = reaction (handle_frames envs (n + length fs) c ?gs s1)"
        using plain net Cons.prems k by (subst reaction_put [OF net, where k = k]) (simp_all add: plain_client_def plain_session_def)
      finally show ?thesis
        unfolding total handle_frames_append using iter False Some res x
        by (simp add: data_events_def reaction_prefix)
    qed
  qed
qed

text \<open>The first chunk of a connection, when it begins with the frame magic.\<close>

lemma first_chunk:
  assumes "sv_net s = Some e" "ne_objs e c = Some cs" "cs_State cs = TCP_CONNECTING" "hd bs = 0x4D" "ne_isRunning e" "ne_callback e" "cs_Socket cs \<noteq> None"
  shows "svc_worker_iter sch envs n c (RecvData bs) now s =
    svc_worker_iter sch envs n c (RecvData bs) now (s\<lparr>sv_net := Some (put_obj c (cs\<lparr>cs_State := ACTIVE_SESSION\<rparr>) e)\<rparr>)"
proof -
  have "detect_transport bs (cs\<lparr>cs_LastActiveTimestampMs := now\<rparr>) = cs\<lparr>cs_LastActiveTimestampMs := now, cs_State := ACTIVE_SESSION\<rparr>"
    "detect_transport bs (cs\<lparr>cs_State := ACTIVE_SESSION, cs_LastActiveTimestampMs := now\<rparr>) =
      cs\<lparr>cs_LastActiveTimestampMs := now, cs_State := ACTIVE_SESSION\<rparr>"
    using assms(3,4) by (cases cs; simp add: detect_transport_def)+
  then show ?thesis
    using assms by (simp add: svc_worker_iter_def put_obj_def Let_def)
qed

text \<open>C14: the service is a function of the frames its client sends. The worker of a connection without TLS, fed with the bytes of the client in
  chunks of any size, makes the service do and become exactly what handling the frames in these bytes one after the other
  does, up to the first malformed header; how the network cuts the bytes into chunks makes no difference.\<close>

theorem service_stream_exact:
  assumes "sv_net s = Some e" "ne_isRunning e" "ne_callback e" "c \<in> set (ne_clients e)" "ne_objs e c = Some cs"
    and "cs_ReceiveBuffer cs = []" "\<not> t_handshakeComplete (cs_Tls cs)" "cs_Socket cs \<noteq> None"
    and "cs_State cs = ACTIVE_SESSION \<or> cs_State cs = TCP_CONNECTING \<and> hd (concat (map fst xs)) = 0x4D" "\<forall>x\<in>set xs. fst x \<noteq> []"
  shows "reaction (svc_worker_run sch envs n c (data_events xs) s) =
    reaction (handle_frames envs n c (fst (extract_frames (concat (map fst xs)))) s)"
proof (cases "cs_State cs = ACTIVE_SESSION")
  case True
  with assms show ?thesis
    by (subst svc_worker_plain [where e = e and cs = cs]) (simp_all add: plain_session_def extract_short FRAME_HEADER_SIZE_def)
next
  case fresh: False
  show ?thesis
  proof (cases xs)
    case Nil
    then show ?thesis by (simp add: data_events_def extract_short FRAME_HEADER_SIZE_def)
  next
    case (Cons x ys)
    obtain bs now where x: "x = (bs, now)" by (cases x)
    obtain k where k: "cs_Socket cs = Some k" using assms(8) by blast
    let ?cs = "cs\<lparr>cs_State := ACTIVE_SESSION\<rparr>" and ?x = "Some (put_obj c (cs\<lparr>cs_State := ACTIVE_SESSION\<rparr>) e)"
    have "hd bs = 0x4D" "cs_State cs = TCP_CONNECTING" using assms(9,10) fresh Cons x by simp_all
    then have "svc_worker_run sch envs n c (data_events xs) s = svc_worker_run sch envs n c (data_events xs) (s\<lparr>sv_net := ?x\<rparr>)"
      using first_chunk [OF assms(1,5)] assms(2,3,8) by (simp add: Cons x data_events_def)
    also have "reaction \<dots> = reaction (handle_frames envs n c (fst (extract_frames (cs_ReceiveBuffer ?cs @ concat (map fst xs)))) (s\<lparr>sv_net := ?x\<rparr>))"
      by (rule svc_worker_plain [where e = "put_obj c ?cs e"]) (use assms in \<open>auto simp: put_obj_def plain_session_def extract_short FRAME_HEADER_SIZE_def\<close>)
    also have "\<dots> = reaction (handle_frames envs n c (fst (extract_frames (concat (map fst xs)))) s)"
      using assms k by (subst reaction_net [where k = k]) (simp_all add: plain_client_def put_obj_def)
    finally show ?thesis .
  qed
qed

text \<open>The witness: the phone of the demonstrations sends a ping that arrives in two pieces.\<close>

theorem service_stream_exact_witness:
  "\<exists>t. reaction (svc_worker_run demo_sch (\<lambda>_. demo_svc_env) 0 1
      (data_events [(take 10 (encode_frame ping_frame), 2000), (drop 10 (encode_frame ping_frame), 2001)]) demo_service) =
    Some ([SNet (NSend 77 (SerializeFrameHeader (svc_header MT_PONG 0 1 [])))], t)"
proof -
  let ?xs = "[(take 10 (encode_frame ping_frame), 2000), (drop 10 (encode_frame ping_frame), 2001)] :: (bytes \<times> u32) list"
  let ?cs = "the (ne_objs sample_engine 1)"
  have len: "length (encode_frame ping_frame) = 27" by (simp add: encode_frame_def ping_frame_def FRAME_HEADER_SIZE_def)
  have ok: "list_all frame_ok [ping_frame]" by code_simp
  have ne: "\<forall>x\<in>set ?xs. fst x \<noteq> []" using len by (auto simp: take_eq_Nil)
  have cat: "concat (map fst ?xs) = encode_frame ping_frame" by simp
  have hd: "hd (encode_frame ping_frame) = 0x4D" using encode_frame_first(2) ok by simp
  have frames: "fst (extract_frames (concat (map fst ?xs))) = [ping_frame]" using extract_encoded [OF ok] cat by simp
  have "reaction (svc_worker_run demo_sch (\<lambda>_. demo_svc_env) 0 1 (data_events ?xs) demo_service) =
      reaction (handle_frames (\<lambda>_. demo_svc_env) 0 1 (fst (extract_frames (concat (map fst ?xs)))) demo_service)"
    by (rule service_stream_exact [where cs = ?cs, OF demo_service_sel(4) _ _ _ _ _ _ _ _ ne])
      (simp_all add: cat hd sample_engine_def accept_iter_def Net_Start_def NetworkEngine_new_def CheckRateLimit_def put_obj_def
        new_client_def TlsContext_new_def Let_def)
  also have "\<dots> = Some ([SNet (NSend 77 (SerializeFrameHeader (svc_header MT_PONG 0 1 [])))],
      demo_service\<lparr>sv_diag := IncrementProcessedMessages (sv_diag demo_service), sv_net := None\<rparr>)"
    unfolding frames
    by (simp add: ping_frame_def HandleNetworkFrame_def send_plain [OF demo_plain_client] FrameHeader_init_def Let_def)
  finally show ?thesis by blast
qed

end
