(* ===== verification/EntryPoints.thy ===== *)
theory EntryPoints
  imports Lsa Service Agent
begin

text \<open>
  The entry points: \<^verbatim>\<open>lsa_authentication_package/LsaExports.cpp\<close> with the package object that the exported functions share,
  \<^verbatim>\<open>service/main.cpp\<close> and \<^verbatim>\<open>user_session_agent/main.cpp\<close>, each from the start of the process to its end.
\<close>

section \<open>The authentication package in LSASS\<close>

text \<open>\<^verbatim>\<open>LsaPackage::Instance\<close>: the static object is constructed by the first call, \<open>None\<close> before it.\<close>

definition LsaPackage_Instance :: "LsaPackage option \<Rightarrow> LsaPackage" where
  "LsaPackage_Instance inst = (case inst of None \<Rightarrow> LsaPackage_new | Some p \<Rightarrow> p)"

definition Lsa_DllMain :: "u32 \<Rightarrow> bool" where
  "Lsa_DllMain dwReason = True"

definition LsaApInitializePackage ::
  "alloc_oracle \<Rightarrow> u32 \<Rightarrow> (bool \<times> bool) option \<Rightarrow> bool \<Rightarrow> LsaPackage option \<Rightarrow> u32 \<times> LSA_STRING option \<times> LsaPackage option" where
  "LsaApInitializePackage alloc authenticationPackageId lsaDispatchTable wantName inst =
     (let (status, name, p) = Lsa_Initialize alloc authenticationPackageId lsaDispatchTable wantName (LsaPackage_Instance inst)
      in (status, name, Some p))"

definition LsaApLogonUserEx2 ::
  "'w reg_api \<Rightarrow> cng_api \<Rightarrow> (string \<Rightarrow> wstring option) \<Rightarrow> alloc_oracle \<Rightarrow> logon_request \<Rightarrow> bytes option \<Rightarrow>
   'w reg_state \<Rightarrow> crypto_state \<Rightarrow> LsaPackage option \<Rightarrow> (logon_result \<times> LsaPackage option) option" where
  "LsaApLogonUserEx2 api cng lookup_sid alloc req submit reg cs inst =
     map_option (\<lambda>res. (res, Some (lo_package res)))
       (LogonUserEx2 api cng lookup_sid alloc req submit reg cs (LsaPackage_Instance inst))"

definition LogonTerminated :: "LsaPackage \<Rightarrow> LsaPackage" where
  "LogonTerminated p = p"

definition LsaApLogonTerminated :: "LsaPackage option \<Rightarrow> LsaPackage option" where
  "LsaApLogonTerminated inst = Some (LogonTerminated (LsaPackage_Instance inst))"

text \<open>
  The calls of LSASS, with what they meet: the heap, and for a logon the registry of that moment, which the service
  changes from its own process.
\<close>

datatype 'w lsa_call =
    CallDllMain u32
  | CallInitialize alloc_oracle u32 "(bool \<times> bool) option" bool
  | CallLogon "'w reg_api" cng_api "string \<Rightarrow> wstring option" alloc_oracle logon_request "bytes option" "'w reg_state"
  | CallTerminated

datatype lsa_answer = AnsAttached bool | AnsInitialized u32 "LSA_STRING option" | AnsLogon logon_result | AnsTerminated

type_synonym lsa_process = "LsaPackage option \<times> crypto_state"

fun lsa_exec :: "'w lsa_call \<Rightarrow> lsa_process \<Rightarrow> (lsa_answer \<times> lsa_process) option" where
  "lsa_exec (CallDllMain reason) (inst, cs) = Some (AnsAttached (Lsa_DllMain reason), inst, cs)"
| "lsa_exec (CallInitialize alloc i table wantName) (inst, cs) =
     (let (status, name, inst) = LsaApInitializePackage alloc i table wantName inst in Some (AnsInitialized status name, inst, cs))"
| "lsa_exec (CallLogon api cng lookup_sid alloc req submit reg) (inst, cs) =
     map_option (\<lambda>(res, inst). (AnsLogon res, inst, lo_crypto res)) (LsaApLogonUserEx2 api cng lookup_sid alloc req submit reg cs inst)"
| "lsa_exec CallTerminated (inst, cs) = Some (AnsTerminated, LsaApLogonTerminated inst, cs)"

definition lsa_step :: "lsa_process \<Rightarrow> 'w lsa_call \<times> lsa_answer \<Rightarrow> lsa_process \<Rightarrow> bool" where
  "lsa_step s e s' \<longleftrightarrow> lsa_exec (fst e) s = Some (snd e, s')"

definition lsa_loaded :: lsa_process where
  "lsa_loaded = (None, crypto_state_init)"

text \<open>The strings a call hands to LSASS, which then owns them.\<close>

fun handed_out :: "lsa_answer \<Rightarrow> int" where
  "handed_out (AnsInitialized _ name) = (if name = None then 0 else 1)"
| "handed_out (AnsLogon res) = (if lo_accountName res = None then 0 else 1) + (if lo_authority res = None then 0 else 1)"
| "handed_out _ = 0"

fun initializes :: "lsa_answer \<Rightarrow> bool" where
  "initializes (AnsInitialized status _) \<longleftrightarrow> status = STATUS_SUCCESS"
| "initializes _ \<longleftrightarrow> False"

lemma logon_live:
  assumes "LogonUserEx2 api cng lookup_sid alloc req submit reg cs p = Some res"
  shows "lp_live (lo_package res) = lp_live p + handed_out (AnsLogon res)" "lp_isInitialized (lo_package res) = lp_isInitialized p"
proof -
  show "lp_live (lo_package res) = lp_live p + handed_out (AnsLogon res)"
    using lsa_heap_balanced [OF assms] by simp
  have "lp_isInitialized (lo_package (logon_outputs alloc req n p cs)) = lp_isInitialized p" for n cs
    by (simp add: logon_outputs_def logon_failed_def CreateUnicodeStringOnLsaHeap_def AllocateHeap_def FreeHeap_def Let_def)
  then show "lp_isInitialized (lo_package res) = lp_isInitialized p"
    using assms by (auto simp: LogonUserEx2_def logon_failed_def split: bind_splits sum.splits if_splits)
qed

lemma initialize_live:
  assumes "Lsa_Initialize alloc i table wantName p = (status, name, p')"
  shows "lp_live p' = lp_live p + handed_out (AnsInitialized status name)"
    "lp_isInitialized p' \<longleftrightarrow> lp_isInitialized p \<or> initializes (AnsInitialized status name)"
  using assms by (auto simp: Lsa_Initialize_def AllocateHeap_def LSA_PACKAGE_NAME_A_def status_consts Let_def split: if_splits)

lemma lsa_exec_accounts:
  assumes "lsa_exec call s = Some (ans, s')"
  shows "lp_live (LsaPackage_Instance (fst s')) = lp_live (LsaPackage_Instance (fst s)) + handed_out ans"
    "lp_isInitialized (LsaPackage_Instance (fst s')) \<longleftrightarrow> lp_isInitialized (LsaPackage_Instance (fst s)) \<or> initializes ans"
  using assms
  by (cases call; cases s; force simp: LsaApInitializePackage_def LsaApLogonUserEx2_def LsaApLogonTerminated_def LogonTerminated_def
      LsaPackage_Instance_def [of "Some _"] logon_live initialize_live split: prod.splits)+

text \<open>What the package keeps between the calls is exact: after every history of calls from the loading of the library, the blocks that are live on
  the heap are the strings handed to LSASS, whichever calls failed, and the package is initialized exactly if a call of its
  initialization succeeded.\<close>

theorem lsa_process_accounts:
  assumes "run lsa_step lsa_loaded es s"
  shows "lp_live (LsaPackage_Instance (fst s)) = sum_list (map (handed_out \<circ> snd) es) \<and>
    (lp_isInitialized (LsaPackage_Instance (fst s)) \<longleftrightarrow> list_ex (initializes \<circ> snd) es)"
proof -
  have "lp_live (LsaPackage_Instance (fst t)) = lp_live (LsaPackage_Instance (fst s)) + sum_list (map (handed_out \<circ> snd) es) \<and>
      (lp_isInitialized (LsaPackage_Instance (fst t)) \<longleftrightarrow> lp_isInitialized (LsaPackage_Instance (fst s)) \<or> list_ex (initializes \<circ> snd) es)"
    if "run lsa_step s es t" for s t and es :: "('w lsa_call \<times> lsa_answer) list"
    using that
  proof (induction rule: run.induct)
    case (run_Cons s e s' es s'')
    then show ?case using lsa_exec_accounts [of "fst e" s "snd e" s'] by (auto simp: lsa_step_def)
  qed simp
  from this [OF assms] show ?thesis
    by (simp add: lsa_loaded_def LsaPackage_Instance_def LsaPackage_new_def)
qed

text \<open>The library is loaded and initialized, and told of the end of a logon.\<close>

theorem lsa_process_accounts_witness:
  "\<exists>es s. run (lsa_step :: _ \<Rightarrow> sim_world lsa_call \<times> _ \<Rightarrow> _ \<Rightarrow> _) lsa_loaded es s \<and>
     map fst es = [CallDllMain 1, CallInitialize (\<lambda>_ _ _. True) 7 (Some (True, True)) True, CallTerminated] \<and>
     lp_live (LsaPackage_Instance (fst s)) = 1 \<and> lp_isInitialized (LsaPackage_Instance (fst s))"
proof -
  obtain status name p where i: "Lsa_Initialize (\<lambda>_ _ _. True) 7 (Some (True, True)) True LsaPackage_new = (status, Some name, p)"
    "status = STATUS_SUCCESS"
    by (simp add: Lsa_Initialize_def AllocateHeap_def LSA_PACKAGE_NAME_A_def Let_def)
  let ?es = "[(CallDllMain 1, AnsAttached True), (CallInitialize (\<lambda>_ _ _. True) 7 (Some (True, True)) True, AnsInitialized status (Some name)),
    (CallTerminated, AnsTerminated)] :: (sim_world lsa_call \<times> lsa_answer) list"
  have r: "run lsa_step lsa_loaded ?es (Some p, crypto_state_init)"
    using i(1) by (simp add: lsa_step_def lsa_loaded_def Lsa_DllMain_def LsaApInitializePackage_def LsaApLogonTerminated_def
        LogonTerminated_def LsaPackage_Instance_def)
  from lsa_process_accounts [OF r] i(2) show ?thesis
    by (intro exI [of _ ?es] exI [of _ "(Some p, crypto_state_init)"] conjI r) simp_all
qed

section \<open>The service's process\<close>

text \<open>
  \<^verbatim>\<open>main\<close>: \<open>commandLine\<close> is the answer of \<^verbatim>\<open>CommandLineToArgvW\<close>, without which \<^verbatim>\<open>Run\<close> gets no arguments
  (under MSVC, where \<^verbatim>\<open>wmain\<close> is given the arguments, it is those). The static service
  object is destroyed after it: its destructor stops the components, then its members go in the reverse order of
  their declaration.
\<close>

definition service_main ::
  "wstring list option \<Rightarrow> (('c, 'w) MobileUnlockService \<Rightarrow> ('c, 'w) svc_result) \<Rightarrow>
   (('c, 'w) MobileUnlockService \<Rightarrow> u32 option \<times> ('c, 'w) svc_result) \<Rightarrow> 'w reg_api \<Rightarrow> svc_start_env \<Rightarrow>
   ('c, 'w) MobileUnlockService \<Rightarrow> (int \<times> ('c, 'w) svc_result) option" where
  "service_main commandLine console dispatcher api env s =
     (let wargv = (case commandLine of None \<Rightarrow> [] | Some wargv \<Rightarrow> wargv) in Svc_Run wargv console dispatcher api env s)"

definition MobileUnlockService_delete :: "('c, 'w) MobileUnlockService \<Rightarrow> ('c, 'w) svc_result" where
  "MobileUnlockService_delete s =
     (let (outs, s) = StopServiceComponents s;
          outs_m = (case sv_mdns s of None \<Rightarrow> [] | Some r \<Rightarrow> map SCloseUdp (fst (Mdns_Stop r)));
          outs_n = (case sv_net s of None \<Rightarrow> [] | Some e \<Rightarrow> map SNet (fst (Net_Stop e)))
      in (outs @ outs_m @ outs_n, s\<lparr>sv_mdns := None, sv_net := None, sv_ipc := None\<rparr>))"

text \<open>The exit code is 0 in console mode, also when the components cannot be started, and otherwise the error of the dispatcher.\<close>

lemma service_exit_code:
  assumes "service_main (Some argv) console dispatcher api env s = Some (code, outs, t)"
  shows "code = (if length argv > 1 \<and> argv ! 1 \<in> {wide ''-console'', wide ''--console''} then 0
    else case fst (dispatcher s) of None \<Rightarrow> 0 | Some err \<Rightarrow> sint err)"
  using assms
  by (auto simp: service_main_def Svc_Run_def Let_def bind_eq_Some_conv split: if_splits option.splits prod.splits)

text \<open>A service that was not stopped gives back what it holds when it is destroyed; one that was stopped holds nothing any more.\<close>

lemma delete_after_stop:
  assumes "StopServiceComponents s = (outs, t)" "sv_isRunning s"
  shows "MobileUnlockService_delete s = (outs, t) \<and> MobileUnlockService_delete t = ([], t)"
proof -
  have "\<not> sv_isRunning t \<and> sv_mdns t = None \<and> sv_net t = None \<and> sv_ipc t = None"
    using assms by (auto simp: StopServiceComponents_def Svc_SetState_def Let_def)
  then show ?thesis
    using assms(1) by (simp add: MobileUnlockService_delete_def) (simp add: StopServiceComponents_def)
qed

section \<open>The agent's process\<close>

definition UserSessionAgent_delete :: "UserSessionAgent \<Rightarrow> UserSessionAgent" where
  "UserSessionAgent_delete a = (let a = Agent_Stop a in a\<lparr>ag_ipcClient := Disconnect (ag_ipcClient a)\<rparr>)"

definition agent_main :: "agent_env \<Rightarrow> agent_env list \<Rightarrow> (int \<times> agent_out list \<times> UserSessionAgent) option" where
  "agent_main env envs =
     map_option (\<lambda>(outs, a). (0, outs, UserSessionAgent_delete a)) (Agent_Run env envs UserSessionAgent_new)"

text \<open>The agent's process ends, with exit code 0 and its pipe closed, once a turn finds it stopped.\<close>

lemma agent_main_returns:
  assumes "\<forall>e\<in>set (env # envs). time_passes e" "\<exists>e\<in>set envs. ae_stopped e"
  shows "\<exists>outs a. agent_main env envs = Some (0, outs, a) \<and> \<not> ag_isRunning a \<and> \<not> Client_IsConnected (ag_ipcClient a)"
  using Agent_Run_ends [OF assms, of UserSessionAgent_new]
  by (auto simp: agent_main_def UserSessionAgent_delete_def Agent_Stop_def Disconnect_def Client_IsConnected_def)

end
