(* ===== verification/PipeThreads.thy ===== *)
theory PipeThreads
  imports Ipc
begin

text \<open>
  The threads of \<^verbatim>\<open>NamedPipeServer\<close> in any interleaving. Theory Ipc takes \<^verbatim>\<open>Stop\<close>, the opening of an instance and a poll as single
  steps; here \<^verbatim>\<open>ServerWorkerThread\<close>, \<^verbatim>\<open>Stop\<close> and \<^verbatim>\<open>SendMessageToClient\<close> are programs whose points lie between the accesses to the
  members \<^verbatim>\<open>m_isRunning\<close>, \<^verbatim>\<open>m_isConnected\<close> and \<^verbatim>\<open>m_hPipe\<close>, which no lock protects. The service makes a new object for
  every start, so \<^verbatim>\<open>Start\<close> is called once; \<^verbatim>\<open>Stop\<close> can be called again by the destructor. The instances of the pipe that are open in the
  system are part of the state, and what each step does to them is its output. What the system answers is an input.
\<close>

section \<open>The threads\<close>

text \<open>What a step does with handles: it is given one, uses one in a call, closes one; or it hands a message to the handler.\<close>

datatype pipe_use = UCreate nat | UCall "nat option" | UClose "nat option" | UMessage bytes

datatype worker_pc =
  WLoop | WCreate | WCheck | WConnect | WWaiting | WTest bool | WSet | WPoll | WPoll2 | WPeek | WPeekFailed | WRead
| WHandle bytes | WReadFailed | WDisconnect | WClose | WClear | WUnset | WEnd

record worker_input =
  wi_pipe :: "nat option"
  wi_connected :: bool
  wi_peek :: "nat option"
  wi_readFile :: "nat \<Rightarrow> bytes option"

text \<open>\<^verbatim>\<open>ServerWorkerThread\<close>: the loop test, the new instance, the wait for a client, the polls, and the end of the instance.\<close>

fun worker_thread :: "worker_input \<Rightarrow> worker_pc \<Rightarrow> NamedPipeServer \<Rightarrow> pipe_use list \<times> worker_pc \<times> NamedPipeServer" where
  "worker_thread inp WLoop s = ([], if ps_isRunning s then WCreate else WEnd, s)"
| "worker_thread inp WCreate s =
     ((case wi_pipe inp of None \<Rightarrow> [] | Some h \<Rightarrow> [UCreate h]), WCheck, s\<lparr>ps_hPipe := wi_pipe inp\<rparr>)"
| "worker_thread inp WCheck s = ([], if ps_hPipe s = None then WLoop else WConnect, s)"
| "worker_thread inp WConnect s = ([UCall (ps_hPipe s)], WWaiting, s)"
| "worker_thread inp WWaiting s = ([], WTest (wi_connected inp), s)"
| "worker_thread inp (WTest connected) s = ([], if connected \<and> ps_isRunning s then WSet else WClose, s)"
| "worker_thread inp WSet s = ([], WPoll, s\<lparr>ps_isConnected := True\<rparr>)"
| "worker_thread inp WPoll s = ([], if ps_isRunning s then WPoll2 else WDisconnect, s)"
| "worker_thread inp WPoll2 s = ([], if ps_isConnected s then WPeek else WDisconnect, s)"
| "worker_thread inp WPeek s =
     ([UCall (ps_hPipe s)],
      (case wi_peek inp of None \<Rightarrow> WPeekFailed | Some bytesAvail \<Rightarrow> if bytesAvail = 0 then WPoll else WRead), s)"
| "worker_thread inp WPeekFailed s = ([], WDisconnect, s\<lparr>ps_isConnected := False\<rparr>)"
| "worker_thread inp WRead s =
     ([UCall (ps_hPipe s)],
      (case wi_readFile inp 4096 of
         Some message \<Rightarrow> if message \<noteq> [] then WHandle message else WReadFailed
       | None \<Rightarrow> WReadFailed), s)"
| "worker_thread inp (WHandle message) s = ((if ps_handler s then [UMessage message] else []), WPoll, s)"
| "worker_thread inp WReadFailed s = ([], WPoll, s\<lparr>ps_isConnected := False\<rparr>)"
| "worker_thread inp WDisconnect s = ([UCall (ps_hPipe s)], WClose, s)"
| "worker_thread inp WClose s = ([UClose (ps_hPipe s)], WClear, s)"
| "worker_thread inp WClear s = ([], WUnset, s\<lparr>ps_hPipe := None\<rparr>)"
| "worker_thread inp WUnset s = ([], WLoop, s\<lparr>ps_isConnected := False\<rparr>)"
| "worker_thread inp WEnd s = ([], WEnd, s)"

text \<open>\<^verbatim>\<open>Stop\<close>, in the thread of the server's owner. Its wait for the worker ends after a second in any case.\<close>

datatype owner_pc =
  ONew | OIdle | OStopRunning | OStopConnected | OTestPipe | OClosePipe | OClearPipe | OTestThread | OWait | OForget

fun stop_thread :: "owner_pc \<Rightarrow> NamedPipeServer \<Rightarrow> pipe_use list \<times> owner_pc \<times> NamedPipeServer" where
  "stop_thread OStopRunning s = ([], OStopConnected, s\<lparr>ps_isRunning := False\<rparr>)"
| "stop_thread OStopConnected s = ([], OTestPipe, s\<lparr>ps_isConnected := False\<rparr>)"
| "stop_thread OTestPipe s = ([], if ps_hPipe s \<noteq> None then OClosePipe else OTestThread, s)"
| "stop_thread OClosePipe s = ([UClose (ps_hPipe s)], OClearPipe, s)"
| "stop_thread OClearPipe s = ([], OTestThread, s\<lparr>ps_hPipe := None\<rparr>)"
| "stop_thread OTestThread s = ([], if ps_hWorkerThread s \<noteq> None then OWait else OIdle, s)"
| "stop_thread OWait s = ([], OForget, s)"
| "stop_thread OForget s = ([], OIdle, s\<lparr>ps_hWorkerThread := None\<rparr>)"
| "stop_thread ONew s = ([], ONew, s)"
| "stop_thread OIdle s = ([], OIdle, s)"

text \<open>\<^verbatim>\<open>SendMessageToClient\<close>, in any thread: two tests, then the write on whatever the member holds by then.\<close>

datatype sender_pc = STestConnected bytes | STestPipe bytes | SWrite bytes

fun send_thread :: "sender_pc \<Rightarrow> NamedPipeServer \<Rightarrow> pipe_use list \<times> sender_pc option" where
  "send_thread (STestConnected m) s = ([], if ps_isConnected s then Some (STestPipe m) else None)"
| "send_thread (STestPipe m) s = ([], if ps_hPipe s = None \<or> m = [] then None else Some (SWrite m))"
| "send_thread (SWrite m) s = ([UCall (ps_hPipe s)], None)"

section \<open>The server with its threads\<close>

record pipe_world =
  pw_server :: NamedPipeServer
  pw_open :: "nat set"
  pw_worker :: "worker_pc option"
  pw_owner :: owner_pc
  pw_senders :: "nat \<rightharpoonup> sender_pc"

definition pipe_world_new :: "wstring \<Rightarrow> pipe_world" where
  "pipe_world_new n = \<lparr>pw_server = NamedPipeServer_new n, pw_open = {}, pw_worker = None, pw_owner = ONew, pw_senders = Map.empty\<rparr>"

text \<open>The instances that are open after a step. A handle that is closed while it is not open is no instance of this server.\<close>

fun open_after_use :: "nat set \<Rightarrow> pipe_use \<Rightarrow> nat set" where
  "open_after_use A (UCreate h) = insert h A"
| "open_after_use A (UClose h) = A - set_option h"
| "open_after_use A _ = A"

definition stale :: "nat set \<Rightarrow> pipe_use \<Rightarrow> bool" where
  "stale A u \<longleftrightarrow> (\<exists>h. (u = UCall (Some h) \<or> u = UClose (Some h)) \<and> h \<notin> A) \<or> u = UCall None \<or> u = UClose None"

datatype pipe_event = EStart bool "nat option" | EWorker worker_input | ECallStop | EStop | ECallSend nat bytes | ESend nat

inductive pipe_step :: "pipe_world \<Rightarrow> pipe_event \<times> pipe_use list \<Rightarrow> pipe_world \<Rightarrow> bool" where
  start: "pw_owner w = ONew \<Longrightarrow>
    pipe_step w (EStart handler thread, []) (w\<lparr>pw_server := snd (Ipc_Start handler thread (pw_server w)), pw_owner := OIdle,
      pw_worker := map_option (\<lambda>_. WLoop) thread\<rparr>)"
| worker: "pw_worker w = Some pc \<Longrightarrow> pc \<noteq> WEnd \<Longrightarrow> worker_thread inp pc (pw_server w) = (us, pc', s) \<Longrightarrow>
    \<forall>h. UCreate h \<in> set us \<longrightarrow> h \<notin> pw_open w \<Longrightarrow>
    pipe_step w (EWorker inp, us) (w\<lparr>pw_server := s, pw_open := fold (\<lambda>u A. open_after_use A u) us (pw_open w), pw_worker := Some pc'\<rparr>)"
| call_stop: "pw_owner w = OIdle \<Longrightarrow> pipe_step w (ECallStop, []) (w\<lparr>pw_owner := OStopRunning\<rparr>)"
| stop: "pw_owner w \<noteq> ONew \<Longrightarrow> pw_owner w \<noteq> OIdle \<Longrightarrow> stop_thread (pw_owner w) (pw_server w) = (us, pc', s) \<Longrightarrow>
    pipe_step w (EStop, us) (w\<lparr>pw_server := s, pw_open := fold (\<lambda>u A. open_after_use A u) us (pw_open w), pw_owner := pc'\<rparr>)"
| call_send: "pw_senders w k = None \<Longrightarrow>
    pipe_step w (ECallSend k m, []) (w\<lparr>pw_senders := (pw_senders w)(k \<mapsto> STestConnected m)\<rparr>)"
| send: "pw_senders w k = Some pc \<Longrightarrow> send_thread pc (pw_server w) = (us, r) \<Longrightarrow>
    pipe_step w (ESend k, us) (w\<lparr>pw_senders := (pw_senders w)(k := r)\<rparr>)"

inductive_cases pipe_step_cases: "pipe_step w e w'"

text \<open>The steps as a function of the schedule, to play a given interleaving.\<close>

fun pipe_exec :: "pipe_event \<Rightarrow> pipe_world \<Rightarrow> (pipe_use list \<times> pipe_world) option" where
  "pipe_exec (EStart handler thread) w =
     (if pw_owner w = ONew then Some ([], w\<lparr>pw_server := snd (Ipc_Start handler thread (pw_server w)), pw_owner := OIdle,
        pw_worker := map_option (\<lambda>_. WLoop) thread\<rparr>) else None)"
| "pipe_exec (EWorker inp) w =
     (case pw_worker w of None \<Rightarrow> None
      | Some pc \<Rightarrow>
          (let (us, pc', s) = worker_thread inp pc (pw_server w) in
           if pc = WEnd \<or> \<not> list_all (\<lambda>u. case u of UCreate h \<Rightarrow> h \<notin> pw_open w | _ \<Rightarrow> True) us then None
           else Some (us, w\<lparr>pw_server := s, pw_open := fold (\<lambda>u A. open_after_use A u) us (pw_open w), pw_worker := Some pc'\<rparr>)))"
| "pipe_exec ECallStop w = (if pw_owner w = OIdle then Some ([], w\<lparr>pw_owner := OStopRunning\<rparr>) else None)"
| "pipe_exec EStop w =
     (if pw_owner w \<in> {ONew, OIdle} then None
      else let (us, pc', s) = stop_thread (pw_owner w) (pw_server w)
           in Some (us, w\<lparr>pw_server := s, pw_open := fold (\<lambda>u A. open_after_use A u) us (pw_open w), pw_owner := pc'\<rparr>))"
| "pipe_exec (ECallSend k m) w =
     (if pw_senders w k = None then Some ([], w\<lparr>pw_senders := (pw_senders w)(k \<mapsto> STestConnected m)\<rparr>) else None)"
| "pipe_exec (ESend k) w =
     (case pw_senders w k of None \<Rightarrow> None
      | Some pc \<Rightarrow> let (us, r) = send_thread pc (pw_server w) in Some (us, w\<lparr>pw_senders := (pw_senders w)(k := r)\<rparr>))"

lemma pipe_exec_step: "pipe_exec e w = Some (us, w') \<longleftrightarrow> pipe_step w (e, us) w'"
proof
  show "pipe_exec e w = Some (us, w') \<Longrightarrow> pipe_step w (e, us) w'"
    by (cases e) (auto simp: Let_def list_all_iff intro!: pipe_step.intros split: if_splits option.splits prod.splits)
next
  show "pipe_step w (e, us) w' \<Longrightarrow> pipe_exec e w = Some (us, w')"
    by (erule pipe_step_cases) (auto simp: list_all_iff split: pipe_use.splits)
qed

fun play :: "pipe_event list \<Rightarrow> pipe_world \<Rightarrow> ((pipe_event \<times> pipe_use list) list \<times> pipe_world) option" where
  "play [] w = Some ([], w)"
| "play (e # es) w =
     (case pipe_exec e w of None \<Rightarrow> None
      | Some (us, w) \<Rightarrow> map_option (\<lambda>(ls, w). ((e, us) # ls, w)) (play es w))"

lemma play_run: "play es w = Some (ls, w') \<Longrightarrow> run pipe_step w ls w'"
  by (induction es w arbitrary: ls w' rule: play.induct)
    (auto simp: pipe_exec_step split: option.splits prod.splits intro: run.intros)

text \<open>A system that gives out the handle \<open>h\<close>, lets a client connect, and then reports the pipe as broken.\<close>

definition race_input :: "nat \<Rightarrow> worker_input" where
  "race_input h = \<lparr>wi_pipe = Some h, wi_connected = True, wi_peek = None, wi_readFile = \<lambda>_. None\<rparr>"

abbreviation worker_turns :: "nat \<Rightarrow> nat \<Rightarrow> pipe_event list" where
  "worker_turns h n \<equiv> replicate n (EWorker (race_input h))"

lemmas race_simps = race_input_def pipe_world_new_def NamedPipeServer_new_def Ipc_Start_def eval_nat_numeral

section \<open>The single steps of theory Ipc\<close>

text \<open>A thread that is not disturbed: \<open>n\<close> steps with the same answers of the system.\<close>

fun worker_alone :: "worker_input \<Rightarrow> nat \<Rightarrow> worker_pc \<times> NamedPipeServer \<Rightarrow> pipe_use list \<times> worker_pc \<times> NamedPipeServer" where
  "worker_alone inp 0 (pc, s) = ([], pc, s)"
| "worker_alone inp (Suc n) (pc, s) =
     (let (us, pc, s) = worker_thread inp pc s; (us', r) = worker_alone inp n (pc, s) in (us @ us', r))"

fun stop_alone :: "nat \<Rightarrow> owner_pc \<times> NamedPipeServer \<Rightarrow> owner_pc \<times> NamedPipeServer" where
  "stop_alone 0 (pc, s) = (pc, s)"
| "stop_alone (Suc n) (pc, s) = stop_alone n (snd (stop_thread pc s))"

lemma stop_alone_Ipc_Stop: "stop_alone 8 (OStopRunning, s) = (OIdle, Ipc_Stop s)"
  by (cases s) (simp add: eval_nat_numeral Ipc_Stop_def)

lemma worker_alone_open:
  assumes "ps_isRunning s"
  shows "\<exists>n us pc. worker_alone inp n (WLoop, s) = (us, pc, server_open (wi_pipe inp) (wi_connected inp) s) \<and>
    pc = (if wi_pipe inp \<noteq> None \<and> wi_connected inp then WPoll else WLoop)"
proof (cases "wi_pipe inp")
  case None
  have "worker_alone inp 3 (WLoop, s) = ([], WLoop, server_open None (wi_connected inp) s)"
    using assms None by (simp add: eval_nat_numeral server_open_def)
  with None show ?thesis by auto
next
  case (Some h)
  have "fst (snd (worker_alone inp 7 (WLoop, s))) = WPoll \<and> snd (snd (worker_alone inp 7 (WLoop, s))) = server_open (Some h) True s"
    if "wi_connected inp"
    using assms Some that by (simp add: eval_nat_numeral server_open_def)
  moreover have "fst (snd (worker_alone inp 9 (WLoop, s))) = WLoop \<and> snd (snd (worker_alone inp 9 (WLoop, s))) = server_open (Some h) False s"
    if "\<not> wi_connected inp"
    using assms Some that by (simp add: eval_nat_numeral server_open_def server_close_def)
  ultimately show ?thesis
    using Some by (cases "wi_connected inp") (metis option.distinct(1) prod.collapse)+
qed

definition poll_steps :: "worker_input \<Rightarrow> NamedPipeServer \<Rightarrow> nat" where
  "poll_steps inp s = (if \<not> ps_isRunning s then 5 else if \<not> ps_isConnected s then 6 else case wi_peek inp of None \<Rightarrow> 8 | Some n \<Rightarrow> if n = 0 then 3 else 5)"

lemma worker_alone_poll:
  "worker_alone inp (poll_steps inp s) (WPoll, s) = (us, pc, s') \<Longrightarrow>
     s' = snd (server_poll (wi_peek inp) (wi_readFile inp) s) \<and> pc \<in> {WPoll, WLoop} \<and>
     (\<forall>m. UMessage m \<in> set us \<longleftrightarrow> fst (server_poll (wi_peek inp) (wi_readFile inp) s) = Some m)"
  by (auto simp: poll_steps_def server_poll_def server_close_def eval_nat_numeral split: if_splits option.splits)

section \<open>No instance is lost\<close>

text \<open>The points at which the worker holds no instance: those before it creates one and after it has cleared the member.\<close>

fun holds_none :: "worker_pc \<Rightarrow> bool" where
  "holds_none WLoop = True" | "holds_none WCreate = True" | "holds_none WUnset = True" | "holds_none WEnd = True" | "holds_none _ = False"

definition pipe_inv :: "pipe_world \<Rightarrow> bool" where
  "pipe_inv w \<longleftrightarrow>
     pw_open w \<subseteq> {h. ps_hPipe (pw_server w) = Some h} \<and>
     (case pw_worker w of None \<Rightarrow> ps_hPipe (pw_server w) = None
        | Some pc \<Rightarrow> pw_owner w \<noteq> ONew \<and> (holds_none pc \<longrightarrow> ps_hPipe (pw_server w) = None) \<and> (pc = WClear \<longrightarrow> pw_open w = {})) \<and>
     (pw_owner w \<notin> {ONew, OIdle, OStopRunning} \<longrightarrow> \<not> ps_isRunning (pw_server w)) \<and>
     (pw_owner w \<in> {OClosePipe, OClearPipe} \<longrightarrow> pw_worker w \<noteq> Some WCreate) \<and>
     (pw_owner w = OClearPipe \<longrightarrow> pw_open w = {})"

lemma close_member: "A \<subseteq> {h. p = Some h} \<Longrightarrow> A - set_option p = {}"
  by auto

lemma worker_keeps_inv:
  assumes "pipe_inv w" "pw_worker w = Some pc" "worker_thread inp pc (pw_server w) = (us, pc', s)"
  shows "pipe_inv (w\<lparr>pw_server := s, pw_open := fold (\<lambda>u A. open_after_use A u) us (pw_open w), pw_worker := Some pc'\<rparr>)"
  using assms by (cases pc) (auto simp: pipe_inv_def close_member split: if_splits option.splits)

lemma stop_keeps_inv:
  assumes "pipe_inv w" "stop_thread (pw_owner w) (pw_server w) = (us, pc', s)"
  shows "pipe_inv (w\<lparr>pw_server := s, pw_open := fold (\<lambda>u A. open_after_use A u) us (pw_open w), pw_owner := pc'\<rparr>)"
  using assms by (cases "pw_owner w"; cases "pw_worker w") (auto simp: pipe_inv_def close_member split: if_splits)

interpretation pipe_machine: invariant_machine pipe_step pipe_inv
proof
  fix w e w'
  assume "pipe_inv w" "pipe_step w e w'"
  from this(2,1) show "pipe_inv w'"
  proof cases
    case (start handler thread)
    with \<open>pipe_inv w\<close> show ?thesis
      by (cases thread) (auto simp: pipe_inv_def Ipc_Start_def split: option.splits)
  next
    case (worker pc inp us pc' s)
    with \<open>pipe_inv w\<close> show ?thesis by (simp add: worker_keeps_inv)
  next
    case (stop us pc' s)
    with \<open>pipe_inv w\<close> show ?thesis by (simp add: stop_keeps_inv)
  next
    case call_stop
    with \<open>pipe_inv w\<close> show ?thesis by (simp add: pipe_inv_def split: option.splits)
  qed (simp_all add: pipe_inv_def split: option.splits)
qed

lemma pipe_reachable: "run pipe_step (pipe_world_new n) es w \<Longrightarrow> pipe_inv w"
  by (erule pipe_machine.run_inv) (simp add: pipe_inv_def pipe_world_new_def NamedPipeServer_new_def)

text \<open>C21: the pipe server loses no instance of the pipe. Whatever the interleaving of the worker, of \<^verbatim>\<open>Stop\<close> and of threads that send, and
  whatever the system answers, the only instance that can be open is the one whose handle the server's member holds, and once the
  worker has ended none is open.\<close>

theorem pipe_no_leak:
  assumes "run pipe_step (pipe_world_new n) es w"
  shows "pw_open w \<subseteq> {h. ps_hPipe (pw_server w) = Some h} \<and> (pw_worker w \<in> {None, Some WEnd} \<longrightarrow> pw_open w = {})"
  using pipe_reachable [OF assms] by (auto simp: pipe_inv_def)

lemma stop_schedule_plays:
  "\<exists>ls w. play (EStart True (Some 1) # worker_turns h 7 @ ECallStop # replicate 8 EStop @ worker_turns h 6) (pipe_world_new n) = Some (ls, w) \<and>
     pw_worker w = Some WEnd \<and> pw_owner w = OIdle \<and> UCreate h \<in> set (concat (map snd ls))"
  by (simp add: race_simps)

theorem pipe_no_leak_witness:
  "\<exists>es w. run pipe_step (pipe_world_new (wide ''p'')) es w \<and> UCreate 7 \<in> set (concat (map snd es)) \<and> pw_owner w = OIdle \<and>
     pw_worker w = Some WEnd \<and> pw_open w = {}"
proof -
  obtain es w where "run pipe_step (pipe_world_new (wide ''p'')) es w" "pw_worker w = Some WEnd" "pw_owner w = OIdle"
    "UCreate 7 \<in> set (concat (map snd es))"
    using stop_schedule_plays play_run by metis
  with pipe_no_leak [OF this(1)] show ?thesis by blast
qed

section \<open>Handles are used while they are open\<close>

text \<open>Until \<^verbatim>\<open>Stop\<close> is at work, the worker holds an open instance wherever it uses one.\<close>

fun uses_pipe :: "worker_pc \<Rightarrow> bool" where
  "uses_pipe WCheck = False" | "uses_pipe WClear = False" | "uses_pipe pc = (\<not> holds_none pc)"

definition held_inv :: "pipe_world \<Rightarrow> bool" where
  "held_inv w \<longleftrightarrow> pipe_inv w \<and> (ps_isRunning (pw_server w) \<longrightarrow> (\<forall>pc. pw_worker w = Some pc \<longrightarrow>
     (uses_pipe pc \<longrightarrow> ps_hPipe (pw_server w) \<noteq> None) \<and>
     (uses_pipe pc \<or> pc = WCheck \<longrightarrow> set_option (ps_hPipe (pw_server w)) \<subseteq> pw_open w)))"

lemma worker_keeps_held:
  assumes "held_inv w" "pw_worker w = Some pc" "worker_thread inp pc (pw_server w) = (us, pc', s)"
  shows "held_inv (w\<lparr>pw_server := s, pw_open := fold (\<lambda>u A. open_after_use A u) us (pw_open w), pw_worker := Some pc'\<rparr>)"
proof -
  have "pipe_inv w" using assms(1) by (simp add: held_inv_def)
  note worker_keeps_inv [OF this assms(2,3)]
  then show ?thesis using assms
    by (cases pc) (auto simp: held_inv_def split: if_splits option.splits)
qed

lemma stop_keeps_held:
  assumes "held_inv w" "stop_thread (pw_owner w) (pw_server w) = (us, pc', s)" "pw_owner w \<notin> {ONew, OIdle}"
  shows "held_inv (w\<lparr>pw_server := s, pw_open := fold (\<lambda>u A. open_after_use A u) us (pw_open w), pw_owner := pc'\<rparr>)"
proof -
  have "pipe_inv w" using assms(1) by (simp add: held_inv_def)
  moreover have "\<not> ps_isRunning s"
    using assms(2,3) \<open>pipe_inv w\<close> by (cases "pw_owner w") (auto simp: pipe_inv_def)
  ultimately show ?thesis
    using stop_keeps_inv [OF _ assms(2)] by (simp add: held_inv_def)
qed

interpretation held_machine: invariant_machine pipe_step held_inv
proof
  fix w e w'
  assume h: "held_inv w" and "pipe_step w e w'"
  then have "pipe_inv w'" using pipe_machine.step_inv [of w e w'] by (simp add: held_inv_def)
  with \<open>pipe_step w e w'\<close> h show "held_inv w'"
  proof cases
    case (start handler thread)
    with \<open>pipe_inv w'\<close> show ?thesis by (auto simp: held_inv_def)
  qed (simp_all add: worker_keeps_held stop_keeps_held, simp_all add: held_inv_def)
qed

lemma held_reachable: "run pipe_step (pipe_world_new n) es w \<Longrightarrow> held_inv w"
  by (erule held_machine.run_inv) (simp add: held_inv_def pipe_inv_def pipe_world_new_def NamedPipeServer_new_def)

text \<open>As long as \<^verbatim>\<open>Stop\<close> has not begun, the worker calls the system only with a handle that is open, and so closes every
  instance once: no call on an invalid handle and no second close.\<close>

theorem pipe_calls_on_open_handles:
  assumes "run pipe_step (pipe_world_new n) es w" "ps_isRunning (pw_server w)" "pipe_step w (EWorker inp, us) w'" "u \<in> set us"
  shows "\<not> stale (pw_open w) u"
proof -
  obtain pc pc' s where w: "pw_worker w = Some pc" "worker_thread inp pc (pw_server w) = (us, pc', s)"
    using assms(3) by (auto elim: pipe_step_cases)
  have h: "uses_pipe pc \<Longrightarrow> \<exists>h. ps_hPipe (pw_server w) = Some h \<and> h \<in> pw_open w"
    using held_reachable [OF assms(1)] assms(2) w(1) by (force simp: held_inv_def)
  show ?thesis
    using w(2) assms(4) h by (cases pc) (auto simp: stale_def split: if_splits option.splits)
qed

lemma connect_schedule_plays:
  "\<exists>ls w. play (EStart True (Some 1) # worker_turns h 3) (pipe_world_new n) = Some (ls, w) \<and>
     ps_isRunning (pw_server w) \<and> (\<exists>w'. pipe_exec (EWorker (race_input h)) w = Some ([UCall (Some h)], w'))"
  by (simp add: race_simps)

theorem pipe_calls_on_open_handles_witness:
  "\<exists>es w w'. run pipe_step (pipe_world_new (wide ''p'')) es w \<and>
     pipe_step w (EWorker (race_input 7), [UCall (Some 7)]) w' \<and> \<not> stale (pw_open w) (UCall (Some 7))"
proof -
  obtain es w w' where w: "run pipe_step (pipe_world_new (wide ''p'')) es w" "ps_isRunning (pw_server w)"
    "pipe_step w (EWorker (race_input 7), [UCall (Some 7)]) w'"
    using connect_schedule_plays [of 7 "wide ''p''"] play_run pipe_exec_step by metis
  from pipe_calls_on_open_handles [OF w] w show ?thesis by auto
qed

section \<open>The worker ends\<close>

text \<open>The steps that are left to the worker once the server is not running any more.\<close>

fun steps_left :: "worker_pc \<Rightarrow> nat" where
  "steps_left WEnd = 0" | "steps_left WLoop = 1" | "steps_left WUnset = 2" | "steps_left WClear = 3" | "steps_left WClose = 4"
| "steps_left WDisconnect = 5" | "steps_left WPoll = 6" | "steps_left WPeekFailed = 6" | "steps_left (WHandle m) = 7"
| "steps_left WReadFailed = 7" | "steps_left WSet = 7" | "steps_left WRead = 8" | "steps_left WPeek = 9" | "steps_left WPoll2 = 10"
| "steps_left (WTest c) = 5" | "steps_left WWaiting = 6" | "steps_left WConnect = 7" | "steps_left WCheck = 8" | "steps_left WCreate = 9"

fun worker_event :: "pipe_event \<times> pipe_use list \<Rightarrow> bool" where
  "worker_event (EWorker _, _) = True" | "worker_event _ = False"

lemma steps_left_decrease:
  assumes "worker_thread inp pc s = (us, pc', s')" "\<not> ps_isRunning s" "pc \<noteq> WEnd"
  shows "steps_left pc' < steps_left pc \<and> \<not> ps_isRunning s'"
  using assms by (cases pc) (auto split: if_splits option.splits)

lemma stopped_step:
  assumes "pipe_step w e w'" "\<not> ps_isRunning (pw_server w)" "pw_owner w \<noteq> ONew" "pw_worker w = Some pc"
  obtains pc' where "\<not> ps_isRunning (pw_server w')" "pw_owner w' \<noteq> ONew" "pw_worker w' = Some pc'"
    "steps_left pc' + (if worker_event e then 1 else 0) \<le> steps_left pc"
  using assms
proof cases
  case (worker pc0 inp us pc' s)
  then show thesis
    using that steps_left_decrease [OF worker(5)] assms by auto
next
  case (stop us pc' s)
  then show thesis
    using that assms by (cases "pw_owner w") (auto split: if_splits)
qed (use that assms in auto)

lemma steps_bounded:
  assumes "run pipe_step w es w'" "\<not> ps_isRunning (pw_server w)" "pw_owner w \<noteq> ONew" "pw_worker w = Some pc"
  shows "length (filter worker_event es) \<le> steps_left pc"
  using assms
proof (induction arbitrary: pc)
  case (run_Cons w e w1 es w2)
  obtain pc' where "\<not> ps_isRunning (pw_server w1)" "pw_owner w1 \<noteq> ONew" "pw_worker w1 = Some pc'"
    "steps_left pc' + (if worker_event e then 1 else 0) \<le> steps_left pc"
    by (rule stopped_step [OF run_Cons.hyps(1) run_Cons.prems])
  with run_Cons.IH [of pc'] show ?case by (auto split: if_splits)
qed simp

text \<open>C27: once \<^verbatim>\<open>Stop\<close> has cleared \<^verbatim>\<open>m_isRunning\<close> the worker ends. In every further interleaving it makes at most ten steps, whatever the system
  answers, and until it has ended it can make the next one; so all that can keep it is a call of the system that does not return.\<close>

theorem worker_ends_after_stop:
  assumes "run pipe_step w es w'" "\<not> ps_isRunning (pw_server w)" "pw_owner w \<noteq> ONew" "pw_worker w = Some pc"
  shows "length (filter worker_event es) \<le> 10 \<and> (pw_worker w' = Some WEnd \<or> (\<exists>inp us w''. pipe_step w' (EWorker inp, us) w''))"
proof
  have "steps_left pc \<le> 10" by (cases pc) simp_all
  with steps_bounded [OF assms] show "length (filter worker_event es) \<le> 10" by simp
next
  obtain pc' where pc': "pw_worker w' = Some pc'"
    using assms by (induction arbitrary: pc) (auto elim: stopped_step)
  show "pw_worker w' = Some WEnd \<or> (\<exists>inp us w''. pipe_step w' (EWorker inp, us) w'')"
  proof (cases "pc' = WEnd")
    case False
    let ?inp = "\<lparr>wi_pipe = None, wi_connected = False, wi_peek = None, wi_readFile = \<lambda>_. None\<rparr>"
    have "\<exists>us pc'' s. worker_thread ?inp pc' (pw_server w') = (us, pc'', s) \<and> (\<forall>h. UCreate h \<notin> set us)"
      by (cases pc') simp_all
    with False pc' show ?thesis using pipe_step.worker by blast
  qed (simp add: pc')
qed

section \<open>Races\<close>

definition close_race :: "nat \<Rightarrow> pipe_event list" where
  "close_race h = EStart True (Some 1) # worker_turns h 12 @ [ECallStop, EStop, EStop, EStop] @ worker_turns h 1 @ [EStop]"

definition wait_race :: "nat \<Rightarrow> pipe_event list" where
  "wait_race h = EStart True (Some 1) # worker_turns h 1 @ [ECallStop, EStop, EStop, EStop, EStop] @ worker_turns h 3 @ [EStop, EStop]"

definition send_race :: "nat \<Rightarrow> pipe_event list" where
  "send_race h = EStart True (Some 1) # worker_turns h 7 @ [ECallSend 0 [1], ESend 0, ESend 0] @ worker_turns h 6"

lemma close_race_plays:
  "\<exists>ls w. play (close_race h) (pipe_world_new n) = Some (ls, w) \<and>
     filter (\<lambda>u. u \<in> {UCreate h, UClose (Some h)}) (concat (map snd ls)) = [UCreate h, UClose (Some h), UClose (Some h)]"
  by (simp add: close_race_def race_simps)

lemma wait_race_plays:
  "\<exists>ls w. play (wait_race h) (pipe_world_new n) = Some (ls, w) \<and>
     pw_owner w = OIdle \<and> \<not> ps_isRunning (pw_server w) \<and> pw_worker w = Some WWaiting \<and> pw_open w = {h}"
  by (simp add: wait_race_def race_simps)

lemma send_race_plays:
  "\<exists>ls w. play (send_race h) (pipe_world_new n) = Some (ls, w) \<and>
     ps_isRunning (pw_server w) \<and> pw_open w = {} \<and> (\<exists>w'. pipe_exec (ESend 0) w = Some ([UCall (Some h)], w'))"
  by (simp add: send_race_def race_simps)

lemma wait_race_ends:
  assumes "play (wait_race h) (pipe_world_new n) = Some (ls, w)"
  shows "\<exists>ls' w'. play (worker_turns h 6) w = Some (ls', w') \<and> length (filter worker_event ls') = 6"
proof -
  have "w = snd (the (play (wait_race h) (pipe_world_new n)))" using assms by simp
  then show ?thesis by (simp add: wait_race_def race_simps)
qed

theorem worker_ends_after_stop_witness:
  "\<exists>w es w'. run pipe_step w es w' \<and> \<not> ps_isRunning (pw_server w) \<and> length (filter worker_event es) = 6 \<and>
     length (filter worker_event es) \<le> 10 \<and> (pw_worker w' = Some WEnd \<or> (\<exists>inp us w''. pipe_step w' (EWorker inp, us) w''))"
proof -
  obtain ls w where w: "play (wait_race 7) (pipe_world_new (wide ''p'')) = Some (ls, w)" "\<not> ps_isRunning (pw_server w)" "pw_owner w = OIdle"
    "pw_worker w = Some WWaiting"
    using wait_race_plays by blast
  obtain ls' w' where e: "run pipe_step w ls' w'" "length (filter worker_event ls') = 6"
    using wait_race_ends [OF w(1)] play_run by metis
  have "pw_owner w \<noteq> ONew" by (simp add: w(3))
  from worker_ends_after_stop [OF e(1) w(2) this w(4)] w(2) e show ?thesis by blast
qed

text \<open>C39: the members of the pipe server are not protected. There are interleavings in which the worker and \<^verbatim>\<open>Stop\<close> both close one
  instance, in which \<^verbatim>\<open>Stop\<close> returns while the worker waits for a client on an instance it has opened meanwhile, and in which a message is
  written to a handle that the worker has closed, without any call of \<^verbatim>\<open>Stop\<close>.\<close>

theorem pipe_races:
  "(\<exists>es w. run pipe_step (pipe_world_new n) es w \<and>
      filter (\<lambda>u. u \<in> {UCreate h, UClose (Some h)}) (concat (map snd es)) = [UCreate h, UClose (Some h), UClose (Some h)]) \<and>
   (\<exists>es w. run pipe_step (pipe_world_new n) es w \<and>
      pw_owner w = OIdle \<and> \<not> ps_isRunning (pw_server w) \<and> pw_worker w = Some WWaiting \<and> pw_open w = {h}) \<and>
   (\<exists>es w w'. run pipe_step (pipe_world_new n) es w \<and>
      ps_isRunning (pw_server w) \<and> pw_open w = {} \<and> pipe_step w (ESend 0, [UCall (Some h)]) w')"
  using close_race_plays wait_race_plays send_race_plays play_run pipe_exec_step by (intro conjI) metis+

end
