(* ===== verification/PipeChannel.thy ===== *)
theory PipeChannel
  imports Ipc Protocol
begin

text \<open>
  The two ends of the named pipe together. The system's pipe is a parameter with the documented behaviour of a pipe in
  message mode: peeking tells the number of waiting bytes, a read takes one whole message or, when its buffer is too small, fails and
  leaves the rest of it, and a write is whole. The operations of theory Ipc at both ends then implement a pair of queues
  of messages, as long as the messages to the server fit into its buffer of 4096 bytes.
\<close>

section \<open>The pipe of the system\<close>

record 'w pipe_api =
  PeekNamedPipe :: "'w \<Rightarrow> nat \<Rightarrow> nat option"
  ReadFile :: "'w \<Rightarrow> nat \<Rightarrow> nat \<Rightarrow> bytes option \<times> 'w"
  WriteFile :: "'w \<Rightarrow> nat \<Rightarrow> bytes \<Rightarrow> nat option \<times> 'w"

text \<open>\<open>queue w h\<close> are the messages that wait at the end with handle \<open>h\<close>, and \<open>peer h\<close> is the other end.\<close>

type_synonym 'w pipe_view = "'w \<Rightarrow> nat \<Rightarrow> bytes list option"

definition pipe_laws :: "'w pipe_api \<Rightarrow> (nat \<Rightarrow> nat) \<Rightarrow> 'w pipe_view \<Rightarrow> bool" where
  "pipe_laws api peer queue \<longleftrightarrow>
     (\<forall>w h ms. queue w h = Some ms \<longrightarrow> PeekNamedPipe api w h = Some (sum_list (map length ms))) \<and>
     (\<forall>w h m ms n. queue w h = Some (m # ms) \<longrightarrow>
        (if length m \<le> n then fst (ReadFile api w h n) = Some m \<and> queue (snd (ReadFile api w h n)) = (queue w)(h \<mapsto> ms)
         else fst (ReadFile api w h n) = None \<and> queue (snd (ReadFile api w h n)) = (queue w)(h \<mapsto> drop n m # ms))) \<and>
     (\<forall>w h m ms. m \<noteq> [] \<longrightarrow> queue w (peer h) = Some ms \<longrightarrow>
        (case fst (WriteFile api w h m) of
           Some k \<Rightarrow> k = length m \<and> queue (snd (WriteFile api w h m)) = (queue w)(peer h \<mapsto> ms @ [m])
         | None \<Rightarrow> queue (snd (WriteFile api w h m)) = queue w))"

lemma pipe_peek: "pipe_laws api peer queue \<Longrightarrow> queue w h = Some ms \<Longrightarrow> PeekNamedPipe api w h = Some (sum_list (map length ms))"
  by (simp add: pipe_laws_def)

lemma pipe_read:
  assumes "pipe_laws api peer queue" "queue w h = Some (m # ms)" "length m \<le> n"
  shows "fst (ReadFile api w h n) = Some m" "queue (snd (ReadFile api w h n)) = (queue w)(h \<mapsto> ms)"
  using assms by (simp_all add: pipe_laws_def)

lemma pipe_read_short:
  assumes "pipe_laws api peer queue" "queue w h = Some (m # ms)" "n < length m"
  shows "fst (ReadFile api w h n) = None" "queue (snd (ReadFile api w h n)) = (queue w)(h \<mapsto> drop n m # ms)"
  using assms by (simp_all add: pipe_laws_def)

lemma pipe_write:
  assumes "pipe_laws api peer queue" "m \<noteq> []" "queue w (peer h) = Some ms"
  shows "case fst (WriteFile api w h m) of
      Some k \<Rightarrow> k = length m \<and> queue (snd (WriteFile api w h m)) = (queue w)(peer h \<mapsto> ms @ [m])
    | None \<Rightarrow> queue (snd (WriteFile api w h m)) = queue w"
  using assms by (simp add: pipe_laws_def)

section \<open>The operations on the pipe\<close>

text \<open>Each is the operation of theory Ipc with the answers of the pipe, and the pipe after it.\<close>

definition server_send :: "'w pipe_api \<Rightarrow> bytes \<Rightarrow> NamedPipeServer \<Rightarrow> 'w \<Rightarrow> bool \<times> 'w" where
  "server_send api message s w =
     (let h = the (ps_hPipe s); (ok, written) = SendMessageToClient (\<lambda>m. fst (WriteFile api w h m)) message s
      in (ok, case written of None \<Rightarrow> w | Some bs \<Rightarrow> snd (WriteFile api w h bs)))"

definition client_send :: "'w pipe_api \<Rightarrow> bytes \<Rightarrow> NamedPipeClient \<Rightarrow> 'w \<Rightarrow> bool \<times> 'w" where
  "client_send api message c w =
     (let h = the (pc_hPipe c); (ok, written) = SendMessageToServer (\<lambda>m. fst (WriteFile api w h m)) message c
      in (ok, case written of None \<Rightarrow> w | Some bs \<Rightarrow> snd (WriteFile api w h bs)))"

definition server_receive :: "'w pipe_api \<Rightarrow> NamedPipeServer \<Rightarrow> 'w \<Rightarrow> bytes option \<times> NamedPipeServer \<times> 'w" where
  "server_receive api s w =
     (let h = the (ps_hPipe s); peek = PeekNamedPipe api w h;
          (message, s') = server_poll peek (\<lambda>n. fst (ReadFile api w h n)) s
      in (message, s',
          if ps_isRunning s \<and> ps_isConnected s \<and> peek \<noteq> None \<and> peek \<noteq> Some 0 then snd (ReadFile api w h 4096) else w))"

text \<open>The client polls at the given tick counts; what arrives meanwhile counts as arriving before or after the call.\<close>

definition client_receive ::
  "'w pipe_api \<Rightarrow> u32 \<Rightarrow> u32 \<Rightarrow> u32 list \<Rightarrow> NamedPipeClient \<Rightarrow> 'w \<Rightarrow> (bytes option \<times> 'w) option" where
  "client_receive api timeoutMs startTime ticks c w =
     (let h = the (pc_hPipe c); polls = map (\<lambda>t. (PeekNamedPipe api w h, t)) ticks
      in map_option (\<lambda>r. (r,
           if pc_hPipe c = None then w
           else case read_wait startTime timeoutMs polls of Some (Some n) \<Rightarrow> snd (ReadFile api w h n) | _ \<Rightarrow> w))
         (ReadMessageFromServer timeoutMs startTime polls (\<lambda>n. fst (ReadFile api w h n)) c))"

section \<open>A pair of queues\<close>

datatype fifo_label = PutUp bytes | TakeUp bytes | PutDown bytes | TakeDown bytes | NoMove

fun fifo_step :: "bytes list \<times> bytes list \<Rightarrow> fifo_label \<Rightarrow> bytes list \<times> bytes list \<Rightarrow> bool" where
  "fifo_step (u, d) (PutUp m) q \<longleftrightarrow> q = (u @ [m], d)"
| "fifo_step (u, d) (TakeUp m) q \<longleftrightarrow> (\<exists>u'. u = m # u' \<and> q = (u', d))"
| "fifo_step (u, d) (PutDown m) q \<longleftrightarrow> q = (u, d @ [m])"
| "fifo_step (u, d) (TakeDown m) q \<longleftrightarrow> (\<exists>d'. d = m # d' \<and> q = (u, d'))"
| "fifo_step (u, d) NoMove q \<longleftrightarrow> q = (u, d)"

text \<open>What went in and came out at each end.\<close>

fun put_up where "put_up (PutUp m) = [m]" | "put_up _ = []"
fun take_up where "take_up (TakeUp m) = [m]" | "take_up _ = []"
fun put_down where "put_down (PutDown m) = [m]" | "put_down _ = []"
fun take_down where "take_down (TakeDown m) = [m]" | "take_down _ = []"

abbreviation moved :: "('e \<Rightarrow> bytes list) \<Rightarrow> 'e list \<Rightarrow> bytes list" where
  "moved f es \<equiv> concat (map f es)"

lemma fifo_moves:
  "run fifo_step q ls q' \<Longrightarrow>
     fst q @ moved put_up ls = moved take_up ls @ fst q' \<and> snd q @ moved put_down ls = moved take_down ls @ snd q'"
proof (induction rule: run.induct)
  case (run_Cons q l q1 ls q2)
  then show ?case by (cases l; cases q) auto
qed simp

section \<open>The pipe as a pair of queues\<close>

datatype pipe_move = MUp bytes bool | MDown bytes bool | MServer "bytes option" | MClient u32 u32 "u32 list" "bytes option"

type_synonym 'w channel = "NamedPipeServer \<times> NamedPipeClient \<times> 'w"

fun chan_step :: "'w pipe_api \<Rightarrow> 'w channel \<Rightarrow> pipe_move \<Rightarrow> 'w channel \<Rightarrow> bool" where
  "chan_step api (s, c, w) (MUp m ok) t \<longleftrightarrow> t = (s, c, snd (client_send api m c w)) \<and> ok = fst (client_send api m c w)"
| "chan_step api (s, c, w) (MDown m ok) t \<longleftrightarrow> t = (s, c, snd (server_send api m s w)) \<and> ok = fst (server_send api m s w)"
| "chan_step api (s, c, w) (MServer r) t \<longleftrightarrow> (\<exists>s' w'. server_receive api s w = (r, s', w') \<and> t = (s', c, w'))"
| "chan_step api (s, c, w) (MClient timeoutMs startTime ticks r) t \<longleftrightarrow>
     (\<exists>w'. client_receive api timeoutMs startTime ticks c w = Some (r, w') \<and> t = (s, c, w'))"

text \<open>A message that was sent fits the server's buffer.\<close>

fun fits :: "pipe_move \<Rightarrow> bool" where
  "fits (MUp m ok) \<longleftrightarrow> length m \<le> 4096" | "fits _ \<longleftrightarrow> True"

fun move_view :: "pipe_move \<Rightarrow> fifo_label" where
  "move_view (MUp m ok) = (if ok then PutUp m else NoMove)"
| "move_view (MDown m ok) = (if ok then PutDown m else NoMove)"
| "move_view (MServer r) = (case r of Some m \<Rightarrow> TakeUp m | None \<Rightarrow> NoMove)"
| "move_view (MClient _ _ _ r) = (case r of Some m \<Rightarrow> TakeDown m | None \<Rightarrow> NoMove)"

text \<open>Both ends are connected, \<open>a\<close> being the server's handle and \<open>b\<close> the client's, and what waits for the server fits its buffer.\<close>

fun channel_ok :: "nat \<Rightarrow> nat \<Rightarrow> 'w pipe_view \<Rightarrow> 'w channel \<Rightarrow> bool" where
  "channel_ok a b queue (s, c, w) \<longleftrightarrow> ps_isRunning s \<and> ps_isConnected s \<and> ps_handler s \<and> ps_hPipe s = Some a \<and> pc_hPipe c = Some b \<and>
     (\<exists>u d. queue w a = Some u \<and> queue w b = Some d \<and> [] \<notin> set u \<and> [] \<notin> set d \<and> (\<forall>m\<in>set u. length m \<le> 4096))"

fun queues :: "nat \<Rightarrow> nat \<Rightarrow> 'w pipe_view \<Rightarrow> 'w channel \<Rightarrow> bytes list \<times> bytes list" where
  "queues a b queue (s, c, w) = (the (queue w a), the (queue w b))"

definition peers :: "(nat \<Rightarrow> nat) \<Rightarrow> nat \<Rightarrow> nat \<Rightarrow> bool" where
  "peers peer a b \<longleftrightarrow> peer a = b \<and> peer b = a \<and> a \<noteq> b"

lemma sum_length_pos: "[] \<notin> set ms \<Longrightarrow> ms \<noteq> [] \<Longrightarrow> 0 < sum_list (map length ms)"
  by (cases ms) auto

lemma channel_okE:
  assumes "channel_ok a b queue (s, c, w)"
  obtains u d where "queue w a = Some u" "queue w b = Some d" "[] \<notin> set u" "[] \<notin> set d" "\<forall>m\<in>set u. length m \<le> 4096"
  using assms by auto

lemma up_step:
  assumes "pipe_laws api peer queue" "peers peer a b" "channel_ok a b queue st" "fits (MUp m ok)" "chan_step api st (MUp m ok) st'"
  shows "channel_ok a b queue st' \<and> fifo_step (queues a b queue st) (move_view (MUp m ok)) (queues a b queue st')"
proof (cases "m = []")
  case True
  with assms(3,5) show ?thesis by (cases st) (auto simp: client_send_def SendMessageToServer_def Let_def)
next
  case False
  obtain s c w where st: "st = (s, c, w)" by (metis prod_cases3)
  obtain u d where q: "queue w a = Some u" "queue w b = Some d" "[] \<notin> set u" "[] \<notin> set d" "\<forall>m\<in>set u. length m \<le> 4096"
    by (rule channel_okE [OF assms(3) [unfolded st]])
  have p: "peer b = a" "a \<noteq> b" using assms(2) by (simp_all add: peers_def)
  from pipe_write [OF assms(1) False, of w b u] q p assms(3-5) False show ?thesis
    by (auto simp: st client_send_def SendMessageToServer_def Let_def split: option.splits)
qed

lemma down_step:
  assumes "pipe_laws api peer queue" "peers peer a b" "channel_ok a b queue st" "chan_step api st (MDown m ok) st'"
  shows "channel_ok a b queue st' \<and> fifo_step (queues a b queue st) (move_view (MDown m ok)) (queues a b queue st')"
proof (cases "m = []")
  case True
  with assms(3,4) show ?thesis by (cases st) (auto simp: server_send_def SendMessageToClient_def Let_def)
next
  case False
  obtain s c w where st: "st = (s, c, w)" by (metis prod_cases3)
  obtain u d where q: "queue w a = Some u" "queue w b = Some d" "[] \<notin> set u" "[] \<notin> set d" "\<forall>m\<in>set u. length m \<le> 4096"
    by (rule channel_okE [OF assms(3) [unfolded st]])
  have p: "peer a = b" "a \<noteq> b" using assms(2) by (simp_all add: peers_def)
  from pipe_write [OF assms(1) False, of w a d] q p assms(3,4) False show ?thesis
    by (auto simp: st server_send_def SendMessageToClient_def Let_def split: option.splits)
qed

lemma server_receive_head:
  assumes "pipe_laws api peer queue" "channel_ok a b queue (s, c, w)" "queue w a = Some (m # ms)"
  shows "server_receive api s w = (Some m, s, snd (ReadFile api w a 4096))"
proof -
  have m: "length m \<le> 4096" "m \<noteq> []" "0 < sum_list (map length (m # ms))"
    using assms(2,3) sum_length_pos [of "m # ms"] by auto
  note p = pipe_peek [OF assms(1,3)] and r = pipe_read(1) [OF assms(1,3) m(1)]
  show ?thesis
    using assms(2) m by (simp add: server_receive_def server_poll_def p r Let_def)
qed

lemma server_receive_empty:
  assumes "pipe_laws api peer queue" "channel_ok a b queue (s, c, w)" "queue w a = Some []"
  shows "server_receive api s w = (None, s, w)"
  using assms(2) pipe_peek [OF assms(1,3)] by (simp add: server_receive_def server_poll_def Let_def)

lemma server_step:
  assumes "pipe_laws api peer queue" "peers peer a b" "channel_ok a b queue st" "chan_step api st (MServer r) st'"
  shows "channel_ok a b queue st' \<and> fifo_step (queues a b queue st) (move_view (MServer r)) (queues a b queue st')"
proof -
  obtain s c w where st: "st = (s, c, w)" by (metis prod_cases3)
  obtain u where u: "queue w a = Some u" using assms(3) by (auto simp: st)
  show ?thesis
  proof (cases u)
    case Nil
    then show ?thesis
      using assms(3,4) u server_receive_empty [OF assms(1) assms(3) [unfolded st]] by (auto simp: st)
  next
    case (Cons m ms)
    have m: "length m \<le> 4096" using assms(3) u Cons by (auto simp: st)
    show ?thesis
      using assms(2,3,4) u Cons server_receive_head [OF assms(1) assms(3) [unfolded st]] pipe_read(2) [OF assms(1) _ m]
      by (auto simp: st peers_def)
  qed
qed

lemma client_receive_head:
  assumes "pipe_laws api peer queue" "pc_hPipe c = Some b" "queue w b = Some (m # ms)" "m \<noteq> []"
  shows "client_receive api timeoutMs startTime (t # ticks) c w = Some (Some m, snd (ReadFile api w b (length m + sum_list (map length ms))))"
  using assms(2,4) pipe_peek [OF assms(1,3)] pipe_read(1) [OF assms(1,3), of "length m + sum_list (map length ms)"]
  by (simp add: client_receive_def ReadMessageFromServer_def Let_def)

lemma read_wait_nothing: "\<forall>p\<in>set polls. fst p = Some 0 \<Longrightarrow> read_wait startTime timeoutMs polls \<in> {None, Some None}"
  by (induction startTime timeoutMs polls rule: read_wait.induct) auto

lemma client_receive_empty:
  assumes "pipe_laws api peer queue" "pc_hPipe c = Some b" "queue w b = Some []"
    and "client_receive api timeoutMs startTime ticks c w = Some (r, w')"
  shows "r = None \<and> w' = w"
proof -
  have "read_wait startTime timeoutMs (map (\<lambda>t. (PeekNamedPipe api w b, t)) ticks) \<in> {None, Some None}"
    by (rule read_wait_nothing) (use pipe_peek [OF assms(1,3)] in auto)
  with assms(2,4) show ?thesis by (auto simp: client_receive_def ReadMessageFromServer_def Let_def)
qed

lemma client_step:
  assumes "pipe_laws api peer queue" "peers peer a b" "channel_ok a b queue st" "chan_step api st (MClient timeoutMs startTime ticks r) st'"
  shows "channel_ok a b queue st' \<and> fifo_step (queues a b queue st) (move_view (MClient timeoutMs startTime ticks r)) (queues a b queue st')"
proof -
  obtain s c w where st: "st = (s, c, w)" by (metis prod_cases3)
  obtain d where d: "queue w b = Some d" and c: "pc_hPipe c = Some b" using assms(3) by (auto simp: st)
  show ?thesis
  proof (cases "d = [] \<or> ticks = []")
    case True
    obtain w' where w': "client_receive api timeoutMs startTime ticks c w = Some (r, w')" "st' = (s, c, w')"
      using assms(4) by (auto simp: st)
    have "ticks \<noteq> []" using w'(1) c by (auto simp: client_receive_def ReadMessageFromServer_def Let_def)
    with True have "r = None \<and> st' = st"
      using client_receive_empty [OF assms(1) c _ w'(1)] d w'(2) by (simp add: st)
    with assms(3) show ?thesis by (simp add: st)
  next
    case False
    then obtain m ms t ts where m: "d = m # ms" "ticks = t # ts" by (meson neq_Nil_conv)
    have "m \<noteq> []" using assms(3) d m by (auto simp: st)
    with assms d m c client_receive_head [OF assms(1) c] pipe_read(2) [OF assms(1), of w b m ms "length m + sum_list (map length ms)"]
    show ?thesis by (auto simp: st peers_def)
  qed
qed

text \<open>The moves on a connected pipe, as one relation.\<close>

definition lawful_move :: "'w pipe_api \<Rightarrow> (nat \<Rightarrow> nat) \<Rightarrow> nat \<Rightarrow> nat \<Rightarrow> 'w pipe_view \<Rightarrow> 'w channel \<Rightarrow> pipe_move \<Rightarrow> 'w channel \<Rightarrow> bool" where
  "lawful_move api peer a b queue st e st' \<longleftrightarrow>
     pipe_laws api peer queue \<and> peers peer a b \<and> channel_ok a b queue st \<and> fits e \<and> chan_step api st e st'"

lemma lawful_move_fifo:
  "lawful_move api peer a b queue st e st' \<Longrightarrow>
     channel_ok a b queue st' \<and> fifo_step (queues a b queue st) (move_view e) (queues a b queue st')"
  unfolding lawful_move_def by (cases e) (metis up_step down_step server_step client_step)+

interpretation pipe_queues: refinement "lawful_move api peer a b queue" fifo_step "queues a b queue" "\<lambda>e l. l = move_view e"
  by unfold_locales (simp add: lawful_move_fifo)

interpretation open_pipe: invariant_machine "lawful_move api peer a b queue" "channel_ok a b queue"
  by unfold_locales (simp add: lawful_move_fifo)

lemma lawful_run:
  assumes "pipe_laws api peer queue" "peers peer a b" "channel_ok a b queue st" "run (chan_step api) st es st'" "\<forall>e\<in>set es. fits e"
  shows "run (lawful_move api peer a b queue) st es st'"
  using assms(4,3,5)
proof (induction rule: run.induct)
  case (run_Cons st e st1 es st2)
  then have "lawful_move api peer a b queue st e st1" using assms(1,2) by (simp add: lawful_move_def)
  moreover from this have "channel_ok a b queue st1" by (rule open_pipe.step_inv [OF run_Cons.prems(1)])
  ultimately show ?case using run_Cons by (meson list.set_intros run.run_Cons)
qed simp

text \<open>A concrete pipe: the queues themselves, with the ends 1 and 2.\<close>

definition sim_peer :: "nat \<Rightarrow> nat" where
  "sim_peer h = (if h = 1 then 2 else 1)"

definition sim_pipe :: "(nat \<Rightarrow> bytes list option) pipe_api" where
  "sim_pipe = \<lparr>
     PeekNamedPipe = \<lambda>w h. map_option (\<lambda>ms. sum_list (map length ms)) (w h),
     ReadFile = \<lambda>w h n. (case w h of
         Some (m # ms) \<Rightarrow> if length m \<le> n then (Some m, w(h \<mapsto> ms)) else (None, w(h \<mapsto> drop n m # ms))
       | _ \<Rightarrow> (None, w)),
     WriteFile = \<lambda>w h m. (case w (sim_peer h) of
         Some ms \<Rightarrow> (Some (length m), w(sim_peer h \<mapsto> ms @ [m]))
       | None \<Rightarrow> (None, w))\<rparr>"

lemma sim_pipe_laws: "pipe_laws sim_pipe sim_peer (\<lambda>w. w)"
  by (auto simp: pipe_laws_def sim_pipe_def)

lemma sim_peers: "peers sim_peer 1 2"
  by (simp add: peers_def sim_peer_def)

definition sim_channel :: "(nat \<Rightarrow> bytes list option) channel" where
  "sim_channel = ((NamedPipeServer_new [])\<lparr>ps_isRunning := True, ps_isConnected := True, ps_handler := True, ps_hPipe := Some 1\<rparr>,
     (NamedPipeClient_new [])\<lparr>pc_hPipe := Some 2\<rparr>, [1 \<mapsto> [], 2 \<mapsto> []])"

lemma sim_channel_ok: "channel_ok 1 2 (\<lambda>w. w) sim_channel"
  by (simp add: sim_channel_def)

text \<open>C17: the named pipe is a pair of queues. On a connected pipe, whatever sends and receives its two ends make, the messages that
  were sent in one direction are, in their order, those that were received followed by those that wait, neither cut nor joined, provided the
  messages to the server have at most 4096 bytes; the ends stay connected, and the next receive of either end takes the first
  message that waits for it.\<close>

theorem pipe_is_fifo:
  assumes "pipe_laws api peer queue" "peers peer a b" "channel_ok a b queue st" "run (chan_step api) st es (s, c, w)" "\<forall>e\<in>set es. fits e"
  shows "fst (queues a b queue st) @ moved (put_up \<circ> move_view) es = moved (take_up \<circ> move_view) es @ the (queue w a) \<and>
    snd (queues a b queue st) @ moved (put_down \<circ> move_view) es = moved (take_down \<circ> move_view) es @ the (queue w b) \<and>
    channel_ok a b queue (s, c, w) \<and>
    (\<forall>m ms. queue w a = Some (m # ms) \<longrightarrow> fst (server_receive api s w) = Some m) \<and>
    (\<forall>m ms. queue w b = Some (m # ms) \<longrightarrow> (\<exists>w'. client_receive api timeoutMs startTime (t # ticks) c w = Some (Some m, w')))"
proof -
  have r: "run (lawful_move api peer a b queue) st es (s, c, w)" by (rule lawful_run [OF assms])
  have ok: "channel_ok a b queue (s, c, w)" by (rule open_pipe.run_inv [OF r assms(3)])
  obtain ls where "list_all2 (\<lambda>e l. l = move_view e) es ls" "run fifo_step (queues a b queue st) ls (queues a b queue (s, c, w))"
    using pipe_queues.run_refines [OF r] by blast
  moreover from this(1) have "ls = map move_view es" by (induction rule: list_all2_induct) auto
  ultimately have q: "run fifo_step (queues a b queue st) (map move_view es) (the (queue w a), the (queue w b))" by simp
  have "m \<noteq> []" if "queue w b = Some (m # ms)" for m ms using ok that by auto
  then show ?thesis
    using fifo_moves [OF q] ok server_receive_head [OF assms(1) ok] client_receive_head [OF assms(1), of c b w] by (auto simp: o_def)
qed

theorem pipe_is_fifo_witness:
  "\<exists>s c w. run (chan_step sim_pipe) sim_channel [MUp [1, 2] True, MDown [3] True, MUp [4] True, MServer (Some [1, 2])] (s, c, w) \<and>
     moved (put_up \<circ> move_view) [MUp [1, 2] True, MDown [3] True, MUp [4] True, MServer (Some [1, 2])] = [1, 2] # the (w 1) \<and>
     fst (server_receive sim_pipe s w) = Some [4]"
proof -
  let ?es = "[MUp [1, 2] True, MDown [3] True, MUp [4] True, MServer (Some [1, 2])]"
  obtain s c w where r: "run (chan_step sim_pipe) sim_channel ?es (s, c, w)" and w: "w 1 = Some [[4]]"
    by (simp add: sim_channel_def sim_pipe_def client_send_def server_send_def server_receive_def SendMessageToServer_def
        SendMessageToClient_def server_poll_def sim_peer_def Let_def NamedPipeServer_new_def NamedPipeClient_new_def)
  have f: "\<forall>e\<in>set ?es. fits e" by simp
  from pipe_is_fifo [OF sim_pipe_laws sim_peers sim_channel_ok r f] w
  have "moved (put_up \<circ> move_view) ?es = [1, 2] # the (w 1) \<and> fst (server_receive sim_pipe s w) = Some [4]" by simp
  with r show ?thesis by blast
qed

text \<open>The server's buffer is smaller than the largest frame. When the message that waits for the server is a frame with a payload of more
  than 4072 bytes, of the 4096 that the protocol allows, the server reads nothing, hands nothing to its handler, and
  with its next turn closes the instance of the pipe.\<close>

theorem pipe_frame_too_long:
  assumes "pipe_laws api peer queue" "ps_isRunning s" "ps_isConnected s" "ps_hPipe s = Some a"
    and "queue w a = Some ((SerializeFrameHeader h @ p) # ms)" "4072 < length p"
  shows "\<exists>s' w'. server_receive api s w = (None, s', w') \<and> server_receive api s' w' = (None, server_close s, w')"
proof -
  have len: "4096 < length (SerializeFrameHeader h @ p)"
    using assms(6) by (simp add: FRAME_HEADER_SIZE_def)
  note p = pipe_peek [OF assms(1,5)] and r = pipe_read_short(1) [OF assms(1,5) len]
  have "server_receive api s w = (None, s\<lparr>ps_isConnected := False\<rparr>, snd (ReadFile api w a 4096))"
    using assms(2-4,6) by (auto simp: server_receive_def server_poll_def p r Let_def)
  moreover have "server_receive api (s\<lparr>ps_isConnected := False\<rparr>) w' = (None, server_close s, w')" for w'
    by (simp add: server_receive_def server_poll_def server_close_def Let_def)
  ultimately show ?thesis by blast
qed

theorem pipe_frame_too_long_witness:
  "\<exists>s' w'. server_receive sim_pipe (fst sim_channel) [1 \<mapsto> [SerializeFrameHeader FrameHeader_init @ replicate 4096 0]] = (None, s', w') \<and>
     server_receive sim_pipe s' w' = (None, server_close (fst sim_channel), w')"
  by (rule pipe_frame_too_long [OF sim_pipe_laws, where a = 1 and ms = "[]" and h = FrameHeader_init and p = "replicate 4096 0"])
    (simp_all only: length_replicate, simp_all add: sim_channel_def)

end
