(* ===== verification/LockSystem.thy ===== *)
theory LockSystem
  imports Service Agent "HOL-Library.Sublist"
begin

text \<open>
  The service, the agent and the pipe between them. The pipe is a pair of queues (theory PipeChannel): what the service writes waits
  for the agent, what the agent writes waits for the service, and messages can be lost, singly when a write fails or
  all at once when the connection breaks, but neither made up nor reordered. A step is a call of the service or a turn of the agent, with
  the messages of the pipe as its inputs and outputs. The theorem follows lock commands through the whole system.
\<close>

section \<open>The system\<close>

record ('c, 'w) lock_system =
  ls_service :: "('c, 'w) MobileUnlockService"
  ls_agent :: UserSessionAgent
  ls_down :: "bytes list"
  ls_up :: "bytes list"

text \<open>What a step writes to the pipe.\<close>

definition to_agent :: "svc_out list \<Rightarrow> bytes list" where
  "to_agent outs = concat (map (\<lambda>x. case x of SIpc m \<Rightarrow> [m] | _ \<Rightarrow> []) outs)"

definition to_service :: "agent_out list \<Rightarrow> bytes list" where
  "to_service outs = concat (map (\<lambda>x. case x of APipe m \<Rightarrow> [m] | ALock \<Rightarrow> []) outs)"

text \<open>What a step takes from the pipe: the message that the service handles, and the one that the agent's turn reads.\<close>

fun service_reads :: "('c, 'w) svc_op \<Rightarrow> bytes option" where
  "service_reads (VMessage env m) = Some m" | "service_reads _ = None"

definition agent_reads :: "agent_env \<Rightarrow> UserSessionAgent \<Rightarrow> bytes option" where
  "agent_reads env a =
     (case if Client_IsConnected (ag_ipcClient a) then Some (True, [], a) else connect_and_report env a of
        Some (True, _, a) \<Rightarrow>
          (case ReadMessageFromServer 1000 (ae_readStart env) (ae_readPolls env) (ae_readFile env) (ag_ipcClient a) of
             Some r \<Rightarrow> r | None \<Rightarrow> None)
      | _ \<Rightarrow> None)"

fun takes :: "bytes option \<Rightarrow> bytes list \<Rightarrow> bytes list \<Rightarrow> bool" where
  "takes None q q' \<longleftrightarrow> q' = q" | "takes (Some m) q q' \<longleftrightarrow> q = m # q'"

text \<open>A call of the service is labelled with the registry it found.\<close>

datatype ('c, 'w) system_event =
  AtService "'w reg_state" "('c, 'w) svc_op" "svc_out list" | AtAgent agent_env "bytes option" "agent_out list" | Broken

inductive system_step :: "('c, 'w) lock_system \<Rightarrow> ('c, 'w) system_event \<Rightarrow> ('c, 'w) lock_system \<Rightarrow> bool" where
  at_service: "svc_step (ls_service \<sigma>) (op, outs) s \<Longrightarrow> takes (service_reads op) (ls_up \<sigma>) up \<Longrightarrow> subseq d (to_agent outs) \<Longrightarrow>
    system_step \<sigma> (AtService (sv_reg (ls_service \<sigma>)) op outs) (\<sigma>\<lparr>ls_service := s, ls_down := ls_down \<sigma> @ d, ls_up := up\<rparr>)"
| at_agent: "agent_iter env (ls_agent \<sigma>) = Some (outs, a) \<Longrightarrow> takes (agent_reads env (ls_agent \<sigma>)) (ls_down \<sigma>) down \<Longrightarrow>
    subseq u (to_service outs) \<Longrightarrow>
    system_step \<sigma> (AtAgent env (agent_reads env (ls_agent \<sigma>)) outs) (\<sigma>\<lparr>ls_agent := a, ls_down := down, ls_up := ls_up \<sigma> @ u\<rparr>)"
| broken: "system_step \<sigma> Broken (\<sigma>\<lparr>ls_down := [], ls_up := []\<rparr>)"

section \<open>Lock commands\<close>

definition has_type :: "MessageType \<Rightarrow> bytes \<Rightarrow> bool" where
  "has_type mt m \<longleftrightarrow> (case DeserializeFrameHeader (Some m) of Some h \<Rightarrow> fh_MessageType h = opcode mt | None \<Rightarrow> False)"

text \<open>The lock commands that the service forwards, for requests that the registry allows; the commands on which the agent
  locks the workstation, once for each call of the lock function; and the answers that reach the service.\<close>

fun commands :: "('c, 'w) system_event \<Rightarrow> bytes list" where
  "commands (AtService reg (VFrame env c h p) outs) =
     (if fh_MessageType h = opcode MT_LOCK_REQUEST \<and> lock_verdict (ve_api env) p reg = Some True then [lock_command h p] else [])"
| "commands _ = []"

fun executed :: "('c, 'w) system_event \<Rightarrow> bytes list" where
  "executed (AtAgent env r outs) = replicate (count_list outs ALock) (case r of Some m \<Rightarrow> m | None \<Rightarrow> [])"
| "executed _ = []"

fun answered :: "('c, 'w) system_event \<Rightarrow> bytes list" where
  "answered (AtService reg (VMessage env m) outs) = (if has_type MT_LOCK_RESPONSE m then [m] else [])"
| "answered _ = []"

abbreviation over :: "('e \<Rightarrow> bytes list) \<Rightarrow> 'e list \<Rightarrow> bytes list" where
  "over f es \<equiv> concat (map f es)"

lemma to_agent_Nil: "\<forall>m. SIpc m \<notin> set outs \<Longrightarrow> to_agent outs = []"
  by (auto simp: to_agent_def split: svc_out.splits)

lemma set_to_agent: "set (to_agent outs) = {m. SIpc m \<in> set outs}"
  by (force simp: to_agent_def split: svc_out.splits)

lemma SendIpc_to_agent: "svc_SendIpc env m s = Some (outs, t) \<Longrightarrow> to_agent outs \<in> {[], [m]}"
  by (auto simp: svc_SendIpc_def SendMessageToClient_def to_agent_def split: option.splits if_splits)

lemma frame_to_agent:
  assumes "HandleNetworkFrame env c h p s = Some (outs, t)"
  shows "to_agent outs = [] \<or> fh_MessageType h = opcode MT_LOCK_REQUEST \<and> lock_verdict (ve_api env) p (sv_reg s) = Some True \<and>
    to_agent outs = [lock_command h p]"
proof (cases "fh_MessageType h = opcode MT_LOCK_REQUEST")
  case True
  let ?s = "s\<lparr>sv_diag := IncrementProcessedMessages (sv_diag s)\<rparr>"
  have n: "net_lock_request env c h p ?s = Some (outs, t)" using assms by (simp add: lock_frame [OF True])
  show ?thesis
  proof (cases "\<exists>r. lock_refused env c h r ?s = Some (outs, t)")
    case True
    then show ?thesis using lock_refused_outs to_agent_Nil by blast
  next
    case False
    then have "lock_verdict (ve_api env) p (sv_reg s) = Some True \<and> (\<exists>s'. svc_SendIpc env (lock_command h p) s' = Some (outs, t))"
      using n by (auto simp: net_lock_request_alt bind_eq_Some_conv split: if_splits)
    with True SendIpc_to_agent show ?thesis by blast
  qed
next
  case False
  then have "SIpc m \<notin> set outs" for m
    using assms svc_SendFrame_outs
    by (fastforce simp: HandleNetworkFrame_def net_auth_request_def net_auth_response_def Let_def bind_eq_Some_conv
        simp del: opcode.simps split: if_splits option.splits)
  then show ?thesis by (simp add: to_agent_Nil)
qed

lemma has_type_frame: "has_type mt (SerializeFrameHeader h @ r) \<longleftrightarrow> frame_header_ok h \<and> fh_MessageType h = opcode mt"
  by (simp add: has_type_def Deserialize_Serialize_FrameHeader)

lemma has_type_header: "has_type mt (SerializeFrameHeader h) \<longleftrightarrow> frame_header_ok h \<and> fh_MessageType h = opcode mt"
  using has_type_frame [of mt h "[]"] by simp

lemma service_commands:
  assumes "svc_step s (op, outs) t"
  shows "subseq (filter (has_type MT_LOCK_REQUEST) (to_agent outs)) (commands (AtService (sv_reg s) op outs))"
proof (cases "\<exists>env c h p. op = VFrame env c h p")
  case True
  then obtain env c h p where op: "op = VFrame env c h p" by blast
  with assms frame_to_agent [of env c h p s outs t] show ?thesis
    by (auto simp: svc_step_def simp del: opcode.simps)
next
  case False
  have "\<not> has_type MT_LOCK_REQUEST m" if "m \<in> set (to_agent outs)" for m
    using pipe_writers [OF assms, of m] that False by (auto simp: set_to_agent has_type_header svc_header_def)
  then have "filter (has_type MT_LOCK_REQUEST) (to_agent outs) = []" by (simp add: filter_empty_conv)
  then show ?thesis by simp
qed

section \<open>The agent's turns\<close>

lemma to_service_simps [simp]:
  "to_service [] = []" "to_service (APipe m # outs) = m # to_service outs" "to_service (ALock # outs) = to_service outs"
  "to_service (outs @ outs') = to_service outs @ to_service outs'"
  by (simp_all add: to_service_def)

lemma agent_send_outs: "snd (agent_send env m a) \<in> {[], [APipe m]}"
  by (auto simp: agent_send_def SendMessageToServer_def)

lemma report_outs: "connect_and_report env a = Some (ok, outs, a') \<Longrightarrow> outs \<in> {[], [APipe (state_report PC_ONLINE)]}"
  using agent_send_outs [of env "state_report PC_ONLINE"]
  by (fastforce simp: connect_and_report_def ReportSessionState_def bind_eq_Some_conv Let_def case_prod_unfold split: if_splits)

lemma report_not_answer: "\<not> has_type MT_LOCK_RESPONSE (state_report st)"
  by (simp add: state_report_def Let_def has_type_frame)

text \<open>A turn calls the lock function once when it has read a lock command, and not otherwise; and only then it writes an answer.\<close>

lemma agent_message_locks:
  "count_list (fst (agent_message env m a)) ALock = (if has_type MT_LOCK_REQUEST m then 1 else 0) \<and>
   length (filter (has_type MT_LOCK_RESPONSE) (to_service (fst (agent_message env m a)))) \<le> count_list (fst (agent_message env m a)) ALock"
proof (cases "DeserializeFrameHeader (Some m)")
  case None
  then show ?thesis by (simp add: agent_message_def has_type_def to_service_def)
next
  case (Some h)
  show ?thesis
  proof (cases "fh_MessageType h = opcode MT_LOCK_REQUEST")
    case True
    obtain r where "fst (agent_message env m a) \<in> {[ALock], [ALock, APipe r]}"
      using True Some agent_send_outs by (fastforce simp: agent_message_def Let_def case_prod_unfold simp del: opcode.simps)
    with True Some show ?thesis by (auto simp: has_type_def simp del: opcode.simps)
  next
    case False
    let ?pong = "SerializeFrameHeader (FrameHeader_init\<lparr>fh_MessageType := opcode MT_PONG, fh_MessageID := fh_MessageID h,
        fh_SequenceNumber := fh_SequenceNumber h + 1, fh_PayloadLength := 0\<rparr>)"
    have "fst (agent_message env m a) \<in> {[], [APipe ?pong]}"
      using False Some agent_send_outs [of env ?pong a] by (simp add: agent_message_def Let_def del: opcode.simps)
    moreover have "\<not> has_type MT_LOCK_RESPONSE ?pong" by (simp add: has_type_header)
    moreover have "\<not> has_type MT_LOCK_REQUEST m" using False Some by (simp add: has_type_def)
    ultimately show ?thesis by (auto simp del: opcode.simps)
  qed
qed

lemma agent_iter_locks:
  assumes "agent_iter env a = Some (outs, a')"
  shows "count_list outs ALock = (case agent_reads env a of Some m \<Rightarrow> if has_type MT_LOCK_REQUEST m then 1 else 0 | None \<Rightarrow> 0) \<and>
    length (filter (has_type MT_LOCK_RESPONSE) (to_service outs)) \<le> count_list outs ALock"
proof -
  obtain connected outs1 a1 where c: "(if Client_IsConnected (ag_ipcClient a) then Some (True, [], a) else connect_and_report env a) =
      Some (connected, outs1, a1)"
    using assms by (auto simp: agent_iter_def bind_eq_Some_conv)
  have o1: "outs1 \<in> {[], [APipe (state_report PC_ONLINE)]}"
    using c report_outs [of env a] by (auto split: if_splits)
  show ?thesis
  proof (cases connected)
    case False
    with assms c o1 show ?thesis
      by (auto simp: agent_iter_def agent_reads_def report_not_answer split: if_splits)
  next
    case True
    obtain r where r: "ReadMessageFromServer 1000 (ae_readStart env) (ae_readPolls env) (ae_readFile env) (ag_ipcClient a1) = Some r"
      using assms True by (auto simp: agent_iter_def c bind_eq_Some_conv)
    then have "agent_reads env a = r" using True by (simp add: agent_reads_def c)
    moreover have "outs = outs1 @ (case r of None \<Rightarrow> [] | Some m \<Rightarrow> fst (agent_message env m a1))"
      using assms True r by (auto simp: agent_iter_def c Let_def case_prod_unfold split: option.splits)
    ultimately show ?thesis
      using o1 agent_message_locks [of env "the r" a1]
      by (cases r) (auto simp: report_not_answer)
  qed
qed

section \<open>Lock commands through the system\<close>

lemma step_commands:
  assumes "system_step \<sigma> e \<sigma>'"
  shows "subseq (executed e @ filter (has_type MT_LOCK_REQUEST) (ls_down \<sigma>'))
    (filter (has_type MT_LOCK_REQUEST) (ls_down \<sigma>) @ commands e)"
  using assms
proof cases
  case (at_service op outs s up d)
  have "subseq (filter (has_type MT_LOCK_REQUEST) d) (filter (has_type MT_LOCK_REQUEST) (to_agent outs))"
    using at_service(5) by (rule subseq_filter)
  also note service_commands [OF at_service(3)]
  finally show ?thesis using at_service by (simp add: list_emb_append_mono)
next
  case (at_agent env outs a down u)
  then show ?thesis using agent_iter_locks [OF at_agent(3)]
    by (cases "agent_reads env (ls_agent \<sigma>)") auto
qed simp

lemma step_answers:
  assumes "system_step \<sigma> e \<sigma>'"
  shows "length (answered e @ filter (has_type MT_LOCK_RESPONSE) (ls_up \<sigma>'))
    \<le> length (filter (has_type MT_LOCK_RESPONSE) (ls_up \<sigma>) @ executed e)"
  using assms
proof cases
  case (at_service op outs s up d)
  then show ?thesis by (cases op) auto
next
  case (at_agent env outs a down u)
  have "length (filter (has_type MT_LOCK_RESPONSE) u) \<le> length (filter (has_type MT_LOCK_RESPONSE) (to_service outs))"
    by (rule list_emb_length [OF subseq_filter [OF at_agent(5)]])
  with at_agent agent_iter_locks [OF at_agent(3)] show ?thesis by simp
qed simp

lemma system_commands:
  "run system_step \<sigma> es \<sigma>' \<Longrightarrow>
     subseq (over executed es @ filter (has_type MT_LOCK_REQUEST) (ls_down \<sigma>')) (filter (has_type MT_LOCK_REQUEST) (ls_down \<sigma>) @ over commands es)"
proof (induction rule: run.induct)
  case (run_Cons \<sigma> e \<sigma>1 es \<sigma>2)
  have "subseq (executed e @ over executed es @ filter (has_type MT_LOCK_REQUEST) (ls_down \<sigma>2))
      (executed e @ filter (has_type MT_LOCK_REQUEST) (ls_down \<sigma>1) @ over commands es)"
    using run_Cons.IH by (rule list_emb_append_mono [rotated]) simp
  also have "subseq \<dots> ((filter (has_type MT_LOCK_REQUEST) (ls_down \<sigma>) @ commands e) @ over commands es)"
    unfolding append_assoc [symmetric] using step_commands [OF run_Cons.hyps(1)] by (rule list_emb_append_mono) simp
  finally show ?case by simp
qed simp

lemma system_answers:
  "run system_step \<sigma> es \<sigma>' \<Longrightarrow>
     length (over answered es @ filter (has_type MT_LOCK_RESPONSE) (ls_up \<sigma>'))
     \<le> length (filter (has_type MT_LOCK_RESPONSE) (ls_up \<sigma>) @ over executed es)"
proof (induction rule: run.induct)
  case (run_Cons \<sigma> e \<sigma>1 es \<sigma>2)
  with step_answers [OF run_Cons.hyps(1)] show ?case by simp
qed simp

text \<open>C8: the workstation is locked only on a request that was accepted, and once for each. In every history of the system of service, agent and
  pipe that begins with an empty pipe, the commands on which the agent calls the lock function are, in their order, among the
  commands that the service forwarded for LOCK\_REQUEST frames whose device the registry lists as active or that name no device; and
  the service has seen at most as many answers as the lock function was called.\<close>

theorem locks_authorized:
  assumes "run system_step \<sigma> es \<sigma>'" "ls_down \<sigma> = []" "ls_up \<sigma> = []"
  shows "subseq (over executed es) (over commands es) \<and> length (over answered es) \<le> length (over executed es)"
proof
  have "subseq (over executed es) (over executed es @ filter (has_type MT_LOCK_REQUEST) (ls_down \<sigma>'))" by auto
  also have "subseq \<dots> (over commands es)" using system_commands [OF assms(1)] assms(2) by simp
  finally show "subseq (over executed es) (over commands es)" .
  show "length (over answered es) \<le> length (over executed es)" using system_answers [OF assms(1)] assms(3) by simp
qed

section \<open>The way of a lock request\<close>

lemma lock_command_header: "frame_header_ok (svc_header MT_LOCK_REQUEST i n p)" if "length p \<le> 4096"
  by (rule svc_header_ok) (use that in simp_all)

lemma lock_response_reply: "agent_reply (SerializeFrameHeader (lock_response hdr (lock_outcome b)) @ lock_outcome b) (lock_outcome b)"
proof -
  have "length (lock_outcome b) \<le> 4096" using length_lock_outcome [of b] by simp
  then show ?thesis
    unfolding agent_reply_def by (intro exI [of _ "lock_response hdr (lock_outcome b)"]) (simp add: lock_response_ok, simp add: lock_response_def)
qed

lemma lock_calls:
  assumes "sv_ipc s = Some q" "ps_isConnected q" "ps_hPipe q \<noteq> None" "plain_client c k s" "c \<noteq> 0"
    and "fh_MessageType h = opcode MT_LOCK_REQUEST" "length p \<le> 4096" "lock_verdict (ve_api env) p (sv_reg s) = Some True"
    and "Client_IsConnected (ag_ipcClient a)"
    and "ReadMessageFromServer 1000 (ae_readStart aenv) (ae_readPolls aenv) (ae_readFile aenv) (ag_ipcClient a) =
      Some (Some (lock_command h p))"
  shows "\<exists>t m a' t'. HandleNetworkFrame env c h p s = Some ([SIpc (lock_command h p)], t) \<and>
    agent_iter aenv a = Some ([ALock, APipe m], a') \<and>
    (let payload = lock_outcome (fst (call_lock (ae_user32 aenv) a)) in
     HandleIpcMessage env' m t = Some (SNet (NSend k (SerializeFrameHeader
       (svc_header MT_LOCK_RESPONSE (fh_MessageID h) 2 payload) @ payload)) # lock_logged s, t')) \<and> sv_currentState t' = PC_LOCKED"
proof -
  let ?ok = "fst (call_lock (ae_user32 aenv) a)"
  let ?hdr = "svc_header MT_LOCK_REQUEST (fh_MessageID h) 1 p"
  let ?m = "SerializeFrameHeader (lock_response ?hdr (lock_outcome ?ok)) @ lock_outcome ?ok"
  let ?t = "s\<lparr>sv_diag := IncrementProcessedMessages (sv_diag s), sv_pendingLockClientId := c, sv_pendingLockMessageId := fh_MessageID h\<rparr>"
  have "HandleNetworkFrame env c h p s = Some ([SIpc (lock_command h p)], ?t)"
    by (rule lock_forwarded [OF assms(6,1,2,3,8)])
  moreover have "\<exists>a'. agent_iter aenv a = Some ([ALock, APipe ?m], a')"
    using agent_iter_message [OF assms(9,10)] agent_message_lock [OF assms(9) lock_command_header [OF assms(7)], of "fh_MessageID h" 1 aenv p]
    by (simp add: lock_command_def Let_def)
  moreover have "HandleIpcMessage env' ?m ?t = Some (SNet (NSend k (SerializeFrameHeader
      (svc_header MT_LOCK_RESPONSE (fh_MessageID h) 2 (lock_outcome ?ok)) @ lock_outcome ?ok)) # lock_logged s, lock_answered ?t)"
    using reply_delivered [OF lock_response_reply, of ?t k env' ?hdr ?ok] assms(4,5)
    by (simp add: plain_client_def lock_logged_def svc_log_def)
  moreover have "sv_currentState (lock_answered ?t) = PC_LOCKED"
    by (simp add: lock_answered_def Svc_SetState_def)
  ultimately show ?thesis by (auto simp: Let_def)
qed

text \<open>The three calls as a history of the system.\<close>

abbreviation idle_system :: "('c, 'w) MobileUnlockService \<Rightarrow> UserSessionAgent \<Rightarrow> ('c, 'w) lock_system" where
  "idle_system s a \<equiv> \<lparr>ls_service = s, ls_agent = a, ls_down = [], ls_up = []\<rparr>"

lemma calls_run:
  assumes "HandleNetworkFrame env c h p s = Some ([SIpc x], t)" "agent_iter aenv a = Some ([ALock, APipe m], a')" "agent_reads aenv a = Some x"
    and "HandleIpcMessage env' m t = Some (outs, t')"
  shows "run system_step (idle_system s a)
    [AtService (sv_reg s) (VFrame env c h p) [SIpc x], AtAgent aenv (Some x) [ALock, APipe m], AtService (sv_reg t) (VMessage env' m) outs]
    (idle_system t' a')"
proof -
  let ?\<sigma>1 = "\<lparr>ls_service = t, ls_agent = a, ls_down = [x], ls_up = []\<rparr>" and ?\<sigma>2 = "\<lparr>ls_service = t, ls_agent = a', ls_down = [], ls_up = [m]\<rparr>"
  have "system_step (idle_system s a) (AtService (sv_reg s) (VFrame env c h p) [SIpc x]) ?\<sigma>1"
    using at_service [of "idle_system s a" "VFrame env c h p" "[SIpc x]" t "[]" "[x]"] assms(1) by (simp add: svc_step_def to_agent_def)
  moreover have "system_step ?\<sigma>1 (AtAgent aenv (Some x) [ALock, APipe m]) ?\<sigma>2"
    using at_agent [of aenv ?\<sigma>1 "[ALock, APipe m]" a' "[]" "[m]"] assms(2,3) by simp
  moreover have "system_step ?\<sigma>2 (AtService (sv_reg t) (VMessage env' m) outs) (idle_system t' a')"
    using at_service [of ?\<sigma>2 "VMessage env' m" outs t' "[]" "[]"] assms(4) by (simp add: svc_step_def)
  ultimately show ?thesis by (meson run.intros)
qed

lemma connected_reads:
  "Client_IsConnected (ag_ipcClient a) \<Longrightarrow>
   ReadMessageFromServer 1000 (ae_readStart env) (ae_readPolls env) (ae_readFile env) (ag_ipcClient a) = Some r \<Longrightarrow> agent_reads env a = r"
  by (simp add: agent_reads_def)

text \<open>C9: a lock request is answered. If the service accepts a LOCK\_REQUEST of a client without TLS while an agent is connected and the pipe is empty, and the
  agent's next turn reads what the service wrote, then the three steps that follow are these: the service forwards the request, the
  agent calls the lock function and replies, and the service, on that reply, sends the client a LOCK\_RESPONSE with the number of its
  request and the outcome of the lock function. The pipe is empty again, and the service's state is LOCKED, also when the lock
  function has failed.\<close>

theorem lock_round_trip:
  assumes "sv_ipc s = Some q" "ps_isConnected q" "ps_hPipe q \<noteq> None" "plain_client c k s" "c \<noteq> 0"
    and "fh_MessageType h = opcode MT_LOCK_REQUEST" "length p \<le> 4096" "lock_verdict (ve_api env) p (sv_reg s) = Some True"
    and "Client_IsConnected (ag_ipcClient a)"
    and "ReadMessageFromServer 1000 (ae_readStart aenv) (ae_readPolls aenv) (ae_readFile aenv) (ag_ipcClient a) =
      Some (Some (lock_command h p))"
  shows "\<exists>m reg s' a'. (let payload = lock_outcome (fst (call_lock (ae_user32 aenv) a)) in
      run system_step (idle_system s a)
       [AtService (sv_reg s) (VFrame env c h p) [SIpc (lock_command h p)],
        AtAgent aenv (Some (lock_command h p)) [ALock, APipe m],
        AtService reg (VMessage env' m) (SNet (NSend k (SerializeFrameHeader
          (svc_header MT_LOCK_RESPONSE (fh_MessageID h) 2 payload) @ payload)) # lock_logged s)]
       (idle_system s' a')) \<and> sv_currentState s' = PC_LOCKED"
  using lock_calls [OF assms, of env'] calls_run connected_reads [OF assms(9,10)] unfolding Let_def by metis

lemma demo_calls:
  "sv_ipc demo_service \<noteq> None" "Client_IsConnected (ag_ipcClient demo_agent)" "fst (call_lock (ae_user32 (demo_turn b m)) demo_agent)"
  "lock_verdict (ve_api demo_svc_env) [] (sv_reg demo_service) = Some True"
  using demo_service_sel(6)
  by (auto simp: Client_IsConnected_def call_lock_def DefaultLockWorkStation_def demo_turn_def demo_agent_def UserSessionAgent_new_def
      demo_user32_def Let_def lock_verdict_def)

theorem lock_round_trip_witness:
  "\<exists>m reg s' a'. run system_step (idle_system demo_service demo_agent)
       [AtService (sv_reg demo_service) (VFrame demo_svc_env 1 (demo_lock 5) []) [SIpc (lock_command (demo_lock 5) [])],
        AtAgent (demo_turn False (lock_command (demo_lock 5) [])) (Some (lock_command (demo_lock 5) [])) [ALock, APipe m],
        AtService reg (VMessage demo_svc_env m) (SNet (NSend 77 (SerializeFrameHeader
          (svc_header MT_LOCK_RESPONSE 5 2 (lock_outcome True)) @ lock_outcome True)) # lock_logged demo_service)]
       (idle_system s' a') \<and> sv_currentState s' = PC_LOCKED"
proof -
  obtain q where q: "sv_ipc demo_service = Some q" "ps_isConnected q" "ps_hPipe q \<noteq> None"
    using demo_service_sel(6) by blast
  show ?thesis
    using lock_round_trip [where p = "[]" and env = demo_svc_env and env' = demo_svc_env, OF q demo_plain_client _ demo_lock_sel(1) _ demo_calls(4)
        demo_calls(2) demo_turn_read [OF lock_command_nonempty, where b = False]] demo_calls(3)
    by (simp add: Let_def)
qed

text \<open>The same history shows that the hypotheses of \<open>locks_authorized\<close> can hold.\<close>

theorem locks_authorized_witness:
  "\<exists>es s a. run system_step (idle_system demo_service demo_agent) es (idle_system s a) \<and>
     over executed es = [lock_command (demo_lock 5) []] \<and> subseq (over executed es) (over commands es) \<and>
     length (over answered es) \<le> length (over executed es)"
proof -
  obtain q where q: "sv_ipc demo_service = Some q" "ps_isConnected q" "ps_hPipe q \<noteq> None"
    using demo_service_sel(6) by blast
  let ?x = "lock_command (demo_lock 5) []"
  let ?turn = "demo_turn False ?x"
  note read = demo_turn_read [OF lock_command_nonempty, where b = False]
  obtain t m a' outs t' where "HandleNetworkFrame demo_svc_env 1 (demo_lock 5) [] demo_service = Some ([SIpc ?x], t)"
    "agent_iter ?turn demo_agent = Some ([ALock, APipe m], a')" "HandleIpcMessage demo_svc_env m t = Some (outs, t')"
    using lock_calls [where p = "[]" and env = demo_svc_env and env' = demo_svc_env, OF q demo_plain_client _ demo_lock_sel(1) [of 5] _ demo_calls(4)
        demo_calls(2) read] by (simp add: Let_def) blast
  note r = calls_run [OF this(1,2) connected_reads [OF demo_calls(2) read] this(3)]
  have "over executed [AtService (sv_reg demo_service) (VFrame demo_svc_env 1 (demo_lock 5) []) [SIpc ?x],
      AtAgent ?turn (Some ?x) [ALock, APipe m], AtService (sv_reg t) (VMessage demo_svc_env m) outs] = [?x]"
    by simp
  with r locks_authorized [OF r] show ?thesis by (metis (no_types, lifting) lock_system.select_convs(3,4))
qed

end
