(* ===== verification/SocketThreads.thy ===== *)
theory SocketThreads
  imports Network
begin

text \<open>
  The threads of \<^verbatim>\<open>NetworkEngine\<close> in any interleaving, as far as the sockets of clients go. Theory Network takes an iteration of a worker with
  its end, \<^verbatim>\<open>Stop\<close> and \<^verbatim>\<open>CleanupStaleSessions\<close> as single steps; here the accept loop, the workers, \<^verbatim>\<open>Stop\<close> and the housekeeping are
  programs whose points lie between the accesses to \<^verbatim>\<open>m_isRunning\<close>, to \<^verbatim>\<open>m_clients\<close> and to the member \<^verbatim>\<open>Socket\<close> of the sessions. The lock
  \<^verbatim>\<open>m_clientsLock\<close> protects the map, but not the member: a worker tests, closes and clears it without the lock. Each access is taken to be
  atomic. A session is known by its client number, a natural number here, so that a wrap of the 64-bit counter is left out; the
  listening socket, what is received, the final waits of \<^verbatim>\<open>Stop\<close>, and \<^verbatim>\<open>SendFrame\<close>, which neither writes the member nor closes a socket, stay in
  theory Network.
  Whether a session is stale, what \<^verbatim>\<open>recv\<close> and \<^verbatim>\<open>accept\<close> answer and whether a thread can be created are inputs.
\<close>

section \<open>The threads\<close>

text \<open>What a step does with sockets, for which session, and who closes.\<close>

datatype closer = ByWorker | ByAcceptor | ByStop | ByCleanup

datatype sock_use =
  KAccept nat | KRefuse nat | KSession nat nat | KCall nat "nat option" | KClose closer nat "nat option"

datatype sock_worker_pc = KFind | KLoop | KLoop2 | KRecv | KDrop | KAfter | KExit | KCloseSock | KClear | KErase | KEnd

datatype sock_stop_pc = TIdle | TTest | TFlag | TEnter | TVisit "nat list" | TShut nat "nat list" | TClose nat "nat list" | TClear nat "nat list"

datatype sock_clean_pc =
  HLoop | HEnter | HVisit "nat list" "(nat \<times> nat option) list" | HPush nat "nat list" "(nat \<times> nat option) list"
| HClear nat "nat list" "(nat \<times> nat option) list" | HClose "(nat \<times> nat option) list" | HEnd

datatype sock_accept_pc = ALoop | AAccept | ARefuse nat | AInsert nat | ACreate nat nat | AClose nat nat | AEnd

record sock_world =
  sk_running :: bool
  sk_map :: "nat list"
  sk_sock :: "nat \<Rightarrow> nat option"
  sk_next :: nat
  sk_open :: "nat set"
  sk_accept :: sock_accept_pc
  sk_workers :: "nat \<rightharpoonup> sock_worker_pc"
  sk_stop :: sock_stop_pc
  sk_clean :: sock_clean_pc

text \<open>The engine after \<^verbatim>\<open>Start\<close>: it runs, its two threads are at their loops, and it has no client.\<close>

definition sock_world_new :: sock_world where
  "sock_world_new = \<lparr>sk_running = True, sk_map = [], sk_sock = \<lambda>_. None, sk_next = 0, sk_open = {}, sk_accept = ALoop,
     sk_workers = Map.empty, sk_stop = TIdle, sk_clean = HLoop\<rparr>"

text \<open>The lock on the map is held in the loops of \<^verbatim>\<open>Stop\<close> and of the housekeeping; other threads hold it for one access.\<close>

fun stop_locked :: "sock_stop_pc \<Rightarrow> bool" where
  "stop_locked (TVisit _) = True" | "stop_locked (TShut _ _) = True" | "stop_locked (TClose _ _) = True"
| "stop_locked (TClear _ _) = True" | "stop_locked _ = False"

fun clean_locked :: "sock_clean_pc \<Rightarrow> bool" where
  "clean_locked (HVisit _ _) = True" | "clean_locked (HPush _ _ _) = True" | "clean_locked (HClear _ _ _) = True" | "clean_locked _ = False"

definition map_locked :: "sock_world \<Rightarrow> bool" where
  "map_locked w \<longleftrightarrow> stop_locked (sk_stop w) \<or> clean_locked (sk_clean w)"

text \<open>
  \<^verbatim>\<open>ClientWorkerLoop\<close>. A receive lets the loop go on without a look at the frames, leaves it, or hands bytes to the extraction of
  frames, which clears the member when a header is malformed.
\<close>

datatype recv_outcome = RvContinue | RvBreak | RvFrames bool

fun sock_worker :: "nat \<Rightarrow> recv_outcome \<Rightarrow> sock_worker_pc \<Rightarrow> sock_world \<Rightarrow> (sock_use list \<times> sock_worker_pc \<times> sock_world) option" where
  "sock_worker i r KFind w = (if map_locked w then None else Some ([], if i \<in> set (sk_map w) then KLoop else KEnd, w))"
| "sock_worker i r KLoop w = Some ([], if sk_running w then KLoop2 else KExit, w)"
| "sock_worker i r KLoop2 w = Some ([], if sk_sock w i \<noteq> None then KRecv else KExit, w)"
| "sock_worker i r KRecv w =
     Some ([KCall i (sk_sock w i)],
       (case r of RvContinue \<Rightarrow> KLoop | RvBreak \<Rightarrow> KExit | RvFrames malformed \<Rightarrow> if malformed then KDrop else KAfter), w)"
| "sock_worker i r KDrop w = Some ([], KAfter, w\<lparr>sk_sock := (sk_sock w)(i := None)\<rparr>)"
| "sock_worker i r KAfter w = Some ([], if sk_sock w i = None then KExit else KLoop, w)"
| "sock_worker i r KExit w = Some ([], if sk_sock w i \<noteq> None then KCloseSock else KErase, w)"
| "sock_worker i r KCloseSock w = Some ([KClose ByWorker i (sk_sock w i)], KClear, w)"
| "sock_worker i r KClear w = Some ([], KErase, w\<lparr>sk_sock := (sk_sock w)(i := None)\<rparr>)"
| "sock_worker i r KErase w = (if map_locked w then None else Some ([], KEnd, w\<lparr>sk_map := removeAll i (sk_map w)\<rparr>))"
| "sock_worker i r KEnd w = None"

text \<open>\<^verbatim>\<open>Stop\<close>, in the thread of the engine's owner.\<close>

fun sock_stop :: "sock_stop_pc \<Rightarrow> sock_world \<Rightarrow> (sock_use list \<times> sock_stop_pc \<times> sock_world) option" where
  "sock_stop TIdle w = None"
| "sock_stop TTest w = Some ([], if sk_running w then TFlag else TIdle, w)"
| "sock_stop TFlag w = Some ([], TEnter, w\<lparr>sk_running := False\<rparr>)"
| "sock_stop TEnter w = (if map_locked w then None else Some ([], TVisit (sk_map w), w))"
| "sock_stop (TVisit []) w = Some ([], TIdle, w\<lparr>sk_map := []\<rparr>)"
| "sock_stop (TVisit (i # is)) w = Some ([], if sk_sock w i \<noteq> None then TShut i is else TVisit is, w)"
| "sock_stop (TShut i is) w = Some ([KCall i (sk_sock w i)], TClose i is, w)"
| "sock_stop (TClose i is) w = Some ([KClose ByStop i (sk_sock w i)], TClear i is, w)"
| "sock_stop (TClear i is) w = Some ([], TVisit is, w\<lparr>sk_sock := (sk_sock w)(i := None)\<rparr>)"

text \<open>\<^verbatim>\<open>MaintenanceThreadProc\<close> with \<^verbatim>\<open>CleanupStaleSessions\<close>: the stale sessions leave the map under the lock, their sockets are closed after it.\<close>

fun sock_clean :: "bool \<Rightarrow> sock_clean_pc \<Rightarrow> sock_world \<Rightarrow> (sock_use list \<times> sock_clean_pc \<times> sock_world) option" where
  "sock_clean isStale HLoop w = Some ([], if sk_running w then HEnter else HEnd, w)"
| "sock_clean isStale HEnter w = (if map_locked w then None else Some ([], HVisit (sk_map w) [], w))"
| "sock_clean isStale (HVisit [] acc) w = Some ([], HClose acc, w)"
| "sock_clean isStale (HVisit (i # is) acc) w =
     (if \<not> isStale then Some ([], HVisit is acc, w)
      else if sk_sock w i \<noteq> None then Some ([], HPush i is acc, w)
      else Some ([], HVisit is acc, w\<lparr>sk_map := removeAll i (sk_map w)\<rparr>))"
| "sock_clean isStale (HPush i is acc) w = Some ([], HClear i is (acc @ [(i, sk_sock w i)]), w)"
| "sock_clean isStale (HClear i is acc) w =
     Some ([], HVisit is acc, w\<lparr>sk_sock := (sk_sock w)(i := None), sk_map := removeAll i (sk_map w)\<rparr>)"
| "sock_clean isStale (HClose []) w = Some ([], HLoop, w)"
| "sock_clean isStale (HClose ((i, k) # acc)) w = Some ([KClose ByCleanup i k], HClose acc, w)"
| "sock_clean isStale HEnd w = None"

text \<open>
  \<^verbatim>\<open>ServerAcceptLoop\<close>: a client's socket with the verdict of the rate limiter, the new session, and its worker, or the socket closed
  when no thread can be created.
\<close>

fun sock_accept :: "(nat \<times> bool) option \<Rightarrow> bool \<Rightarrow> sock_accept_pc \<Rightarrow> sock_world \<Rightarrow> (sock_use list \<times> sock_accept_pc \<times> sock_world) option" where
  "sock_accept client thread ALoop w = Some ([], if sk_running w then AAccept else AEnd, w)"
| "sock_accept client thread AAccept w =
     (case client of None \<Rightarrow> Some ([], ALoop, w)
      | Some (k, allowed) \<Rightarrow>
          if k \<in> sk_open w then None else Some ([KAccept k], if allowed then AInsert k else ARefuse k, w))"
| "sock_accept client thread (ARefuse k) w = Some ([KRefuse k], ALoop, w)"
| "sock_accept client thread (AInsert k) w =
     (if map_locked w then None
      else let i = sk_next w
           in Some ([KSession i k], ACreate i k, w\<lparr>sk_next := i + 1, sk_sock := (sk_sock w)(i := Some k), sk_map := sk_map w @ [i]\<rparr>))"
| "sock_accept client thread (ACreate i k) w =
     Some ([], if thread then ALoop else AClose i k, if thread then w\<lparr>sk_workers := (sk_workers w)(i \<mapsto> KFind)\<rparr> else w)"
| "sock_accept client thread (AClose i k) w = Some ([KClose ByAcceptor i (Some k)], ALoop, w)"
| "sock_accept client thread AEnd w = None"

section \<open>The engine with its threads\<close>

text \<open>The sockets that are open after a step: a system gives out only numbers that are not in use.\<close>

fun sockets_after :: "nat set \<Rightarrow> sock_use \<Rightarrow> nat set" where
  "sockets_after A (KAccept k) = insert k A"
| "sockets_after A (KRefuse k) = A - {k}"
| "sockets_after A (KClose c i k) = A - set_option k"
| "sockets_after A _ = A"

datatype sock_event = SAcceptor "(nat \<times> bool) option" bool | SWorker nat recv_outcome | SCallStop | SStop | SClean bool

definition used :: "sock_use list \<Rightarrow> sock_world \<Rightarrow> sock_world" where
  "used us w = w\<lparr>sk_open := fold (\<lambda>u A. sockets_after A u) us (sk_open w)\<rparr>"

fun sock_exec :: "sock_event \<Rightarrow> sock_world \<Rightarrow> (sock_use list \<times> sock_world) option" where
  "sock_exec (SAcceptor client thread) w =
     map_option (\<lambda>(us, pc, w). (us, used us (w\<lparr>sk_accept := pc\<rparr>))) (sock_accept client thread (sk_accept w) w)"
| "sock_exec (SWorker i r) w =
     (case sk_workers w i of None \<Rightarrow> None
      | Some pc \<Rightarrow> map_option (\<lambda>(us, pc, w). (us, used us (w\<lparr>sk_workers := (sk_workers w)(i \<mapsto> pc)\<rparr>))) (sock_worker i r pc w))"
| "sock_exec SCallStop w = (if sk_stop w = TIdle then Some ([], w\<lparr>sk_stop := TTest\<rparr>) else None)"
| "sock_exec SStop w = map_option (\<lambda>(us, pc, w). (us, used us (w\<lparr>sk_stop := pc\<rparr>))) (sock_stop (sk_stop w) w)"
| "sock_exec (SClean isStale) w = map_option (\<lambda>(us, pc, w). (us, used us (w\<lparr>sk_clean := pc\<rparr>))) (sock_clean isStale (sk_clean w) w)"

definition sock_step :: "sock_world \<Rightarrow> sock_event \<times> sock_use list \<Rightarrow> sock_world \<Rightarrow> bool" where
  "sock_step w e w' \<longleftrightarrow> sock_exec (fst e) w = Some (snd e, w')"

text \<open>A given interleaving, played.\<close>

fun sock_play :: "sock_event list \<Rightarrow> sock_world \<Rightarrow> ((sock_event \<times> sock_use list) list \<times> sock_world) option" where
  "sock_play [] w = Some ([], w)"
| "sock_play (e # es) w =
     (case sock_exec e w of None \<Rightarrow> None
      | Some (us, w) \<Rightarrow> map_option (\<lambda>(ls, w). ((e, us) # ls, w)) (sock_play es w))"

lemma sock_play_run: "sock_play es w = Some (ls, w') \<Longrightarrow> run sock_step w ls w'"
  by (induction es w arbitrary: ls w' rule: sock_play.induct)
    (auto simp: sock_step_def split: option.splits prod.splits intro!: run.intros)

lemma used_sel [simp]:
  "sk_running (used us w) = sk_running w" "sk_map (used us w) = sk_map w" "sk_sock (used us w) = sk_sock w" "sk_next (used us w) = sk_next w"
  "sk_accept (used us w) = sk_accept w" "sk_workers (used us w) = sk_workers w" "sk_stop (used us w) = sk_stop w" "sk_clean (used us w) = sk_clean w"
  by (simp_all add: used_def)


section \<open>Who may still close\<close>

text \<open>The session that the accept loop is about to hand over, and the sessions that \<^verbatim>\<open>Stop\<close> and the housekeeping have still to visit or hold.\<close>

fun accept_session :: "sock_accept_pc \<Rightarrow> nat option" where
  "accept_session (ACreate i k) = Some i" | "accept_session (AClose i k) = Some i" | "accept_session _ = None"

fun stop_visits :: "sock_stop_pc \<Rightarrow> nat list" where
  "stop_visits (TVisit is) = is" | "stop_visits (TShut i is) = i # is" | "stop_visits (TClose i is) = i # is"
| "stop_visits (TClear i is) = i # is" | "stop_visits _ = []"

fun stop_left :: "sock_stop_pc \<Rightarrow> nat list \<Rightarrow> nat list" where
  "stop_left (TVisit is) m = is" | "stop_left (TShut i is) m = i # is" | "stop_left (TClose i is) m = i # is"
| "stop_left (TClear i is) m = is" | "stop_left _ m = m"

fun clean_visits :: "sock_clean_pc \<Rightarrow> nat list" where
  "clean_visits (HVisit is acc) = is" | "clean_visits (HPush i is acc) = i # is" | "clean_visits (HClear i is acc) = i # is"
| "clean_visits _ = []"

fun clean_held :: "sock_clean_pc \<Rightarrow> nat list" where
  "clean_held (HVisit is acc) = map fst acc" | "clean_held (HPush i is acc) = map fst acc" | "clean_held (HClear i is acc) = map fst acc"
| "clean_held (HClose acc) = map fst acc" | "clean_held _ = []"

fun clean_current :: "sock_clean_pc \<Rightarrow> nat set" where
  "clean_current (HClear i is acc) = {i}" | "clean_current _ = {}"

definition map_ok :: "nat list \<Rightarrow> nat \<Rightarrow> bool" where
  "map_ok m n \<longleftrightarrow> distinct m \<and> (\<forall>i\<in>set m. i < n)"

definition stop_ok :: "sock_stop_pc \<Rightarrow> nat list \<Rightarrow> bool" where
  "stop_ok pc m \<longleftrightarrow> distinct (stop_visits pc) \<and> (\<forall>i\<in>set (stop_visits pc). i \<in> set m)"

definition clean_ok :: "sock_clean_pc \<Rightarrow> nat list \<Rightarrow> nat \<Rightarrow> bool" where
  "clean_ok pc m n \<longleftrightarrow> distinct (clean_visits pc) \<and> (\<forall>i\<in>set (clean_visits pc). i \<in> set m) \<and> distinct (clean_held pc) \<and>
     (\<forall>i\<in>set (clean_held pc). i < n \<and> (i \<in> set m \<longrightarrow> i \<in> clean_current pc))"

definition owners_ok :: "(nat \<rightharpoonup> sock_worker_pc) \<Rightarrow> sock_accept_pc \<Rightarrow> nat \<Rightarrow> bool" where
  "owners_ok workers pc n \<longleftrightarrow> (\<forall>i. workers i \<noteq> None \<longrightarrow> i < n) \<and>
     (\<forall>i. accept_session pc = Some i \<longrightarrow> i < n \<and> workers i = None)"

definition sock_inv :: "sock_world \<Rightarrow> bool" where
  "sock_inv w \<longleftrightarrow> map_ok (sk_map w) (sk_next w) \<and> stop_ok (sk_stop w) (sk_map w) \<and> clean_ok (sk_clean w) (sk_map w) (sk_next w) \<and>
     owners_ok (sk_workers w) (sk_accept w) (sk_next w) \<and> \<not> (stop_locked (sk_stop w) \<and> clean_locked (sk_clean w))"

text \<open>Changes to the map, made while nobody iterates over it.\<close>

lemma map_ok_change [simp]: "map_ok m n \<Longrightarrow> map_ok (removeAll i m) n" "map_ok m n \<Longrightarrow> map_ok (m @ [n]) (Suc n)" "map_ok [] n"
  by (auto simp: map_ok_def distinct_removeAll)

lemma stop_ok_unlocked [simp]: "\<not> stop_locked pc \<Longrightarrow> stop_ok pc m"
  by (cases pc) (simp_all add: stop_ok_def)

lemma clean_ok_unlocked:
  assumes "\<not> clean_locked pc" "clean_ok pc m n"
  shows "clean_ok pc (removeAll i m) n" "clean_ok pc (m @ [n]) (Suc n)" "clean_ok pc [] n"
  using assms by (cases pc; fastforce simp: clean_ok_def)+

lemma owners_ok_change:
  "owners_ok ws pc n \<Longrightarrow> accept_session pc' = None \<Longrightarrow> owners_ok ws pc' n"
  "owners_ok ws pc n \<Longrightarrow> accept_session pc' = accept_session pc \<Longrightarrow> owners_ok ws pc' n"
  "owners_ok ws pc n \<Longrightarrow> ws i = Some q \<Longrightarrow> owners_ok (ws(i \<mapsto> q')) pc n"
  "owners_ok ws pc n \<Longrightarrow> accept_session pc = Some i \<Longrightarrow> accept_session pc' = None \<Longrightarrow> owners_ok (ws(i \<mapsto> q')) pc' n"
  "owners_ok ws pc n \<Longrightarrow> accept_session pc' = Some n \<Longrightarrow> owners_ok ws pc' (Suc n)"
  by (auto simp: owners_ok_def less_Suc_eq)

lemma sock_accept_inv:
  assumes "sock_inv w" "sock_accept client thread (sk_accept w) w = Some (us, pc, w1)"
  shows "sock_inv (used us (w1\<lparr>sk_accept := pc\<rparr>))"
proof (cases "sk_accept w")
  case (AInsert k)
  with assms show ?thesis
    by (auto simp: sock_inv_def map_locked_def Let_def clean_ok_unlocked owners_ok_change(5) split: if_splits)
next
  case (ACreate i k)
  with assms show ?thesis
    using owners_ok_change(2,4) [of "sk_workers w" "ACreate i k" "sk_next w"] by (cases thread) (auto simp: sock_inv_def)
qed (use assms in \<open>auto simp: sock_inv_def intro: owners_ok_change(1) split: if_splits option.splits prod.splits\<close>)

lemma sock_worker_inv:
  assumes "sock_inv w" "sk_workers w i = Some pc" "sock_worker i r pc w = Some (us, pc', w1)"
  shows "sock_inv (used us (w1\<lparr>sk_workers := (sk_workers w1)(i \<mapsto> pc')\<rparr>))"
  using assms owners_ok_change(3) [of "sk_workers w" "sk_accept w" "sk_next w" i pc]
  by (cases pc) (auto simp: sock_inv_def map_locked_def clean_ok_unlocked split: if_splits)

lemma sock_stop_inv:
  assumes "sock_inv w" "sock_stop (sk_stop w) w = Some (us, pc, w1)"
  shows "sock_inv (used us (w1\<lparr>sk_stop := pc\<rparr>))"
proof (cases "stop_locked (sk_stop w)")
  case True
  with assms show ?thesis
    by (cases "(sk_stop w, w)" rule: sock_stop.cases) (auto simp: sock_inv_def stop_ok_def clean_ok_unlocked split: if_splits)
next
  case False
  with assms show ?thesis
    by (cases "sk_stop w") (auto simp: sock_inv_def stop_ok_def map_ok_def map_locked_def split: if_splits)
qed

lemma sock_clean_inv:
  assumes "sock_inv w" "sock_clean isStale (sk_clean w) w = Some (us, pc, w1)"
  shows "sock_inv (used us (w1\<lparr>sk_clean := pc\<rparr>))"
proof (cases "clean_locked (sk_clean w)")
  case True
  with assms show ?thesis
    by (cases "(isStale, sk_clean w, w)" rule: sock_clean.cases) (auto simp: sock_inv_def clean_ok_def map_ok_def distinct_removeAll split: if_splits)
next
  case False
  with assms show ?thesis
    by (cases "(isStale, sk_clean w, w)" rule: sock_clean.cases) (auto simp: sock_inv_def clean_ok_def map_ok_def map_locked_def split: if_splits)
qed

text \<open>A step of the engine is a step of one of its threads.\<close>

lemma sock_step_cases [consumes 1, case_names acceptor worker call stop clean]:
  assumes "sock_step w (e, us) w'"
  obtains client thread pc w1 where "sock_accept client thread (sk_accept w) w = Some (us, pc, w1)" "w' = used us (w1\<lparr>sk_accept := pc\<rparr>)"
  | i r pc pc' w1 where "sk_workers w i = Some pc" "sock_worker i r pc w = Some (us, pc', w1)" "w' = used us (w1\<lparr>sk_workers := (sk_workers w1)(i \<mapsto> pc')\<rparr>)"
  | "sk_stop w = TIdle" "us = []" "w' = w\<lparr>sk_stop := TTest\<rparr>"
  | pc w1 where "sock_stop (sk_stop w) w = Some (us, pc, w1)" "w' = used us (w1\<lparr>sk_stop := pc\<rparr>)"
  | isStale pc w1 where "sock_clean isStale (sk_clean w) w = Some (us, pc, w1)" "w' = used us (w1\<lparr>sk_clean := pc\<rparr>)"
  using assms by (cases e) (auto simp: sock_step_def split: if_splits option.splits)

interpretation sock_machine: invariant_machine sock_step sock_inv
proof
  fix w e w'
  assume inv: "sock_inv w" and "sock_step w e w'"
  then have "sock_step w (fst e, snd e) w'" by simp
  then show "sock_inv w'"
  proof (cases rule: sock_step_cases)
    case call
    with inv show ?thesis by (simp add: sock_inv_def)
  qed (use inv in \<open>simp_all add: sock_accept_inv sock_worker_inv sock_stop_inv sock_clean_inv\<close>)
qed

lemma sock_inv_new: "sock_inv sock_world_new"
  by (simp add: sock_inv_def sock_world_new_def clean_ok_def owners_ok_def)

section \<open>How often a session's socket is closed\<close>

text \<open>A machine with a budget: its steps cost no more than what they take from the budget, so neither do its histories.\<close>

locale budget_machine = invariant_machine step inv for step :: "'s \<Rightarrow> 'e \<Rightarrow> 's \<Rightarrow> bool" and inv +
  fixes budget :: "'s \<Rightarrow> nat" and cost :: "'e \<Rightarrow> nat"
  assumes step_cost: "inv s \<Longrightarrow> step s e t \<Longrightarrow> cost e + budget t \<le> budget s"
begin

lemma run_cost: "run step s es t \<Longrightarrow> inv s \<Longrightarrow> sum_list (map cost es) + budget t \<le> budget s"
proof (induction rule: run.induct)
  case (run_Cons s e s' es s'')
  with step_cost [of s e s'] step_inv [of s e s'] show ?case by auto
qed simp

end

text \<open>The closes of a session by the thread that owns it, its worker or the accept loop when there is none, and those by \<^verbatim>\<open>Stop\<close> and the housekeeping.\<close>

fun owner_close :: "nat \<Rightarrow> sock_use \<Rightarrow> bool" where
  "owner_close i (KClose c j k) \<longleftrightarrow> j = i \<and> c \<in> {ByWorker, ByAcceptor}"
| "owner_close i _ \<longleftrightarrow> False"

fun swept_close :: "nat \<Rightarrow> sock_use \<Rightarrow> bool" where
  "swept_close i (KClose c j k) \<longleftrightarrow> j = i \<and> c \<in> {ByStop, ByCleanup}"
| "swept_close i _ \<longleftrightarrow> False"

definition owner_closes :: "nat \<Rightarrow> (sock_event \<times> sock_use list) list \<Rightarrow> nat" where
  "owner_closes i es = (\<Sum>e\<leftarrow>es. length (filter (owner_close i) (snd e)))"

definition swept_closes :: "nat \<Rightarrow> (sock_event \<times> sock_use list) list \<Rightarrow> nat" where
  "swept_closes i es = (\<Sum>e\<leftarrow>es. length (filter (swept_close i) (snd e)))"

definition owner_left :: "nat \<Rightarrow> sock_world \<Rightarrow> nat" where
  "owner_left i w = (if sk_next w \<le> i then 1 else
     case sk_workers w i of Some pc \<Rightarrow> if pc \<in> {KClear, KErase, KEnd} then 0 else 1
     | None \<Rightarrow> if accept_session (sk_accept w) = Some i then 1 else 0)"

definition sweep_left :: "nat \<Rightarrow> sock_world \<Rightarrow> nat" where
  "sweep_left i w = (if sk_next w \<le> i \<or> i \<in> set (stop_left (sk_stop w) (sk_map w)) \<or> i \<in> set (clean_held (sk_clean w)) then 1 else 0)"

lemma owner_accept:
  assumes "sock_inv w" "sock_accept client thread (sk_accept w) w = Some (us, pc, w1)"
  shows "length (filter (owner_close i) us) + owner_left i (used us (w1\<lparr>sk_accept := pc\<rparr>)) \<le> owner_left i w"
proof -
  have ok: "owners_ok (sk_workers w) (sk_accept w) (sk_next w)" using assms(1) by (simp add: sock_inv_def)
  show ?thesis
  proof (cases "sk_accept w")
    case (AInsert k)
    with assms(2) ok show ?thesis
      by (auto simp: owner_left_def owners_ok_def Let_def split: if_splits option.splits)
  next
    case (ACreate j k)
    with assms(2) ok show ?thesis
      by (cases thread) (auto simp: owner_left_def owners_ok_def split: option.splits)
  next
    case (AClose j k)
    with assms(2) ok show ?thesis
      by (auto simp: owner_left_def owners_ok_def split: option.splits)
  qed (use assms(2) in \<open>auto simp: owner_left_def split: if_splits option.splits prod.splits\<close>)
qed

lemma owner_worker:
  assumes "sock_inv w" "sk_workers w j = Some pc" "sock_worker j r pc w = Some (us, pc', w1)"
  shows "length (filter (owner_close i) us) + owner_left i (used us (w1\<lparr>sk_workers := (sk_workers w1)(j \<mapsto> pc')\<rparr>)) \<le> owner_left i w"
proof -
  have "j < sk_next w" using assms(1,2) by (auto simp: sock_inv_def owners_ok_def)
  with assms(2,3) show ?thesis
    by (cases pc) (auto simp: owner_left_def split: if_splits recv_outcome.splits)
qed

lemma owner_stop:
  assumes "sock_stop (sk_stop w) w = Some (us, pc, w1)"
  shows "length (filter (owner_close i) us) + owner_left i (used us (w1\<lparr>sk_stop := pc\<rparr>)) \<le> owner_left i w"
  using assms by (cases "(sk_stop w, w)" rule: sock_stop.cases) (auto simp: owner_left_def split: if_splits)

lemma owner_clean:
  assumes "sock_clean isStale (sk_clean w) w = Some (us, pc, w1)"
  shows "length (filter (owner_close i) us) + owner_left i (used us (w1\<lparr>sk_clean := pc\<rparr>)) \<le> owner_left i w"
  using assms by (cases "(isStale, sk_clean w, w)" rule: sock_clean.cases) (auto simp: owner_left_def split: if_splits)

interpretation owner_budget: budget_machine sock_step sock_inv "owner_left i" "\<lambda>e. length (filter (owner_close i) (snd e))" for i
proof
  fix w e w'
  assume inv: "sock_inv w" and "sock_step w e w'"
  then have "sock_step w (fst e, snd e) w'" by simp
  then show "length (filter (owner_close i) (snd e)) + owner_left i w' \<le> owner_left i w"
  proof (cases rule: sock_step_cases)
    case call
    then show ?thesis by (simp add: owner_left_def)
  qed (use inv in \<open>simp_all add: owner_accept owner_worker owner_stop owner_clean\<close>)
qed

lemma sweep_accept:
  assumes "sock_inv w" "sock_accept client thread (sk_accept w) w = Some (us, pc, w1)"
  shows "length (filter (swept_close i) us) + sweep_left i (used us (w1\<lparr>sk_accept := pc\<rparr>)) \<le> sweep_left i w"
proof (cases "sk_accept w")
  case (AInsert k)
  with assms(2) have "\<not> stop_locked (sk_stop w)" by (auto simp: map_locked_def split: if_splits)
  then have "stop_left (sk_stop w) m = m" for m by (cases "sk_stop w") simp_all
  with assms(2) AInsert show ?thesis
    by (auto simp: sweep_left_def Let_def split: if_splits)
next
  case (ACreate j k)
  with assms(2) show ?thesis by (cases thread) (auto simp: sweep_left_def)
qed (use assms(2) in \<open>auto simp: sweep_left_def split: if_splits option.splits prod.splits\<close>)

lemma stop_left_remove: "i \<in> set (stop_left pc (removeAll j m)) \<Longrightarrow> i \<in> set (stop_left pc m)"
  by (cases pc) auto

lemma sweep_worker:
  assumes "sock_worker j r pc w = Some (us, pc', w1)"
  shows "length (filter (swept_close i) us) + sweep_left i (used us (w1\<lparr>sk_workers := (sk_workers w1)(j \<mapsto> pc')\<rparr>)) \<le> sweep_left i w"
  using assms by (cases pc) (auto simp: sweep_left_def dest: stop_left_remove split: if_splits recv_outcome.splits)

lemma sweep_stop:
  assumes "sock_inv w" "sock_stop (sk_stop w) w = Some (us, pc, w1)"
  shows "length (filter (swept_close i) us) + sweep_left i (used us (w1\<lparr>sk_stop := pc\<rparr>)) \<le> sweep_left i w"
proof -
  have ok: "stop_ok (sk_stop w) (sk_map w)" "clean_ok (sk_clean w) (sk_map w) (sk_next w)" "map_ok (sk_map w) (sk_next w)"
    using assms(1) by (simp_all add: sock_inv_def)
  show ?thesis
  proof (cases "\<exists>j is. sk_stop w = TClose j is")
    case True
    then obtain j "is" where j: "sk_stop w = TClose j is" by blast
    with assms(1) have "\<not> clean_locked (sk_clean w)" by (simp add: sock_inv_def)
    then have "clean_current (sk_clean w) = {}" by (cases "sk_clean w") simp_all
    with j ok have "j \<notin> set is" "j \<notin> set (clean_held (sk_clean w))" "j < sk_next w"
      by (auto simp: stop_ok_def clean_ok_def map_ok_def)
    with j assms(2) show ?thesis by (auto simp: sweep_left_def)
  next
    case False
    with assms(2) show ?thesis
      by (cases "(sk_stop w, w)" rule: sock_stop.cases) (auto simp: sweep_left_def split: if_splits)
  qed
qed

lemma sweep_clean:
  assumes "sock_inv w" "sock_clean isStale (sk_clean w) w = Some (us, pc, w1)"
  shows "length (filter (swept_close i) us) + sweep_left i (used us (w1\<lparr>sk_clean := pc\<rparr>)) \<le> sweep_left i w"
proof -
  have ok: "stop_ok (sk_stop w) (sk_map w)" "clean_ok (sk_clean w) (sk_map w) (sk_next w)"
    using assms(1) by (simp_all add: sock_inv_def)
  have left: "stop_left (sk_stop w) m = m \<or> set (stop_left (sk_stop w) m) \<subseteq> set (sk_map w)" for m
    using ok(1) by (cases "sk_stop w") (auto simp: stop_ok_def)
  have unlocked: "stop_left (sk_stop w) m = m" if "clean_locked (sk_clean w)" for m
    using that assms(1) by (cases "sk_stop w") (auto simp: sock_inv_def)
  show ?thesis
  proof (cases "(isStale, sk_clean w, w)" rule: sock_clean.cases)
    case (8 st j k acc v)
    then have c: "sk_clean w = HClose ((j, k) # acc)" by auto
    with ok(2) have "j \<notin> set (map fst acc)" "j < sk_next w" "j \<notin> set (sk_map w)"
      by (simp_all add: clean_ok_def)
    moreover have "us = [KClose ByCleanup j k]" "pc = HClose acc" "w1 = w" using assms(2) c by simp_all
    moreover have "j \<notin> set (stop_left (sk_stop w) (sk_map w))" using left [of "sk_map w"] calculation(3) by (metis subsetD)
    ultimately show ?thesis using c by (cases "i = j") (simp_all add: sweep_left_def)
  qed (use assms(2) unlocked ok(2) in \<open>auto simp: sweep_left_def clean_ok_def dest: stop_left_remove split: if_splits\<close>)
qed

interpretation sweep_budget: budget_machine sock_step sock_inv "sweep_left i" "\<lambda>e. length (filter (swept_close i) (snd e))" for i
proof
  fix w e w'
  assume inv: "sock_inv w" and "sock_step w e w'"
  then have "sock_step w (fst e, snd e) w'" by simp
  then show "length (filter (swept_close i) (snd e)) + sweep_left i w' \<le> sweep_left i w"
  proof (cases rule: sock_step_cases)
    case call
    then show ?thesis by (simp add: sweep_left_def)
  qed (use inv in \<open>simp_all add: sweep_accept sweep_worker sweep_stop sweep_clean\<close>)
qed

lemma closes_bounded:
  assumes "run sock_step sock_world_new es w"
  shows "owner_closes i es \<le> 1" "swept_closes i es \<le> 1"
  using owner_budget.run_cost [OF assms sock_inv_new, of i] sweep_budget.run_cost [OF assms sock_inv_new, of i]
  by (simp_all add: owner_closes_def swept_closes_def owner_left_def sweep_left_def sock_world_new_def)

section \<open>Sockets are open when their owners close them\<close>

text \<open>
  The socket that a thread is going to close unless another clears the member: the accept loop's, and that of each worker. Unless \<^verbatim>\<open>Stop\<close> or the
  housekeeping closes a socket, these sockets are open and no two threads have the same.
\<close>

fun accept_holds :: "sock_accept_pc \<Rightarrow> nat option" where
  "accept_holds (ARefuse k) = Some k" | "accept_holds (AInsert k) = Some k" | "accept_holds (ACreate i k) = Some k"
| "accept_holds (AClose i k) = Some k" | "accept_holds _ = None"

fun may_close :: "sock_worker_pc \<Rightarrow> bool" where
  "may_close KClear = False" | "may_close KErase = False" | "may_close KEnd = False" | "may_close _ = True"

definition worker_holds :: "sock_world \<Rightarrow> nat \<Rightarrow> nat option" where
  "worker_holds w i = (case sk_workers w i of Some pc \<Rightarrow> if may_close pc then sk_sock w i else None | None \<Rightarrow> None)"

definition holds_ok :: "sock_world \<Rightarrow> bool" where
  "holds_ok w \<longleftrightarrow>
     (\<forall>k. accept_holds (sk_accept w) = Some k \<longrightarrow> k \<in> sk_open w \<and> (\<forall>i. worker_holds w i \<noteq> Some k)) \<and>
     (\<forall>i k. worker_holds w i = Some k \<longrightarrow> k \<in> sk_open w \<and> (\<forall>j. worker_holds w j = Some k \<longrightarrow> j = i)) \<and>
     (\<forall>i k. sk_accept w = ACreate i k \<longrightarrow> sk_sock w i \<in> {Some k, None})"

lemma holds_okD:
  assumes "holds_ok w"
  shows "accept_holds (sk_accept w) = Some k \<Longrightarrow> k \<in> sk_open w \<and> (\<forall>i. worker_holds w i \<noteq> Some k)"
    "worker_holds w i = Some k \<Longrightarrow> k \<in> sk_open w"
    "worker_holds w i = Some k \<Longrightarrow> worker_holds w j = Some k \<Longrightarrow> j = i"
    "sk_accept w = ACreate i k \<Longrightarrow> sk_sock w i \<in> {Some k, None}"
  using assms unfolding holds_ok_def by blast+

text \<open>Steps by which threads only give sockets up, and close none that is still held.\<close>

lemma holds_ok_mono:
  assumes "holds_ok w" "sk_accept w' = sk_accept w"
    and mono: "\<And>i k. worker_holds w' i = Some k \<Longrightarrow> worker_holds w i = Some k"
    and sock: "\<And>i. sk_sock w' i = sk_sock w i \<or> sk_sock w' i = None"
    and opn: "\<And>k. k \<in> sk_open w \<Longrightarrow> accept_holds (sk_accept w) = Some k \<or> (\<exists>i. worker_holds w' i = Some k) \<Longrightarrow> k \<in> sk_open w'"
  shows "holds_ok w'"
proof -
  have "k \<in> sk_open w' \<and> (\<forall>i. worker_holds w' i \<noteq> Some k)" if "accept_holds (sk_accept w') = Some k" for k
    using holds_okD(1) [OF assms(1)] that mono opn assms(2) by metis
  moreover have "k \<in> sk_open w'" if "worker_holds w' i = Some k" for i k
    using holds_okD(2) [OF assms(1) mono [OF that]] opn that by blast
  moreover have "j = i" if "worker_holds w' i = Some k" "worker_holds w' j = Some k" for i j k
    by (rule holds_okD(3) [OF assms(1) mono [OF that(1)] mono [OF that(2)]])
  moreover have "sk_sock w' i \<in> {Some k, None}" if "sk_accept w' = ACreate i k" for i k
    using holds_okD(4) [OF assms(1), of i k] that sock [of i] assms(2) by auto
  ultimately show ?thesis unfolding holds_ok_def by blast
qed

lemma worker_holds_upd:
  "worker_holds (w\<lparr>sk_workers := (sk_workers w)(i \<mapsto> pc)\<rparr>) = (worker_holds w)(i := if may_close pc then sk_sock w i else None)"
  "worker_holds (used us w) = worker_holds w" "worker_holds (w\<lparr>sk_accept := a\<rparr>) = worker_holds w"
  "worker_holds (w\<lparr>sk_stop := t\<rparr>) = worker_holds w" "worker_holds (w\<lparr>sk_clean := c\<rparr>) = worker_holds w"
  "worker_holds (w\<lparr>sk_map := m\<rparr>) = worker_holds w" "worker_holds (w\<lparr>sk_running := b\<rparr>) = worker_holds w"
  "worker_holds (w\<lparr>sk_sock := (sk_sock w)(i := None)\<rparr>) = (worker_holds w)(i := None)"
  by (auto simp: worker_holds_def fun_eq_iff split: option.splits)

lemma used_open:
  "sk_open (used [] w) = sk_open w" "sk_open (used [KCall i k] w) = sk_open w" "sk_open (used [KClose c i k] w) = sk_open w - set_option k"
  "sk_open (used [KAccept n] w) = insert n (sk_open w)" "sk_open (used [KRefuse n] w) = sk_open w - {n}" "sk_open (used [KSession i n] w) = sk_open w"
  by (simp_all add: used_def)

lemma holds_stop:
  assumes "holds_ok w" "sock_stop (sk_stop w) w = Some (us, pc, w1)" "\<forall>i. \<forall>u\<in>set us. \<not> swept_close i u"
  shows "holds_ok (used us (w1\<lparr>sk_stop := pc\<rparr>))"
  using assms(1)
  by (rule holds_ok_mono; use assms(2,3) in \<open>cases "(sk_stop w, w)" rule: sock_stop.cases\<close>)
    (auto simp: worker_holds_upd used_open split: if_splits)

lemma holds_clean:
  assumes "holds_ok w" "sock_clean isStale (sk_clean w) w = Some (us, pc, w1)" "\<forall>i. \<forall>u\<in>set us. \<not> swept_close i u"
  shows "holds_ok (used us (w1\<lparr>sk_clean := pc\<rparr>))"
  using assms(1)
  by (rule holds_ok_mono; use assms(2,3) in \<open>cases "(isStale, sk_clean w, w)" rule: sock_clean.cases\<close>)
    (auto simp: worker_holds_upd used_open split: if_splits)

lemma holds_worker:
  assumes "holds_ok w" "sk_workers w i = Some pc" "sock_worker i r pc w = Some (us, pc', w1)"
  shows "holds_ok (used us (w1\<lparr>sk_workers := (sk_workers w1)(i \<mapsto> pc')\<rparr>))"
proof (cases "pc = KCloseSock")
  case True
  have h: "worker_holds w i = sk_sock w i" using assms(2) True by (simp add: worker_holds_def)
  have n: "j \<noteq> i \<Longrightarrow> worker_holds w j \<noteq> Some k" "accept_holds (sk_accept w) \<noteq> Some k" if "sk_sock w i = Some k" for j k
    using holds_okD(1,3) [OF assms(1)] h that by metis+
  show ?thesis
    by (rule holds_ok_mono [OF assms(1)]; use assms(3) True n in \<open>cases "sk_sock w i"\<close>)
      (auto simp: worker_holds_upd used_open split: if_splits)
next
  case False
  have "worker_holds w i = (if may_close pc then sk_sock w i else None)" using assms(2) by (simp add: worker_holds_def)
  then show ?thesis
    by (intro holds_ok_mono [OF assms(1)]; use assms(2,3) False in \<open>cases pc\<close>)
      (auto simp: worker_holds_upd used_open split: if_splits recv_outcome.splits)
qed

lemma holds_accept:
  assumes "holds_ok w" "sock_inv w" "sock_accept client thread (sk_accept w) w = Some (us, pc, w1)"
  shows "holds_ok (used us (w1\<lparr>sk_accept := pc\<rparr>))"
proof -
  have new: "sk_workers w (sk_next w) = None" "accept_session (sk_accept w) = Some i \<Longrightarrow> worker_holds w i = None" for i
    using assms(2) by (auto simp: sock_inv_def owners_ok_def worker_holds_def split: option.splits)
  have held: "accept_holds (sk_accept w) = Some k \<Longrightarrow> k \<in> sk_open w \<and> (\<forall>i. worker_holds w i \<noteq> Some k)"
    "worker_holds w i = Some k \<Longrightarrow> k \<in> sk_open w" "worker_holds w i = Some k \<Longrightarrow> worker_holds w j = Some k \<Longrightarrow> j = i" for i j k
    by (fact holds_okD [OF assms(1)])+
  show ?thesis
  proof (cases "sk_accept w")
    case AAccept
    with assms(3) held show ?thesis
      by (auto simp: holds_ok_def worker_holds_upd used_open split: option.splits prod.splits if_splits)
  next
    case (AInsert k)
    then have "worker_holds (w\<lparr>sk_next := n, sk_sock := (sk_sock w)(sk_next w := Some k), sk_map := m\<rparr>) i = worker_holds w i" for n m i
      using new(1) by (auto simp: worker_holds_def split: option.splits if_splits)
    with AInsert assms(3) held show ?thesis
      by (auto simp: holds_ok_def worker_holds_upd used_open Let_def split: if_splits)
  next
    case (ACreate i k)
    with holds_okD(4) [OF assms(1)] have "sk_sock w i = Some k \<or> sk_sock w i = None" by auto
    with ACreate assms(3) held new(2) [of i] show ?thesis
      by (cases thread) (auto simp: holds_ok_def worker_holds_upd used_open split: if_splits)
  qed (use assms(3) held in \<open>auto simp: holds_ok_def worker_holds_upd used_open split: if_splits\<close>)
qed

text \<open>A step of a history in which \<^verbatim>\<open>Stop\<close> and the housekeeping close nothing.\<close>

definition unswept :: "sock_event \<times> sock_use list \<Rightarrow> bool" where
  "unswept e \<longleftrightarrow> (\<forall>i. \<forall>u\<in>set (snd e). \<not> swept_close i u)"

interpretation holds_machine: invariant_machine "\<lambda>w e w'. unswept e \<and> sock_step w e w'" "\<lambda>w. sock_inv w \<and> holds_ok w"
proof
  fix w e w'
  assume inv: "sock_inv w \<and> holds_ok w" and st: "unswept e \<and> sock_step w e w'"
  then have ok: "sock_inv w" "holds_ok w" and u: "\<forall>i. \<forall>u\<in>set (snd e). \<not> swept_close i u" and "sock_step w (fst e, snd e) w'"
    by (simp_all add: unswept_def)
  from this(4) have "holds_ok w'"
  proof (cases rule: sock_step_cases)
    case call
    with ok show ?thesis by (auto simp: holds_ok_def worker_holds_upd)
  qed (use ok u in \<open>simp_all add: holds_accept holds_worker holds_stop holds_clean\<close>)
  with inv st sock_machine.step_inv show "sock_inv w' \<and> holds_ok w'" by blast
qed

lemma holds_new: "holds_ok sock_world_new"
  by (simp add: holds_ok_def sock_world_new_def worker_holds_def)

lemma unswept_iff: "(\<forall>i. swept_closes i es = 0) \<longleftrightarrow> (\<forall>e\<in>set es. unswept e)"
  by (induction es) (auto simp: swept_closes_def unswept_def filter_empty_conv)

text \<open>A close in such a history is of a socket that its thread holds.\<close>

lemma held_close:
  assumes "holds_ok w" "sock_step w (e, us) w'" "unswept (e, us)" "KClose c i (Some k) \<in> set us"
  shows "k \<in> sk_open w"
  using assms(2)
proof (cases rule: sock_step_cases)
  case (acceptor client thread pc w1)
  with assms(4) have "accept_holds (sk_accept w) = Some k"
    by (cases "sk_accept w") (auto simp: Let_def split: if_splits option.splits prod.splits)
  with holds_okD(1) [OF assms(1)] show ?thesis by blast
next
  case (worker j r pc pc' w1)
  with assms(4) have "worker_holds w j = Some k"
    by (cases pc) (auto simp: worker_holds_def split: if_splits)
  with holds_okD(2) [OF assms(1)] show ?thesis by blast
next
  case (stop pc w1)
  with assms(3,4) show ?thesis
    by (cases "(sk_stop w, w)" rule: sock_stop.cases) (auto simp: unswept_def split: if_splits)
next
  case (clean isStale pc w1)
  with assms(3,4) show ?thesis
    by (cases "(isStale, sk_clean w, w)" rule: sock_clean.cases) (auto simp: unswept_def split: if_splits)
qed (use assms(4) in simp)

section \<open>Closing\<close>

text \<open>C20: how often the socket of a client is closed. In every interleaving of the accept loop, the workers, \<^verbatim>\<open>Stop\<close> and the housekeeping, also
  when a worker thread cannot be created, the thread that owns a session closes its socket at most once, and \<^verbatim>\<open>Stop\<close> and the housekeeping together
  close it at most once more; and as long as neither of those two has closed a socket, no thread closes one that is not
  open. The two closes can both happen: a worker tests, closes and clears the member without the lock, and in the history of the witness
  it closes the socket between the close by \<^verbatim>\<open>Stop\<close> and the clearing, when it is no longer open.\<close>

theorem sockets_closed:
  assumes "run sock_step sock_world_new es w"
  shows "owner_closes i es \<le> 1 \<and> swept_closes i es \<le> 1 \<and>
    (\<forall>e us w' c j k. sock_step w (e, us) w' \<and> KClose c j (Some k) \<in> set us \<and> (\<forall>l. swept_closes l (es @ [(e, us)]) = 0) \<longrightarrow> k \<in> sk_open w)"
proof (intro conjI closes_bounded [OF assms] allI impI)
  fix e us w' c j k
  assume a: "sock_step w (e, us) w' \<and> KClose c j (Some k) \<in> set us \<and> (\<forall>l. swept_closes l (es @ [(e, us)]) = 0)"
  then have u: "\<forall>x\<in>set (es @ [(e, us)]). unswept x" using unswept_iff by blast
  then have "run (\<lambda>w e w'. unswept e \<and> sock_step w e w') sock_world_new es w"
    by (intro run_conj [OF assms]) simp
  then have "sock_inv w \<and> holds_ok w"
    by (rule holds_machine.run_inv) (simp add: sock_inv_new holds_new)
  with a u held_close show "k \<in> sk_open w" by auto
qed

text \<open>A client is accepted with socket \<open>k\<close> and its worker waits for data.\<close>

abbreviation client_uses :: "nat \<Rightarrow> (sock_event \<times> sock_use list) list" where
  "client_uses k \<equiv> map (Pair (SAcceptor (Some (k, True)) True)) [[], [KAccept k], [KSession 0 k], []] @
     map (Pair (SWorker 0 RvContinue)) [[], [], []]"

definition client_world :: "nat \<Rightarrow> sock_world" where
  "client_world k = sock_world_new\<lparr>sk_map := [0], sk_sock := (\<lambda>_. None)(0 := Some k), sk_next := 1, sk_open := {k}, sk_workers := [0 \<mapsto> KRecv]\<rparr>"

lemmas sock_play_simps = sock_world_new_def used_def map_locked_def eval_nat_numeral Let_def

lemma client_accepted: "run sock_step sock_world_new (client_uses k) (client_world k)"
  by (rule sock_play_run [of "map fst (client_uses k)"]) (simp add: sock_play_simps client_world_def)

text \<open>\<^verbatim>\<open>Stop\<close> closes the socket, which wakes the worker; the worker finds the member set and closes it again.\<close>

definition stop_race :: "sock_event list" where
  "stop_race = [SCallStop, SStop, SStop, SStop, SStop, SStop, SStop, SWorker 0 RvBreak, SWorker 0 RvBreak]"

lemma stop_race_plays:
  "\<exists>w w'. sock_play stop_race (client_world k) = Some (map (\<lambda>e. (e, [])) (take 5 stop_race) @
       [(SStop, [KCall 0 (Some k)]), (SStop, [KClose ByStop 0 (Some k)]), (SWorker 0 RvBreak, [KCall 0 (Some k)]), (SWorker 0 RvBreak, [])], w) \<and>
     k \<notin> sk_open w \<and> sock_exec (SWorker 0 RvBreak) w = Some ([KClose ByWorker 0 (Some k)], w')"
  by (simp add: stop_race_def client_world_def sock_play_simps)

theorem sockets_closed_witness:
  "\<exists>es w u w'. run sock_step sock_world_new (es @ [(SWorker 0 RvBreak, [KClose ByWorker 0 (Some 7)])]) w' \<and>
     run sock_step sock_world_new es w \<and> 7 \<notin> sk_open w \<and>
     owner_closes 0 (es @ [u]) = 1 \<and> swept_closes 0 (es @ [u]) = 1 \<and> u = (SWorker 0 RvBreak, [KClose ByWorker 0 (Some 7)])"
proof -
  let ?u = "(SWorker 0 RvBreak, [KClose ByWorker 0 (Some 7)])"
  obtain ls w w' where p: "sock_play stop_race (client_world 7) = Some (ls, w)" and "7 \<notin> sk_open w"
    and "sock_exec (SWorker 0 RvBreak) w = Some ([KClose ByWorker 0 (Some 7)], w')"
    and ls: "ls = map (\<lambda>e. (e, [])) (take 5 stop_race) @ [(SStop, [KCall 0 (Some 7)]), (SStop, [KClose ByStop 0 (Some 7)]),
      (SWorker 0 RvBreak, [KCall 0 (Some 7)]), (SWorker 0 RvBreak, [])]"
    using stop_race_plays [of 7] by blast
  moreover define es where "es = client_uses 7 @ ls"
  moreover have "owner_closes 0 es = 0" "swept_closes 0 es = 1"
    unfolding es_def ls by (simp_all add: owner_closes_def swept_closes_def stop_race_def)
  moreover have "run sock_step sock_world_new es w"
    unfolding es_def by (rule run_append [THEN iffD2, OF exI, OF conjI, OF client_accepted sock_play_run [OF p]])
  ultimately have w: "run sock_step sock_world_new es w" "owner_closes 0 es = 0" "swept_closes 0 es = 1" "7 \<notin> sk_open w"
    "sock_step w ?u w'"
    by (simp_all add: sock_step_def)
  then have r: "run sock_step sock_world_new (es @ [?u]) w'" by (auto simp: run_append)
  have "1 \<le> owner_closes 0 (es @ [?u])" "1 \<le> swept_closes 0 (es @ [?u])"
    using w(2,3) by (simp_all add: owner_closes_def swept_closes_def)
  with sockets_closed [OF r, of 0] have "owner_closes 0 (es @ [?u]) = 1" "swept_closes 0 (es @ [?u]) = 1" by linarith+
  with w r show ?thesis by blast
qed

text \<open>
  A second race: the number of a socket that a worker has closed is given to the next client before the worker clears the member, and the
  housekeeping, for which the first session is stale, closes it: the new client loses its connection although
  nobody has closed its session.
\<close>

definition reuse_race :: "nat \<Rightarrow> sock_event list" where
  "reuse_race k = replicate 3 (SWorker 0 RvBreak) @ replicate 4 (SAcceptor (Some (k, True)) True) @
     [SClean True, SClean True, SClean True, SClean True, SClean True, SClean False, SClean False, SClean False]"

lemma reused_socket_closed:
  "\<exists>es w. run sock_step sock_world_new es w \<and> sk_workers w 1 = Some KFind \<and> 1 \<in> set (sk_map w) \<and> sk_sock w 1 = Some k \<and> k \<notin> sk_open w \<and>
     owner_closes 1 es = 0 \<and> swept_closes 1 es = 0"
proof -
  have "\<exists>ls w. sock_play (reuse_race k) (client_world k) = Some (ls, w) \<and> sk_workers w 1 = Some KFind \<and> 1 \<in> set (sk_map w) \<and> sk_sock w 1 = Some k \<and>
      k \<notin> sk_open w \<and> owner_closes 1 ls = 0 \<and> swept_closes 1 ls = 0"
    by (simp add: reuse_race_def client_world_def sock_play_simps owner_closes_def swept_closes_def)
  then obtain ls w where "sock_play (reuse_race k) (client_world k) = Some (ls, w)" and w: "sk_workers w 1 = Some KFind" "1 \<in> set (sk_map w)"
      "sk_sock w 1 = Some k" "k \<notin> sk_open w" "owner_closes 1 ls = 0" "swept_closes 1 ls = 0" by blast
  then have "run sock_step sock_world_new (client_uses k @ ls) w"
    by (intro run_append [THEN iffD2, OF exI, OF conjI, OF client_accepted]) (rule sock_play_run)
  moreover have "owner_closes 1 (client_uses k @ ls) = 0" "swept_closes 1 (client_uses k @ ls) = 0"
    using w(5,6) by (simp_all add: owner_closes_def swept_closes_def)
  ultimately show ?thesis using w by blast
qed

section \<open>The single steps of theory Network\<close>

fun closed_sockets :: "sock_use list \<Rightarrow> nat list" where
  "closed_sockets [] = []"
| "closed_sockets (KClose c i (Some k) # us) = k # closed_sockets us"
| "closed_sockets (_ # us) = closed_sockets us"

lemma closed_sockets_append: "closed_sockets (us @ vs) = closed_sockets us @ closed_sockets vs"
  by (induction us rule: closed_sockets.induct) simp_all

text \<open>The end of a worker that is not disturbed is \<open>worker_exit\<close>.\<close>

lemma worker_exit_alone:
  assumes "\<not> map_locked w" "sk_workers w i = Some KExit" "sk_sock w i = cs_Socket s"
  shows "\<exists>n ls w'. sock_play (replicate n (SWorker i r)) w = Some (ls, w') \<and>
    closed_sockets (concat (map snd ls)) = closes (fst (worker_exit c s e)) \<and> sk_sock w' i = None \<and>
    sk_map w' = removeAll i (sk_map w) \<and> sk_workers w' i = Some KEnd"
proof (cases "cs_Socket s")
  case None
  with assms have "\<exists>ls w'. sock_play (replicate 2 (SWorker i r)) w = Some (ls, w') \<and> closed_sockets (concat (map snd ls)) = [] \<and> sk_sock w' i = None \<and>
    sk_map w' = removeAll i (sk_map w) \<and> sk_workers w' i = Some KEnd"
    by (simp add: used_def map_locked_def eval_nat_numeral)
  with None show ?thesis by (auto simp: worker_exit_def)
next
  case (Some k)
  with assms have "\<exists>ls w'. sock_play (replicate 4 (SWorker i r)) w = Some (ls, w') \<and> closed_sockets (concat (map snd ls)) = [k] \<and> sk_sock w' i = None \<and>
    sk_map w' = removeAll i (sk_map w) \<and> sk_workers w' i = Some KEnd"
    by (simp add: used_def map_locked_def eval_nat_numeral)
  with Some show ?thesis by (fastforce simp: worker_exit_def)
qed

lemma sock_play_append:
  "sock_play es w = Some (ls, w1) \<Longrightarrow> sock_play fs w1 = Some (ms, w2) \<Longrightarrow> sock_play (es @ fs) w = Some (ls @ ms, w2)"
  by (induction es w arbitrary: ls w1 rule: sock_play.induct) (auto split: option.splits prod.splits)

text \<open>The loop of \<^verbatim>\<open>Stop\<close> over the clients, undisturbed, is \<open>stop_clients\<close>.\<close>

lemma stop_clients_alone:
  assumes "sk_stop w = TVisit is" "\<forall>j\<in>set is. sk_sock w j = sock e (of_nat j)" "distinct (map of_nat is :: u64 list)"
  shows "\<exists>n ls w'. sock_play (replicate n SStop) w = Some (ls, w') \<and> sk_stop w' = TIdle \<and> sk_map w' = [] \<and>
    closed_sockets (concat (map snd ls)) = closes (fst (stop_clients (map of_nat is) e))"
  using assms
proof (induction "is" arbitrary: w e)
  case Nil
  then have "\<exists>ls w'. sock_play (replicate 1 SStop) w = Some (ls, w') \<and> sk_stop w' = TIdle \<and> sk_map w' = [] \<and> closed_sockets (concat (map snd ls)) = []"
    by (simp add: used_def)
  then show ?case by (metis closes.simps(1) fst_conv list.simps(8) stop_clients.simps(1))
next
  case (Cons i "is")
  show ?case
  proof (cases "sk_sock w i")
    case None
    with Cons.prems obtain ls1 w1 where w1: "sock_play (replicate 1 SStop) w = Some (ls1, w1)" "closed_sockets (concat (map snd ls1)) = []"
      "sk_stop w1 = TVisit is" "sk_sock w1 = sk_sock w"
      by (simp add: used_def)
    with Cons.prems obtain n ls w' where "sock_play (replicate n SStop) w1 = Some (ls, w')" "sk_stop w' = TIdle" "sk_map w' = []"
      "closed_sockets (concat (map snd ls)) = closes (fst (stop_clients (map of_nat is) e))"
      using Cons.IH [of w1 e] by auto
    moreover have "stop_clients (map of_nat (i # is)) e = stop_clients (map of_nat is) e"
      using None Cons.prems(2) by (auto simp: sock_def split: option.splits)
    ultimately show ?thesis
      using sock_play_append [OF w1(1)] w1(2) by (metis append_self_conv2 closed_sockets_append concat_append map_append replicate_add)
  next
    case (Some k)
    with Cons.prems(1) obtain ls1 w1 where w1: "sock_play (replicate 4 SStop) w = Some (ls1, w1)" "closed_sockets (concat (map snd ls1)) = [k]"
      "sk_stop w1 = TVisit is" "sk_sock w1 = (sk_sock w)(i := None)"
      by (simp add: used_def eval_nat_numeral)
    obtain s where s: "ne_objs e (of_nat i) = Some s" "cs_Socket s = Some k"
      using Some Cons.prems(2) by (auto simp: sock_def bind_eq_Some_conv)
    let ?e = "put_obj (of_nat i) (s\<lparr>cs_Socket := None, cs_State := DISCONNECTED\<rparr>) e"
    obtain n ls w' where "sock_play (replicate n SStop) w1 = Some (ls, w')" "sk_stop w' = TIdle" "sk_map w' = []"
      "closed_sockets (concat (map snd ls)) = closes (fst (stop_clients (map of_nat is) ?e))"
      using Cons.IH [of w1 ?e] Cons.prems(2,3) w1(3,4) by (fastforce simp: image_iff)
    moreover have "closes (fst (stop_clients (map of_nat (i # is)) e)) = k # closes (fst (stop_clients (map of_nat is) ?e))"
      by (simp add: s case_prod_unfold Let_def)
    ultimately show ?thesis
      using sock_play_append [OF w1(1)] w1(2)
      by (metis append_Cons append_Nil closed_sockets_append concat_append map_append replicate_add)
  qed
qed

end
