(* ===== verification/Spec2Isabelle.thy ===== *)
theory Spec2Isabelle
  imports Protocol SasPin DeviceRegistry Pairing Crypto Auth ChallengeSpec Tls Network Lsa Config Ipc Mdns Diagnostics Service Agent
    Credential Com Lifecycle DeviceStore ServiceWorker EntryPoints PipeThreads PipeChannel LockSystem
    SocketThreads
begin

text \<open>
  Verification of the Windows side of MobileFingerprintUnlock, a program that unlocks and locks a PC from a paired phone. Paths
  are relative to \<^verbatim>\<open>src\<close>.

  \<^bold>\<open>The program.\<close> A Windows service (\<^verbatim>\<open>windows/service\<close>) owns a TCP server (\<^verbatim>\<open>windows/network/NetworkEngine.cpp\<close>), which may speak
  TLS through SChannel (\<^verbatim>\<open>TlsContext.cpp\<close>), a discovery responder (\<^verbatim>\<open>MdnsResponder.cpp\<close>), a named-pipe server
  (\<^verbatim>\<open>windows/ipc\<close>) and the settings (\<^verbatim>\<open>windows/configuration\<close>). A phone sends frames (\<^verbatim>\<open>shared/protocol\<close>); the service passes authentication
  frames to the authentication manager (\<^verbatim>\<open>windows/authentication\<close>), which issues a challenge and verifies the signature of the
  answer (\<^verbatim>\<open>windows/crypto\<close>) with the key that the device registry (\<^verbatim>\<open>windows/pairing\<close>) holds for the device, and passes lock requests
  to an agent in the user's session (\<^verbatim>\<open>windows/user_session_agent\<close>) over the pipe. Devices come into the registry by the pairing
  manager, which has the user compare a PIN. On the logon screen a credential provider (\<^verbatim>\<open>windows/credential_provider\<close>) polls the
  service over the same pipe for a logon buffer and hands it to Winlogon, and an authentication package inside the LSA
  (\<^verbatim>\<open>windows/lsa_authentication_package\<close>) decides the logon.

  \<^bold>\<open>The theories.\<close> Each holds the state of its component as a record, its operations under the names of the source (with a prefix
  where several classes use one name), and its lemmas.

  \<^item> Prelude: machine integers and their bytes, strings, the C library functions in use, and the interfaces shared by the
    components as locales: \<open>codec\<close> and \<open>stream_codec\<close> for wire forms, \<open>invariant_machine\<close> for a step relation with an invariant,
    \<open>refinement\<close> and \<open>refinement_chain\<close> for a simulation between two of them.
  \<^item> Protocol (\<^verbatim>\<open>ProtocolTypes.h\<close>, \<^verbatim>\<open>SignedMessage.h\<close>): both parsers accept exactly the serializations of valid values.
  \<^item> DeviceIdentity, SasPin, Registry, DeviceRegistry, Pairing (\<^verbatim>\<open>windows/pairing\<close>): identifiers and records are read back as
    written, PINs are unbiased and checked exactly, enumeration ends exactly when the system lets it, and a device is paired
    only by the PIN that was displayed for its own request.
  \<^item> DeviceStore: the contract of a table of devices (locale \<open>device_table\<close>, which gives a \<open>refinement\<close> of a map), and the operations
    of the registry as an instance of it.
  \<^item> Crypto (\<^verbatim>\<open>CryptoManager.cpp\<close>): key encodings agree, verification is sound and releases its handles; the DER parser's reads past
    its buffer are an outcome of the model.
  \<^item> Auth (\<^verbatim>\<open>AuthenticationManager.cpp\<close>) and ChallengeSpec: soundness of a success, no replay, the lockout; the manager refines an
    abstract machine in which a challenge is issued and accepted at most once.
  \<^item> Tls, Network (\<^verbatim>\<open>TlsContext.cpp\<close>, \<^verbatim>\<open>NetworkEngine.cpp\<close>): the version policy, reassembly of frames from any chunks, the rate limiter, and the
    ownership of sockets when the operations follow each other as whole steps and every worker thread can be created.
  \<^item> SocketThreads (\<^verbatim>\<open>NetworkEngine.cpp\<close>): the accept loop, the workers, \<^verbatim>\<open>Stop\<close> and the housekeeping as programs with a point between any two
    accesses to the map and the sockets they share (locale \<open>budget_machine\<close>: who may still close). In every interleaving a session's socket is
    closed at most once by its own thread and at most once by \<^verbatim>\<open>Stop\<close> and the housekeeping; since the worker does not take the lock, both can
    happen, so that a socket is closed twice, or another client's is closed. The single steps of theory Network are these
    programs undisturbed.
  \<^item> Lsa (\<^verbatim>\<open>LsaPackage.cpp\<close>, \<^verbatim>\<open>LsaLogonBuffer.h\<close>, \<^verbatim>\<open>LsaPackageLookup.cpp\<close>): when a logon succeeds, the heap after it, and replays.
  \<^item> Config, Ipc, Mdns, Diagnostics: settings, both ends of the pipe, discovery, the health report and the audit log.
  \<^item> PipeThreads (\<^verbatim>\<open>SecureIPC.cpp\<close>): the worker of the pipe server, \<^verbatim>\<open>Stop\<close> and the senders as programs with a point between any two accesses to
    the members they share. No instance of the pipe is lost, the worker ends, the single steps of theory Ipc are these programs
    undisturbed; and what the missing lock allows.
  \<^item> PipeChannel: both ends over the documented behaviour of a pipe in message mode (hypothesis \<open>pipe_laws\<close>) are a pair of queues.
  \<^item> Service (\<^verbatim>\<open>MobileUnlockService.cpp\<close>): start, stop, the control handler and the two message handlers, composed from the models
    above; the announced state, the types of stored challenges, and when a lock request is passed on.
  \<^item> ServiceWorker: the worker thread of a connection with the service's handler as its callback; what the service does depends only on the
    frames of the client, not on how they were cut into reads.
  \<^item> EntryPoints (\<^verbatim>\<open>LsaExports.cpp\<close> and both \<^verbatim>\<open>main.cpp\<close>): the exported functions over the one package object, what the process of the LSA is handed
    over its life, and the service and the agent from the start of the process to its end.
  \<^item> Agent (\<^verbatim>\<open>UserSessionAgent.cpp\<close>): the main loop returns when stopped and answers every lock command.
  \<^item> Credential (\<^verbatim>\<open>MobileUnlockCredential.cpp\<close>): the tile and its status threads in any interleaving, and what is handed to Winlogon.
  \<^item> Com (\<^verbatim>\<open>CredentialProvider.cpp\<close>, \<^verbatim>\<open>ClassFactory.cpp\<close>, \<^verbatim>\<open>dllmain.cpp\<close>): reference counting over a store of objects; no permitted call
    touches a deleted one, and the library is unloaded only when unused.
  \<^item> LockSystem: service, agent and the pipe between them as one system. The workstation is locked only on requests that were accepted,
    once for each, and a request that is accepted is answered.
  \<^item> Lifecycle: a device that completed its pairing can authenticate, one that was unpaired or revoked is turned away by every
    component that reads the registry, in every history of the service, and the limit of devices for an account is looked at only
    when a pairing is requested.

  This theory holds what spans components: the service as a refinement of the abstract challenges, what the tile can read from the
  service, and the way of an assertion from the pipe through the tile to the authentication package.

  \<^bold>\<open>Conventions.\<close> Integers of the source are words of their width, byte vectors lists of 8-bit words, wide strings lists of 16-bit
  words. Null pointers, invalid handles and undefined behaviour (a read out of bounds, a use of a deleted object) are \<open>None\<close>.
  What the system answers (registry, CNG, SChannel, Winsock, pipes, clocks, sessions, the LSA and its heap, memory) is an
  argument of the operation; where a theorem relies on its documented behaviour, this is a named hypothesis and the witness
  instantiates it with a concrete function. Calls to the system, frames sent and log lines are outputs. Threads are step relations whose
  steps are the pieces between which another thread can run; operations under a lock that protects all they touch are single steps. Accesses to a
  member without a lock are atomic in the models. A loop over a hash map visits its
  entries in the order of their insertion, one of the orders the library allows.

  \<^bold>\<open>Loops.\<close> Loops over data are functions with a termination proof. The endless loops of threads are modelled by one iteration each, and
  where the whole loop matters as recursion over the list of what the system answers in each turn (\<open>worker_loop\<close>, \<open>agent_loop\<close>,
  \<open>connect_loop\<close>, \<open>read_wait\<close>): the list takes the place of fuel, an exhausted list is \<open>None\<close>, and that the loop returns is proved
  from what the list contains, for instance that the clock passes the time limit. \<open>EnumerateDeviceIds\<close> is a partial function.

  \<^bold>\<open>Not modelled.\<close> \<^verbatim>\<open>MOBILE_UNLOCK_PHASE7_BUFFER\<close> and the Bluetooth constants,
  which nothing uses; the texts printed to the console by the agent; the tests; the phone application and its protocol tests in
  Dart and Kotlin; scripts, build files and vendored code.
\<close>

section \<open>The service and the challenges\<close>

interpretation svc_chal: refinement_chain "svc_step_coded api" "auth_step api" chal_step auth_part auth_view open_challenges chal_view ..

text \<open>C2: the service as a whole keeps the contract of one-time challenges. Every history of the service, with its network
  frames, pipe messages, starts and stops in any order, is a history of the abstract machine of theory ChallengeSpec, in which an
  authentication takes the open challenge of its device away: an AUTH\_REQUEST frame that the manager grants issues one, an
  AUTH\_RESPONSE frame that succeeds accepts exactly the open one, with the session number that its message names, a failed one drops at most
  the challenge of its own device, and every other call leaves the open challenges alone. The result of an authentication
  frame is the code that the manager's handler returns for it; each history is recorded with these codes in exactly one way.\<close>

theorem service_refines_challenges:
  assumes "run (svc_step_coded api) s es t"
  shows "\<exists>ls. list_all2 (auth_view OO chal_view) es ls \<and>
    run chal_step (open_challenges (auth_part s)) ls (open_challenges (auth_part t))"
  using svc_chal.chain.run_refines [OF assms] .

theorem service_refines_challenges_witness:
  "\<exists>o1 o2 t k. run (svc_step_coded sim_api) paired_service
      [((VFrame demo_svc_env 1 auth_request (dr_deviceId demo_record), o1), Some AR_SUCCESS),
       ((VFrame (demo_svc_env\<lparr>ve_nowMs := 2000\<rparr>) 1 auth_response (demo_payload MT_AUTH_RESPONSE 1), o2), Some AR_SUCCESS)] t \<and>
    run chal_step (open_challenges (auth_part paired_service)) [ChIssue demo_dev k, ChAccept demo_dev 1] (open_challenges (auth_part t))"
proof -
  obtain o1 o2 t where r: "run (svc_step_coded sim_api) paired_service
      [((VFrame demo_svc_env 1 auth_request (dr_deviceId demo_record), o1), Some AR_SUCCESS),
       ((VFrame (demo_svc_env\<lparr>ve_nowMs := 2000\<rparr>) 1 auth_response (demo_payload MT_AUTH_RESPONSE 1), o2), Some AR_SUCCESS)] t"
    by (rule paired_round)
  have p: "resp_device (demo_payload MT_AUTH_RESPONSE 1) = Some demo_dev" "resp_session (demo_payload MT_AUTH_RESPONSE 1) = 1"
    "request_device g (dr_deviceId demo_record) = dr_deviceId demo_record" for g
    by (simp_all add: resp_device_def resp_session_def demo_message demo_dev_def demo_msg_def request_device_def demo_record_def sample_record_def)
  have h: "fh_MessageType auth_request = opcode MT_AUTH_REQUEST" "fh_MessageType auth_response = opcode MT_AUTH_RESPONSE"
    "opcode MT_AUTH_RESPONSE \<noteq> opcode MT_AUTH_REQUEST"
    by (simp_all add: auth_request_def auth_response_def)
  obtain ls where "list_all2 (auth_view OO chal_view)
      [((VFrame demo_svc_env 1 auth_request (dr_deviceId demo_record), o1), Some AR_SUCCESS),
       ((VFrame (demo_svc_env\<lparr>ve_nowMs := 2000\<rparr>) 1 auth_response (demo_payload MT_AUTH_RESPONSE 1), o2), Some AR_SUCCESS)] ls"
    and ls: "run chal_step (open_challenges (auth_part paired_service)) ls (open_challenges (auth_part t))"
    using service_refines_challenges [OF r] by blast
  then obtain k where "ls = [ChIssue demo_dev k, ChAccept demo_dev 1]"
    by (auto simp: list_all2_Cons1 OO_def h p demo_dev_def simp del: opcode.simps)
  with r ls show ?thesis by blast
qed

section \<open>The tile and the service\<close>

text \<open>The first four bytes of a frame are not the magic number of a logon buffer.\<close>

lemma frame_no_token: "\<not> tk_valid (token_of_response (SerializeFrameHeader (svc_header mt i n p) @ r))"
proof -
  have magic: "rev (to_le 2 PROTOCOL_MAGIC) = [0x4D, 0x55]"
    by code_simp
  have "take 4 (SerializeFrameHeader (svc_header mt i n p) @ r) = [0x4D, 0x55, 1, 0]"
    by (simp add: SerializeFrameHeader_big_endian svc_header_def magic PROTOCOL_MAJOR_VERSION_def PROTOCOL_MINOR_VERSION_def
        del: opcode.simps)
  then have "lb_Magic (lsa_buffer_of_image (SerializeFrameHeader (svc_header mt i n p) @ r)) \<noteq> LSA_SUBMIT_BUFFER_MAGIC"
    by (simp add: lsa_buffer_of_image_def LSA_SUBMIT_BUFFER_MAGIC_def)
  then show ?thesis
    by (simp add: token_of_response_def no_token_def Let_def)
qed

text \<open>The tile is not ready, and what its threads may still read is nothing but frames of the service.\<close>

definition unready :: "tile \<Rightarrow> bool" where
  "unready s \<longleftrightarrow> \<not> cr_authStateReady (fst s)"

definition frames_only :: "fetch_env \<Rightarrow> bool" where
  "frames_only env \<longleftrightarrow> (\<forall>n data. fe_readFile env n = Some data \<longrightarrow> (\<exists>mt i k p r. data = SerializeFrameHeader (svc_header mt i k p) @ r))"

definition fed_by_service :: "cred_op \<times> cred_out list \<Rightarrow> bool" where
  "fed_by_service e \<longleftrightarrow> (case fst e of CThread h env \<Rightarrow> frames_only env | _ \<Rightarrow> True)"

interpretation service_tile: invariant_machine "\<lambda>s e t. fed_by_service e \<and> cred_step s e t" unready
proof
  fix s e t
  assume u: "unready s" and "fed_by_service e \<and> cred_step s e t"
  then have f: "fed_by_service e" and st: "cred_step s e t" by auto
  from st show "unready t"
  proof cases
    case (thread T h pc env c outs pc' c')
    have "\<not> tk_valid token" if "FetchAuthState 5000 5000 env = Some token" for token
      using fetched_valid [OF that] frame_no_token f thread by (fastforce simp: fed_by_service_def frames_only_def)
    with thread u thread_ready [OF thread(5)] show ?thesis by (auto simp: unready_def)
  qed (use u in \<open>auto simp: unready_def dest!: tile_ops_ready\<close>)
qed

text \<open>C40: with this service, the tile never offers a credential. Take any history of a tile in which each message that its status
  threads read from the pipe is one that the service has written there, in some state and on some call. Then
  \<^verbatim>\<open>GetSerialization\<close> answers S\_FALSE without a credential: the service never sends a logon buffer, since all it writes
  are frames, and the probe that the tile sends is not even a frame.\<close>

theorem tile_never_ready:
  assumes "run cred_step (MobileUnlockCredential_new allocated, Map.empty) es (c, T)"
    and "\<And>h env outs n data. (CThread h env, outs) \<in> set es \<Longrightarrow> fe_readFile env n = Some data \<Longrightarrow>
      \<exists>(s :: ('c, 'w) MobileUnlockService) e t. svc_step s e t \<and> SIpc data \<in> set (snd e)"
  shows "GetSerialization True la mem c = (S_FALSE, Some (CPGSR_NO_CREDENTIAL_FINISHED, CREDENTIAL_SERIALIZATION_zero))"
proof -
  have "fed_by_service e" if "e \<in> set es" for e
  proof (cases e)
    case (Pair op outs)
    show ?thesis
    proof (cases op)
      case (CThread h env)
      with that Pair have "(CThread h env, outs) \<in> set es" by simp
      from assms(2) [OF this] have "frames_only env"
        unfolding frames_only_def using service_pipe_frames by metis
      then show ?thesis by (simp add: fed_by_service_def Pair CThread)
    qed (simp_all add: fed_by_service_def Pair)
  qed
  then have "run (\<lambda>s e t. fed_by_service e \<and> cred_step s e t) (MobileUnlockCredential_new allocated, Map.empty) es (c, T)"
    using run_conj [OF assms(1)] by blast
  moreover have "unready (MobileUnlockCredential_new allocated, Map.empty)"
    by (simp add: unready_def MobileUnlockCredential_new_def MobileUnlockCredential_with_def)
  ultimately have "unready (c, T)" by (rule service_tile.run_inv)
  then show ?thesis by (simp add: unready_def GetSerialization_def)
qed

text \<open>The probe of the tile, as the service sees it.\<close>

lemma probe_rejected: "DeserializeFrameHeader (Some auth_probe) = None"
  by code_simp

lemma probe_unanswered: "HandleIpcMessage env auth_probe s = Some (outs, t) \<Longrightarrow> SIpc m \<notin> set outs"
  by (auto simp: HandleIpcMessage_def probe_rejected Let_def)

text \<open>A thread that reads a lock command meant for the agent.\<close>

definition frame_fetch :: fetch_env where
  "frame_fetch = demo_fetch\<lparr>fe_readFile := \<lambda>_. Some (lock_command (demo_lock 5) [])\<rparr>"

lemma frame_fetch_token: "FetchAuthState 5000 5000 frame_fetch = Some no_token"
proof -
  have "length (lock_command (demo_lock 5) []) = 24"
    by (simp add: lock_command_def FRAME_HEADER_SIZE_def)
  then have "token_of_response (lock_command (demo_lock 5) []) = no_token"
    by (simp add: token_of_response_def LSA_LOGON_BUFFER_SIZE_def)
  moreover have "auth_probe \<noteq> []" by (simp add: auth_probe_def bytes_of_string_def)
  ultimately show ?thesis
    by (simp add: FetchAuthState_def frame_fetch_def demo_fetch_def Client_Connect_def NamedPipeClient_new_def SendMessageToServer_def
        ReadMessageFromServer_def)
qed

lemma frame_fetch_run:
  "\<exists>outs outs' c. run cred_step (MobileUnlockCredential_new True, Map.empty)
     [(CAdvise (Some 4) (Some 2) (Some 3), outs), (CThread 3 frame_fetch, []), (CThread 3 frame_fetch, outs')] (c, [3 \<mapsto> InWait])"
proof -
  let ?c = "MobileUnlockCredential_new True"
  obtain hr outs c1 where c1: "Cred_Advise (Some 4) (Some 2) (Some 3) ?c = (hr, outs, c1)" by (cases "Cred_Advise (Some 4) (Some 2) (Some 3) ?c")
  have "cred_step (?c, Map.empty) (CAdvise (Some 4) (Some 2) (Some 3), outs) (c1, [3 \<mapsto> AtLoop])"
    using cred_step.advise [OF c1, of Map.empty] by (simp add: started_def MobileUnlockCredential_new_def MobileUnlockCredential_with_def)
  moreover have f: "cr_ipcFactory c1" "\<not> cr_stopThread c1"
    using c1 by (auto simp: Cred_Advise_def MobileUnlockCredential_new_def MobileUnlockCredential_with_def Let_def)
  then have "cred_step (c1, [3 \<mapsto> AtLoop]) (CThread 3 frame_fetch, []) (c1, [3 \<mapsto> InFetch])"
    using cred_step.thread [of "[3 \<mapsto> AtLoop]" 3 AtLoop frame_fetch c1 "[]" "Some InFetch" c1] by (simp add: status_loop_head_def)
  moreover obtain outs' c2 where "status_thread frame_fetch InFetch c1 = Some (outs', Some InWait, c2)"
    using f by (simp add: frame_fetch_token status_fetched_def no_token_def UpdateStatusField_def Let_def)
  then have "cred_step (c1, [3 \<mapsto> InFetch]) (CThread 3 frame_fetch, outs') (c2, [3 \<mapsto> InWait])"
    using cred_step.thread [of "[3 \<mapsto> InFetch]" 3 InFetch frame_fetch c1 outs' "Some InWait" c2] by simp
  ultimately show ?thesis by (meson run.intros)
qed

theorem tile_never_ready_witness:
  "\<exists>es c T. run cred_step (MobileUnlockCredential_new True, Map.empty) es (c, T) \<and> (\<exists>outs. (CThread 3 frame_fetch, outs) \<in> set es) \<and>
     GetSerialization True demo_la True c = (S_FALSE, Some (CPGSR_NO_CREDENTIAL_FINISHED, CREDENTIAL_SERIALIZATION_zero))"
proof -
  obtain outs outs' c where r: "run cred_step (MobileUnlockCredential_new True, Map.empty)
     [(CAdvise (Some 4) (Some 2) (Some 3), outs), (CThread 3 frame_fetch, []), (CThread 3 frame_fetch, outs')] (c, [3 \<mapsto> InWait])"
    using frame_fetch_run by blast
  have "svc_step demo_service (VFrame demo_svc_env 1 (demo_lock 5) [], [SIpc (lock_command (demo_lock 5) [])])
      (demo_service\<lparr>sv_diag := IncrementProcessedMessages (sv_diag demo_service), sv_pendingLockClientId := 1, sv_pendingLockMessageId := 5\<rparr>)"
    by (simp add: svc_step_def demo_lock_result)
  then have w: "\<exists>(s :: (nat, sim_world) MobileUnlockService) e t. svc_step s e t \<and> SIpc (lock_command (demo_lock 5) []) \<in> set (snd e)"
    by (metis list.set_intros(1) snd_conv)
  have "GetSerialization True demo_la True c = (S_FALSE, Some (CPGSR_NO_CREDENTIAL_FINISHED, CREDENTIAL_SERIALIZATION_zero))"
  proof (rule tile_never_ready [OF r, where ?'c = nat and ?'w = sim_world])
    fix h env out n data
    assume "(CThread h env, out) \<in> set [(CAdvise (Some 4) (Some 2) (Some 3), outs), (CThread 3 frame_fetch, []), (CThread 3 frame_fetch, outs')]"
      "fe_readFile env n = Some data"
    then have "data = lock_command (demo_lock 5) []" by (auto simp: frame_fetch_def)
    with w show "\<exists>(s :: (nat, sim_world) MobileUnlockService) e t. svc_step s e t \<and> SIpc data \<in> set (snd e)" by (simp only:)
  qed
  with r show ?thesis by (meson list.set_intros)
qed

section \<open>From the pipe to the logon\<close>

text \<open>C7: an assertion that reaches the tile logs the user on. If a status thread of a tile that is not being stopped reads
  the logon buffer of a well-formed message from the pipe, then the bytes that the tile hands to Winlogon are that buffer, unchanged,
  and the authentication package, given these bytes, accepts them when the registry and the key of the device vouch
  for the message and its strings can be allocated.\<close>

theorem assertion_unlocks:
  assumes "\<not> cr_stopThread c" "FetchAuthState 5000 5000 env = Some (token_of_response (lsa_buffer_image (logon_buffer m sig)))"
    and "logon_message_ok m sig" "device_vouches api cng reg cs m sig rec cs'"
    and "lo_status (logon_outputs alloc req (target_user_name lookup_sid rec) p cs') = STATUS_SUCCESS"
  shows "\<exists>outs c' ser res. status_thread env InFetch c = Some (outs, Some InWait, c') \<and>
    GetSerialization True la True c' = (S_OK, Some (CPGSR_RETURN_CREDENTIAL_FINISHED, ser)) \<and>
    rgbSerialization ser = Some (lsa_buffer_image (logon_buffer m sig)) \<and>
    LogonUserEx2 api cng lookup_sid alloc req (rgbSerialization ser) reg cs p = Some res \<and> lo_status res = STATUS_SUCCESS"
proof -
  let ?b = "logon_buffer m sig"
  have wf: "lsa_buffer_wf ?b" by (rule logon_buffer_wf [OF assms(3)])
  then have "length (lsa_buffer_image ?b) = 180" "lsa_buffer_of_image (lsa_buffer_image ?b) = ?b"
    using lsa_codec.enc_width [OF wf] lsa_codec.dec_enc [OF wf] by (simp_all add: lsa_consts lsa_buffer_read_def)
  then have tok: "token_of_response (lsa_buffer_image ?b) = \<lparr>tk_valid = True, tk_lsaBuffer = ?b\<rparr>"
    by (simp add: token_of_response_def no_token_def LSA_LOGON_BUFFER_SIZE_def Let_def logon_buffer_def)
  obtain outs c' where c': "status_thread env InFetch c = Some (outs, Some InWait, c')" "cr_authStateReady c'" "cr_internalAuthBuffer c' = ?b"
    using assms(1,2) by (simp add: tok status_fetched_def UpdateStatusField_def Let_def)
  obtain ser where "GetSerialization True la True c' = (S_OK, Some (CPGSR_RETURN_CREDENTIAL_FINISHED, ser))"
    "rgbSerialization ser = Some (lsa_buffer_image ?b)"
    using c'(2,3) by (simp add: GetSerialization_def case_prod_unfold Let_def)
  moreover have "LogonUserEx2 api cng lookup_sid alloc req (Some (lsa_buffer_image ?b)) reg cs p =
      Some (logon_outputs alloc req (target_user_name lookup_sid rec) p cs')"
    using LogonUserEx2_eq [OF assms(3,4), of lookup_sid alloc req "[]" p] by simp
  ultimately show ?thesis
    using assms(5) c'(1) by (simp del: status_thread.simps)
qed

theorem assertion_unlocks_witness:
  "\<exists>outs c' ser res. status_thread demo_fetch InFetch (MobileUnlockCredential_new True) = Some (outs, Some InWait, c') \<and>
    GetSerialization True demo_la True c' = (S_OK, Some (CPGSR_RETURN_CREDENTIAL_FINISHED, ser)) \<and>
    LogonUserEx2 sim_api demo_cng (\<lambda>_. Some (wide ''alice'')) (\<lambda>_ _ _. True) demo_logon_request (rgbSerialization ser) demo_reg crypto_state_init
      LsaPackage_new = Some res \<and> lo_status res = STATUS_SUCCESS"
proof -
  obtain cs' where v: "logon_message_ok (demo_msg MT_AUTH_RESPONSE 1) (replicate 64 7)"
    "device_vouches sim_api demo_cng demo_reg crypto_state_init (demo_msg MT_AUTH_RESPONSE 1) (replicate 64 7) demo_record cs'"
    by (rule demo_logon_vouched)
  have st: "\<not> cr_stopThread (MobileUnlockCredential_new True)"
    by (simp add: MobileUnlockCredential_new_def MobileUnlockCredential_with_def)
  have f: "FetchAuthState 5000 5000 demo_fetch = Some (token_of_response (lsa_buffer_image (logon_buffer (demo_msg MT_AUTH_RESPONSE 1) (replicate 64 7))))"
    using lsa_codec.enc_width [OF logon_buffer_wf [OF v(1)]] lsa_codec.dec_enc [OF logon_buffer_wf [OF v(1)]]
    by (simp add: demo_fetch_token token_of_response_def no_token_def lsa_buffer_read_def LSA_LOGON_BUFFER_SIZE_def Let_def, simp add: logon_buffer_def)
  have o: "lo_status (logon_outputs (\<lambda>_ _ _. True) demo_logon_request (target_user_name (\<lambda>_. Some (wide ''alice'')) demo_record) LsaPackage_new cs') = STATUS_SUCCESS"
    by (simp add: outputs_defs target_user_name_def demo_record_def sample_record_def)
  from assertion_unlocks [OF st f v o, of demo_la] show ?thesis by blast
qed

end
